(* ===== verification/Prelude.thy ===== *)
theory Prelude
  imports Complex_Main "HOL-Library.AList" "HOL-Library.List_Lexorder" "HOL-Library.Sublist"
begin

text \<open>
  The vocabulary every component theory shares: Python strings as lists of code points and the
  string methods the plugin calls, the dynamically typed values it passes around, insertion-ordered
  dictionaries, Python rounding, and the contract of a state machine with an invariant.
\<close>

named_theorems py_simps \<open>evaluation of the Python string and value operations\<close>
named_theorems inv_intros \<open>operations that keep a component's invariant\<close>

section \<open>Strings\<close>

text \<open>
  A Python \<open>str\<close> is a sequence of code points. The literal \<open>"abc"\<close> of the source is written
  \<open>u ''abc''\<close>; a literal outside ASCII is written as the list of its code points.
\<close>

type_synonym pystr = "int list"

definition u :: "string \<Rightarrow> pystr" where
  "u s = map of_char s"

lemma u_eq_iff [simp]: "u s = u t \<longleftrightarrow> s = t"
  unfolding u_def by (rule inj_map_eq_map) (simp add: inj_on_def)

lemma u_Nil [simp]: "u [] = []"
  by (simp add: u_def)

lemma u_eq_Nil_iff [simp]: "u s = [] \<longleftrightarrow> s = []" "[] = u s \<longleftrightarrow> s = []"
  by (auto simp: u_def)

lemma length_u [simp]: "length (u s) = length s"
  by (simp add: u_def)

lemma u_append: "u (s @ t) = u s @ u t"
  by (simp add: u_def)

lemma set_u_ascii: "c \<in> set (u s) \<Longrightarrow> 0 \<le> c \<and> c < 256"
proof -
  assume "c \<in> set (u s)"
  then obtain d where "c = of_char d" by (auto simp: u_def)
  then have "c = int (of_char d)" by (simp add: of_nat_of_char)
  then show ?thesis using nat_of_char_less_256 [of d] by linarith
qed

text \<open>\<open>str.isspace\<close>, by the Unicode database: the characters \<open>str.strip()\<close> removes.\<close>

definition py_space :: "int \<Rightarrow> bool" where
  "py_space c \<longleftrightarrow> 9 \<le> c \<and> c \<le> 13 \<or> 28 \<le> c \<and> c \<le> 32 \<or> c = 133 \<or> c = 160 \<or> c = 5760
     \<or> 8192 \<le> c \<and> c \<le> 8202 \<or> c = 8232 \<or> c = 8233 \<or> c = 8239 \<or> c = 8287 \<or> c = 12288"

definition strip_by :: "(int \<Rightarrow> bool) \<Rightarrow> pystr \<Rightarrow> pystr" where
  "strip_by p s = rev (dropWhile p (rev (dropWhile p s)))"

definition py_strip :: "pystr \<Rightarrow> pystr" where
  "py_strip s = strip_by py_space s"

text \<open>
  \<open>str.lower\<close> on ASCII and Latin-1 letters and the Kelvin sign, the one character beyond them whose lower case
  is a single ASCII letter; other cased letters beyond U+00FF are left as they are (the plugin lowers names of
  kinds, strategies, roles, hosts and media types only, to compare them with ASCII texts).
\<close>

definition lower_char :: "int \<Rightarrow> int" where
  "lower_char c =
     (if 65 \<le> c \<and> c \<le> 90 \<or> 192 \<le> c \<and> c \<le> 222 \<and> c \<noteq> 215 then c + 32
      else if c = 8490 then 107 else c)"

definition py_lower :: "pystr \<Rightarrow> pystr" where
  "py_lower s = map lower_char s"

definition py_startswith :: "pystr \<Rightarrow> pystr \<Rightarrow> bool" where
  "py_startswith s p \<longleftrightarrow> take (length p) s = p"

text \<open>\<open>str.find\<close>: the first index of a substring, \<open>None\<close> for the source's \<open>-1\<close>.\<close>

fun find_sub :: "pystr \<Rightarrow> pystr \<Rightarrow> nat option" where
  "find_sub [] p = (if p = [] then Some 0 else None)"
| "find_sub (c # s) p =
     (if take (length p) (c # s) = p then Some 0 else map_option Suc (find_sub s p))"

definition py_contains :: "pystr \<Rightarrow> pystr \<Rightarrow> bool" where
  "py_contains s p \<longleftrightarrow> find_sub s p \<noteq> None"

text \<open>\<open>s.split(sep)\<close> for a separator of one character (or one byte).\<close>

fun split_on :: "'a \<Rightarrow> 'a list \<Rightarrow> 'a list list" where
  "split_on c [] = [[]]"
| "split_on c (x # xs) =
     (if x = c then [] # split_on c xs
      else (case split_on c xs of [] \<Rightarrow> [[x]] | p # ps \<Rightarrow> (x # p) # ps))"

fun py_join :: "pystr \<Rightarrow> pystr list \<Rightarrow> pystr" where
  "py_join sep [] = []"
| "py_join sep [x] = x"
| "py_join sep (x # xs) = x @ sep @ py_join sep xs"

text \<open>Decimal digits, most significant first: \<open>str(n)\<close>.\<close>

fun digits :: "nat \<Rightarrow> pystr" where
  "digits n = (if n < 10 then [48 + int n] else digits (n div 10) @ [48 + int (n mod 10)])"

declare digits.simps [simp del]

definition py_int_str :: "int \<Rightarrow> pystr" where
  "py_int_str i = (if i < 0 then u ''-'' @ digits (nat (- i)) else digits (nat i))"

lemma digits_value: "foldl (\<lambda>a c. 10 * a + nat (c - 48)) 0 (digits n) = n"
proof (induction n rule: digits.induct)
  case (1 n)
  then show ?case by (subst digits.simps) (simp add: mult.commute div_mult_mod_eq)
qed

lemma digits_inject [simp]: "digits m = digits n \<longleftrightarrow> m = n"
  by (metis digits_value)

lemma digits_chars: "c \<in> set (digits n) \<Longrightarrow> 48 \<le> c \<and> c \<le> 57"
proof (induction n rule: digits.induct)
  case (1 n)
  then show ?case by (subst (asm) digits.simps) (auto split: if_splits)
qed

lemma py_int_str_nat_inject [simp]: "py_int_str (int m) = py_int_str (int n) \<longleftrightarrow> m = n"
  by (simp add: py_int_str_def)

text \<open>\<open>repr(s)\<close>: single quotes unless the text holds one and no double quote; backslash escapes.
  Code points above U+00FF count as printable.\<close>

definition hex_digit :: "int \<Rightarrow> int" where
  "hex_digit d = (if d < 10 then 48 + d else 87 + d)"

definition repr_char :: "int \<Rightarrow> int \<Rightarrow> pystr" where
  "repr_char q c =
     (if c = q \<or> c = 92 then [92, c]
      else if c = 9 then u [CHR 92, CHR ''t'']
      else if c = 10 then u [CHR 92, CHR ''n'']
      else if c = 13 then u [CHR 92, CHR ''r'']
      else if c < 32 \<or> 127 \<le> c \<and> c \<le> 160 \<or> c = 173
        then u [CHR 92, CHR ''x''] @ [hex_digit (c div 16), hex_digit (c mod 16)]
      else [c])"

definition py_repr_str :: "pystr \<Rightarrow> pystr" where
  "py_repr_str s =
     (let q = (if 39 \<in> set s \<and> 34 \<notin> set s then 34 else 39)
      in [q] @ concat (map (repr_char q) s) @ [q])"

definition py_repr_strs :: "pystr list \<Rightarrow> pystr" where
  "py_repr_strs xs = u ''['' @ py_join (u '', '') (map py_repr_str xs) @ u '']''"

text \<open>A name between single quotes, as the messages have it.\<close>

definition quoted :: "pystr \<Rightarrow> pystr" where
  "quoted s = [39] @ s @ [39]"

text \<open>\<open>sorted(set(xs))\<close>.\<close>

definition py_sorted_set :: "pystr list \<Rightarrow> pystr list" where
  "py_sorted_set xs = sort (remdups xs)"

lemma set_py_sorted_set [simp]: "set (py_sorted_set xs) = set xs"
  by (simp add: py_sorted_set_def)

lemma distinct_py_sorted_set [simp]: "distinct (py_sorted_set xs)"
  by (simp add: py_sorted_set_def)

lemma py_sorted_set_Nil_iff [simp]: "py_sorted_set xs = [] \<longleftrightarrow> xs = []"
  by (metis set_empty set_py_sorted_set)

lemma split_on_not_Nil [simp]: "split_on c xs \<noteq> []"
  by (induction xs) (auto split: list.splits)

lemma set_strip_by: "set (strip_by p s) \<subseteq> set s"
  unfolding strip_by_def by (auto dest!: set_dropWhileD)

lemma strip_by_Nil_iff: "strip_by p s = [] \<longleftrightarrow> (\<forall>c \<in> set s. p c)"
proof
  assume "strip_by p s = []"
  then have all: "\<forall>c \<in> set (dropWhile p s). p c"
    by (simp add: strip_by_def dropWhile_eq_Nil_conv)
  have "dropWhile p s = []"
  proof (rule ccontr)
    assume "dropWhile p s \<noteq> []"
    then have "\<not> p (hd (dropWhile p s))" and "hd (dropWhile p s) \<in> set (dropWhile p s)"
      by (simp_all add: hd_dropWhile)
    with all show False by blast
  qed
  then show "\<forall>c \<in> set s. p c" by (simp add: dropWhile_eq_Nil_conv)
next
  assume "\<forall>c \<in> set s. p c"
  then have "\<forall>c \<in> set (dropWhile p s). p c" by (blast dest: set_dropWhileD)
  then show "strip_by p s = []" by (simp add: strip_by_def dropWhile_eq_Nil_conv)
qed

lemma strip_by_fixed: "dropWhile p s = s \<Longrightarrow> dropWhile p (rev s) = rev s \<Longrightarrow> strip_by p s = s"
  by (simp add: strip_by_def)

lemma hd_strip_by: "strip_by p s \<noteq> [] \<Longrightarrow> \<not> p (hd (strip_by p s))"
proof -
  assume ne: "strip_by p s \<noteq> []"
  let ?t = "dropWhile p s"
  have t: "?t \<noteq> []"
  proof
    assume "?t = []"
    with ne show False by (simp only: strip_by_def) simp
  qed
  then have hd: "\<not> p (hd ?t)" by (rule hd_dropWhile)
  have pre: "prefix (strip_by p s) ?t"
    unfolding strip_by_def
    by (metis suffix_dropWhile suffix_to_prefix rev_rev_ident)
  then obtain zs where "?t = strip_by p s @ zs" by (auto elim: prefixE)
  with ne have "hd ?t = hd (strip_by p s)" by simp
  with hd show ?thesis by simp
qed

lemma strip_by_rev: "strip_by p (rev s) = rev (strip_by p s)"
proof -
  have "dropWhile p (rev (dropWhile p (rev s))) = rev (dropWhile p (rev (dropWhile p s)))" for s
  proof (induction s)
    case (Cons x s)
    show ?case
    proof (cases "p x")
      case True
      with Cons show ?thesis by (auto simp: dropWhile_append dest: set_dropWhileD)
    next
      case False
      then show ?thesis by (simp add: dropWhile_append3)
    qed
  qed simp
  then show ?thesis by (simp add: strip_by_def)
qed

lemma last_strip_by: "strip_by p s \<noteq> [] \<Longrightarrow> \<not> p (last (strip_by p s))"
  using hd_strip_by [of p "rev s"] by (simp add: strip_by_rev hd_rev)

lemma strip_by_idem [simp]: "strip_by p (strip_by p s) = strip_by p s"
proof (rule strip_by_fixed)
  show "dropWhile p (strip_by p s) = strip_by p s"
    using hd_strip_by [of p s] unfolding dropWhile_eq_self_iff by blast
  have "dropWhile p (dropWhile p (rev (dropWhile p s))) = dropWhile p (rev (dropWhile p s))"
    by (rule dropWhile_idem)
  then show "dropWhile p (rev (strip_by p s)) = rev (strip_by p s)"
    by (simp add: strip_by_def)
qed

section \<open>Values\<close>

text \<open>
  The dynamically typed values the plugin passes between agents, strategies and adapters: what
  \<open>json.loads\<close> yields, floats apart (no modelled path reads one out of such a value). A dictionary
  is an association list in insertion order.
\<close>

datatype pyval =
    NoneV
  | BoolV bool
  | IntV int
  | StrV pystr
  | ListV "pyval list"
  | DictV "(pystr \<times> pyval) list"

text \<open>\<open>bool(v)\<close>, \<open>repr(v)\<close> and \<open>str(v)\<close>.\<close>

fun truthy :: "pyval \<Rightarrow> bool" where
  "truthy NoneV = False"
| "truthy (BoolV b) = b"
| "truthy (IntV i) = (i \<noteq> 0)"
| "truthy (StrV s) = (s \<noteq> [])"
| "truthy (ListV vs) = (vs \<noteq> [])"
| "truthy (DictV kvs) = (kvs \<noteq> [])"

fun py_repr :: "pyval \<Rightarrow> pystr" where
  "py_repr NoneV = u ''None''"
| "py_repr (BoolV b) = (if b then u ''True'' else u ''False'')"
| "py_repr (IntV i) = py_int_str i"
| "py_repr (StrV s) = py_repr_str s"
| "py_repr (ListV vs) = u ''['' @ py_join (u '', '') (map py_repr vs) @ u '']''"
| "py_repr (DictV kvs) =
     u ''{'' @ py_join (u '', '') (map (\<lambda>(k, v). py_repr_str k @ u '': '' @ py_repr v) kvs) @ u ''}''"

fun py_str :: "pyval \<Rightarrow> pystr" where
  "py_str (StrV s) = s"
| "py_str v = py_repr v"

text \<open>\<open>isinstance(v, dict) and "error" in v\<close>, and the error dictionaries the helpers build.\<close>

fun dict_of :: "pyval \<Rightarrow> (pystr \<times> pyval) list option" where
  "dict_of (DictV kvs) = Some kvs"
| "dict_of _ = None"

definition is_error_dict :: "pyval \<Rightarrow> bool" where
  "is_error_dict v = (case dict_of v of None \<Rightarrow> False | Some kvs \<Rightarrow> map_of kvs (u ''error'') \<noteq> None)"

definition error_dict :: "pystr \<Rightarrow> pyval" where
  "error_dict msg = DictV [(u ''error'', StrV msg)]"

lemma is_error_dict_error_dict [simp]: "is_error_dict (error_dict m)"
  by (simp add: is_error_dict_def error_dict_def)

lemma is_error_dict_simps [simp]:
  "\<not> is_error_dict NoneV" "\<not> is_error_dict (BoolV b)" "\<not> is_error_dict (IntV i)"
  "\<not> is_error_dict (StrV s)" "\<not> is_error_dict (ListV vs)"
  "is_error_dict (DictV kvs) \<longleftrightarrow> u ''error'' \<in> fst ` set kvs"
  by (auto simp: is_error_dict_def map_of_eq_None_iff)

text \<open>What the \<open>as_dict\<close> methods emit: a value, or a number that may be fractional.\<close>

datatype field = FVal pyval | FNum real

text \<open>\<open>int(s)\<close> on a string: surrounding white space, a sign, ASCII digits with single underscores
  between them; \<open>None\<close> stands for the \<open>ValueError\<close>.\<close>

definition is_digit :: "int \<Rightarrow> bool" where
  "is_digit c \<longleftrightarrow> 48 \<le> c \<and> c \<le> 57"

fun parse_digits :: "int \<Rightarrow> bool \<Rightarrow> pystr \<Rightarrow> int option" where
  "parse_digits acc after_digit [] = (if after_digit then Some acc else None)"
| "parse_digits acc after_digit (c # s) =
     (if is_digit c then parse_digits (10 * acc + (c - 48)) True s
      else if c = 95 \<and> after_digit \<and> s \<noteq> [] then parse_digits acc False s
      else None)"

definition parse_int :: "pystr \<Rightarrow> int option" where
  "parse_int s =
     (case py_strip s of
        [] \<Rightarrow> None
      | c # t \<Rightarrow>
          if c = 45 then map_option uminus (parse_digits 0 False t)
          else if c = 43 then parse_digits 0 False t
          else parse_digits 0 False (c # t))"

section \<open>Slices\<close>

text \<open>\<open>xs[i:]\<close>: a negative start counts from the end and is clipped at the front.\<close>

definition slice_from :: "int \<Rightarrow> 'a list \<Rightarrow> 'a list" where
  "slice_from i xs = (if 0 \<le> i then drop (nat i) xs else drop (length xs - nat (- i)) xs)"

text \<open>\<open>xs[:i]\<close>.\<close>

definition slice_to :: "int \<Rightarrow> 'a list \<Rightarrow> 'a list" where
  "slice_to i xs = (if 0 \<le> i then take (nat i) xs else take (length xs - nat (- i)) xs)"

lemma suffix_slice_from: "suffix (slice_from i xs) xs"
  by (simp add: slice_from_def suffix_drop)

lemma length_slice_from_neg: "0 < n \<Longrightarrow> length (slice_from (- n) xs) = min (nat n) (length xs)"
  by (auto simp: slice_from_def min_def)

section \<open>Insertion-ordered dictionaries\<close>

text \<open>
  \<open>dict\<close>: \<open>d.get(k)\<close> is \<open>map_of d k\<close>; \<open>d[k] = v\<close> overwrites in place or appends
  (\<open>AList.update\<close>); \<open>del d[k]\<close> and \<open>d.pop(k, None)\<close> are \<open>AList.delete\<close>.
\<close>

abbreviation dkeys :: "('k \<times> 'v) list \<Rightarrow> 'k list" where
  "dkeys d \<equiv> map fst d"

definition dict_ok :: "('k \<times> 'v) list \<Rightarrow> bool" where
  "dict_ok d \<longleftrightarrow> distinct (dkeys d)"

lemma dict_ok_Nil [simp]: "dict_ok []"
  by (simp add: dict_ok_def)

lemma dict_ok_update [simp, inv_intros]: "dict_ok d \<Longrightarrow> dict_ok (AList.update k v d)"
  by (simp add: dict_ok_def AList.distinct_update)

lemma dict_ok_delete [simp, inv_intros]: "dict_ok d \<Longrightarrow> dict_ok (AList.delete k d)"
  by (simp add: dict_ok_def AList.distinct_delete)

lemma dict_ok_filter [inv_intros]: "dict_ok d \<Longrightarrow> dict_ok (filter P d)"
  by (simp add: dict_ok_def distinct_map_filter)

lemma dict_get_update: "map_of (AList.update k v d) k' = (if k' = k then Some v else map_of d k')"
  by (simp add: AList.update_conv')

lemma dict_get_delete: "map_of (AList.delete k d) k' = (if k' = k then None else map_of d k')"
  by (simp add: AList.delete_conv')

lemma dkeys_update:
  "dkeys (AList.update k v d) = (if k \<in> set (dkeys d) then dkeys d else dkeys d @ [k])"
  by (simp add: AList.update_keys)

lemma dkeys_delete: "dkeys (AList.delete k d) = filter (\<lambda>x. x \<noteq> k) (dkeys d)"
  by (induction d) auto

lemma length_update:
  "length (AList.update k v d) = (if k \<in> set (dkeys d) then length d else Suc (length d))"
proof -
  have "length (AList.update k v d) = length (dkeys (AList.update k v d))" by simp
  also have "\<dots> = (if k \<in> set (dkeys d) then length d else Suc (length d))"
    unfolding dkeys_update by simp
  finally show ?thesis .
qed

lemma length_delete:
  "dict_ok d \<Longrightarrow> length (AList.delete k d) = (if k \<in> set (dkeys d) then length d - 1 else length d)"
proof (induction d)
  case (Cons p d)
  show ?case
  proof (cases "k \<in> set (dkeys d)")
    case True
    then have "0 < length d" by (cases d) auto
    with Cons True show ?thesis by (auto simp: dict_ok_def)
  next
    case False
    with Cons show ?thesis by (auto simp: dict_ok_def)
  qed
qed simp

lemma dict_get_None_iff: "map_of d k = None \<longleftrightarrow> k \<notin> set (dkeys d)"
  by (simp add: map_of_eq_None_iff)

lemma dict_get_in: "dict_ok d \<Longrightarrow> (k, v) \<in> set d \<longleftrightarrow> map_of d k = Some v"
  by (simp add: dict_ok_def)

lemma update_fresh: "k \<notin> set (dkeys d) \<Longrightarrow> AList.update k v d = d @ [(k, v)]"
  by (induction d) auto

lemma set_delete: "set (AList.delete k d) = {p \<in> set d. fst p \<noteq> k}"
  by (induction d) auto

lemmas dict_simps = dict_get_update dict_get_delete dkeys_update dkeys_delete
  length_update length_delete dict_get_None_iff

section \<open>Rounding\<close>

text \<open>Python's \<open>round\<close> is half-to-even; \<open>round(x, n)\<close> rounds to \<open>n\<close> decimals. Times, costs and
  durations are reals: the rounding errors of binary floating point are not modelled.\<close>

definition round_even :: "real \<Rightarrow> int" where
  "round_even x =
     (let n = \<lfloor>x\<rfloor>; d = x - of_int n
      in if d < 1 / 2 then n else if d > 1 / 2 then n + 1 else if even n then n else n + 1)"

definition py_round :: "nat \<Rightarrow> real \<Rightarrow> real" where
  "py_round k x = of_int (round_even (x * 10 ^ k)) / 10 ^ k"

lemma round_even_bounds: "\<bar>of_int (round_even x) - x\<bar> \<le> 1 / 2"
  unfolding round_even_def Let_def
  using of_int_floor_le [of x] floor_correct [of x] by (auto simp: abs_le_iff)

lemma round_even_nonneg: "0 \<le> x \<Longrightarrow> 0 \<le> round_even x"
  unfolding round_even_def Let_def by (auto simp: zero_le_floor)

lemma round_even_le_iff_zero: "0 \<le> x \<Longrightarrow> round_even x \<le> 0 \<longleftrightarrow> x \<le> 1 / 2"
proof -
  assume x: "0 \<le> x"
  show ?thesis
  proof (cases "x < 1")
    case True
    with x have "\<lfloor>x\<rfloor> = 0" by (simp add: floor_eq_iff)
    then show ?thesis by (simp add: round_even_def Let_def)
  next
    case False
    then have "1 \<le> \<lfloor>x\<rfloor>" by (simp add: le_floor_iff)
    moreover have "\<lfloor>x\<rfloor> \<le> round_even x" by (simp add: round_even_def Let_def)
    ultimately show ?thesis using False by linarith
  qed
qed

lemma py_round_bounds: "\<bar>py_round k x - x\<bar> \<le> 1 / (2 * 10 ^ k)"
proof -
  have "\<bar>of_int (round_even (x * 10 ^ k)) - x * 10 ^ k\<bar> \<le> 1 / 2"
    by (rule round_even_bounds)
  moreover have "of_int (round_even (x * 10 ^ k)) - x * 10 ^ k = (py_round k x - x) * 10 ^ k"
    by (simp add: py_round_def field_simps)
  ultimately have "\<bar>py_round k x - x\<bar> * 10 ^ k \<le> 1 / 2"
    by (simp add: abs_mult)
  then show ?thesis by (simp add: field_simps)
qed

text \<open>\<open>f"{x:.kf}"\<close> for positive \<open>k\<close>.\<close>

definition pad_zeros :: "nat \<Rightarrow> pystr \<Rightarrow> pystr" where
  "pad_zeros k s = replicate (k - length s) 48 @ s"

definition py_fixed :: "nat \<Rightarrow> real \<Rightarrow> pystr" where
  "py_fixed k x =
     (let n = nat \<bar>round_even (x * 10 ^ k)\<bar>
      in (if x < 0 then u ''-'' else []) @ digits (n div 10 ^ k) @ u ''.'' @ pad_zeros k (digits (n mod 10 ^ k)))"

section \<open>State machines with an invariant\<close>

text \<open>
  The contract between a stateful component and whoever drives it: every operation keeps the
  invariant. What the clients use is proved once: any sequence of operations keeps it.
\<close>

locale step_machine =
  fixes step :: "'s \<Rightarrow> 'e \<Rightarrow> 's" and inv :: "'s \<Rightarrow> bool"
  assumes step_inv: "inv s \<Longrightarrow> inv (step s e)"
begin

lemma run_inv: "inv s \<Longrightarrow> inv (foldl step s es)"
  by (induction es arbitrary: s) (auto intro: step_inv)

lemma run_prefix_inv: "inv s \<Longrightarrow> prefix es' es \<Longrightarrow> inv (foldl step s es')"
  by (rule run_inv)

end

text \<open>A machine that also bounds a size: the contract of the capacity-limited stores.\<close>

locale bounded_machine = step_machine +
  fixes size_of :: "'s \<Rightarrow> nat" and limit :: "'s \<Rightarrow> nat"
  assumes inv_bound: "inv s \<Longrightarrow> size_of s \<le> limit s"
    and limit_const: "limit (step s e) = limit s"
begin

lemma run_limit: "limit (foldl step s es) = limit s"
  by (induction es arbitrary: s) (auto simp: limit_const)

lemma run_bound: "inv s \<Longrightarrow> size_of (foldl step s es) \<le> limit s"
  using inv_bound [OF run_inv] by (simp add: run_limit)

end

end
