(* ===== verification/Errors.thy ===== *)
theory Errors
  imports Prelude
begin

text \<open>
  The exception model (\<open>exceptions.py\<close>): every class of the framework with its bases, the builtin
  classes it hangs on, and \<open>except C\<close> as a subclass_of test. A raised exception is a class and the
  text \<open>str(exc)\<close> gives; operations that can raise return \<open>exn + 'a\<close>, with \<open>Inl\<close> for the raise.
\<close>

datatype exc_class =
    CBaseException | CException | CValueError | CRuntimeError | CKeyError | COSError
  | CTimeoutError | CTypeError | CIndexError | CZeroDivisionError | CAttributeError | CSystemExit | CKeyboardInterrupt
  | CCancelledError
  | CDSMAError | CStrategyError | CAgentError | CAgentNotFound | CProviderError | CPlanError
  | CPlanValidationError | CTaskError | CBudgetExceeded | CRunTimeout | CPoolSaturated
  | CSessionNotFound

text \<open>The base classes each class statement names.\<close>

fun bases :: "exc_class \<Rightarrow> exc_class list" where
  "bases CBaseException = []"
| "bases CException = [CBaseException]"
| "bases CValueError = [CException]"
| "bases CRuntimeError = [CException]"
| "bases CKeyError = [CException]"
| "bases COSError = [CException]"
| "bases CTimeoutError = [COSError]"
| "bases CTypeError = [CException]"
| "bases CIndexError = [CException]"
| "bases CZeroDivisionError = [CException]"
| "bases CAttributeError = [CException]"
| "bases CSystemExit = [CBaseException]"
| "bases CKeyboardInterrupt = [CBaseException]"
| "bases CCancelledError = [CBaseException]"
| "bases CDSMAError = [CException]"
| "bases CStrategyError = [CDSMAError, CValueError]"
| "bases CAgentError = [CDSMAError, CRuntimeError]"
| "bases CAgentNotFound = [CDSMAError, CValueError]"
| "bases CProviderError = [CDSMAError, CRuntimeError]"
| "bases CPlanError = [CDSMAError, CValueError]"
| "bases CPlanValidationError = [CPlanError]"
| "bases CTaskError = [CDSMAError, CRuntimeError]"
| "bases CBudgetExceeded = [CDSMAError, CRuntimeError]"
| "bases CRunTimeout = [CDSMAError, CTimeoutError]"
| "bases CPoolSaturated = [CDSMAError, CRuntimeError]"
| "bases CSessionNotFound = [CDSMAError, CKeyError]"

fun class_rank :: "exc_class \<Rightarrow> nat" where
  "class_rank CBaseException = 0"
| "class_rank CException = 1"
| "class_rank CTimeoutError = 3"
| "class_rank CPlanError = 4"
| "class_rank CPlanValidationError = 5"
| "class_rank CDSMAError = 2"
| "class_rank c = (if CDSMAError \<in> set (bases c) then 4 else 2)"

lemma class_rank_bases: "d \<in> set (bases c) \<Longrightarrow> class_rank d < class_rank c"
  by (cases c) auto

function ancestors :: "exc_class \<Rightarrow> exc_class list" where
  "ancestors c = c # concat (map ancestors (bases c))"
  by pat_completeness auto
termination
  by (relation "measure class_rank") (auto dest: class_rank_bases)

declare ancestors.simps [simp del]

definition subclass_of :: "exc_class \<Rightarrow> exc_class \<Rightarrow> bool" where
  "subclass_of c d \<longleftrightarrow> d \<in> set (ancestors c)"

datatype exn = Exn (exc_of: exc_class) (exc_msg: pystr)

text \<open>\<open>except d:\<close> catches \<open>e\<close>.\<close>

definition catches :: "exc_class \<Rightarrow> exn \<Rightarrow> bool" where
  "catches d e \<longleftrightarrow> subclass_of (exc_of e) d"

lemma subclass_refl [simp]: "subclass_of c c"
  unfolding subclass_of_def by (subst ancestors.simps) simp

lemma subclass_eval [code]: "subclass_of c d \<longleftrightarrow> c = d \<or> list_ex (\<lambda>b. subclass_of b d) (bases c)"
  unfolding subclass_of_def list_ex_iff by (subst ancestors.simps) auto

lemma catches_Exn: "catches d (Exn c m) \<longleftrightarrow> subclass_of c d"
  by (simp add: catches_def)

lemma framework_exceptions_except_cancel:
  "subclass_of c CException \<longleftrightarrow>
     c \<notin> {CBaseException, CSystemExit, CKeyboardInterrupt, CCancelledError}"
  by (cases c) (simp_all add: subclass_of_def ancestors.simps)

lemma dsma_subclass:
  "subclass_of c CDSMAError \<longleftrightarrow>
     c \<in> {CDSMAError, CStrategyError, CAgentError, CAgentNotFound, CProviderError, CPlanError,
          CPlanValidationError, CTaskError, CBudgetExceeded, CRunTimeout, CPoolSaturated,
          CSessionNotFound}"
  by (cases c) (simp_all add: subclass_of_def ancestors.simps)

lemma budget_exceeded_subclass: "subclass_of c CBudgetExceeded \<longleftrightarrow> c = CBudgetExceeded"
  by (cases c) (simp_all add: subclass_of_def ancestors.simps)

lemma cancelled_subclass: "subclass_of c CCancelledError \<longleftrightarrow> c = CCancelledError"
  by (cases c) (simp_all add: subclass_of_def ancestors.simps)

lemma pool_saturated_subclass: "subclass_of c CPoolSaturated \<longleftrightarrow> c = CPoolSaturated"
  by (cases c) (simp_all add: subclass_of_def ancestors.simps)

lemma run_timeout_subclass: "subclass_of c CRunTimeout \<longleftrightarrow> c = CRunTimeout"
  by (cases c) (simp_all add: subclass_of_def ancestors.simps)

lemma task_error_subclass: "subclass_of c CTaskError \<longleftrightarrow> c = CTaskError"
  by (cases c) (simp_all add: subclass_of_def ancestors.simps)

lemma plan_validation_subclass: "subclass_of c CPlanValidationError \<longleftrightarrow> c = CPlanValidationError"
  by (cases c) (simp_all add: subclass_of_def ancestors.simps)

lemma plan_error_subclass: "subclass_of c CPlanError \<longleftrightarrow> c = CPlanError \<or> c = CPlanValidationError"
  by (cases c) (simp_all add: subclass_of_def ancestors.simps)

lemma value_error_subclass:
  "subclass_of c CValueError \<longleftrightarrow>
     c \<in> {CValueError, CStrategyError, CAgentNotFound, CPlanError, CPlanValidationError}"
  by (cases c) (simp_all add: subclass_of_def ancestors.simps)

lemmas subclass_iffs = framework_exceptions_except_cancel budget_exceeded_subclass
  cancelled_subclass pool_saturated_subclass run_timeout_subclass task_error_subclass
  plan_validation_subclass plan_error_subclass value_error_subclass

end
