(* ===== verification/Executor.thy ===== *)
theory Executor
  imports Errors
begin

text \<open>
  \<open>runtime/executor.py\<close>: the shared worker pool behind a counting gate. A job is a number; the pool
  keeps the queue of the \<open>ThreadPoolExecutor\<close>, the jobs its workers run and the permits of the
  bounded semaphore. A worker that takes a job, a job that ends (\<open>_run\<close>'s \<open>finally\<close>), a future that
  is cancelled (the done callback) and a shutdown are the events; \<open>slot_step\<close> is one of them.
\<close>

section \<open>Settings\<close>

definition DEFAULT_MAX_WORKERS :: int where
  "DEFAULT_MAX_WORKERS = 16"

definition DEFAULT_SLOT_TIMEOUT :: real where
  "DEFAULT_SLOT_TIMEOUT = 1"

text \<open>\<open>raw\<close> is the environment variable, if set.\<close>

definition max_workers :: "pystr option \<Rightarrow> int" where
  "max_workers raw =
     (case raw of
        None \<Rightarrow> DEFAULT_MAX_WORKERS
      | Some s \<Rightarrow> (case parse_int s of None \<Rightarrow> DEFAULT_MAX_WORKERS | Some v \<Rightarrow> max 1 v))"

text \<open>The argument is the environment variable, if set, with the outcome of \<open>float(raw)\<close>.\<close>

definition slot_timeout :: "real option option \<Rightarrow> real" where
  "slot_timeout raw =
     (case raw of
        None \<Rightarrow> DEFAULT_SLOT_TIMEOUT
      | Some None \<Rightarrow> DEFAULT_SLOT_TIMEOUT
      | Some (Some v) \<Rightarrow> max 0 v)"

section \<open>The gate and the pool\<close>

record pool =
  pl_workers :: nat
  pl_free :: nat
  pl_queue :: "nat list"
  pl_running :: "nat list"
  pl_closed :: bool

definition new_pool :: "nat \<Rightarrow> pool" where
  "new_pool n = \<lparr>pl_workers = n, pl_free = n, pl_queue = [], pl_running = [], pl_closed = False\<rparr>"

text \<open>\<open>BoundedSemaphore.release\<close>: one permit more than it started with is a \<open>ValueError\<close>.\<close>

definition release_slot :: "pool \<Rightarrow> exn + pool" where
  "release_slot p =
     (if pl_workers p \<le> pl_free p then Inl (Exn CValueError (u ''Semaphore released too many times''))
      else Inr (p\<lparr>pl_free := Suc (pl_free p)\<rparr>))"

text \<open>\<open>submit\<close>, at the end of the wait for a slot: no permit, or one that a job takes; a pool that
  was shut down refuses the job and the permit is handed back.\<close>

definition submit :: "real \<Rightarrow> nat \<Rightarrow> pool \<Rightarrow> (exn + nat) \<times> pool" where
  "submit timeout j p =
     (if pl_free p = 0
      then (Inl (Exn CPoolSaturated
              (u ''shared worker pool is saturated (no free slot within '' @ py_fixed 2 timeout @ u ''s)'')), p)
      else
        (let p1 = p\<lparr>pl_free := pl_free p - 1\<rparr>
         in if pl_closed p1
            then (case release_slot p1 of
                    Inl e \<Rightarrow> (Inl e, p1)
                  | Inr p2 \<Rightarrow> (Inl (Exn CRuntimeError (u ''cannot schedule new futures after shutdown'')), p2))
            else (Inr j, p1\<lparr>pl_queue := pl_queue p1 @ [j]\<rparr>)))"

text \<open>A worker takes the first queued job; a running job ends; \<open>future.cancel()\<close> takes effect on
  a queued job only.\<close>

definition start_job :: "pool \<Rightarrow> pool" where
  "start_job p =
     (case pl_queue p of
        [] \<Rightarrow> p
      | j # js \<Rightarrow>
          if length (pl_running p) < pl_workers p
          then p\<lparr>pl_queue := js, pl_running := j # pl_running p\<rparr> else p)"

definition finish_job :: "nat \<Rightarrow> pool \<Rightarrow> exn + pool" where
  "finish_job j p =
     (if j \<in> set (pl_running p) then release_slot (p\<lparr>pl_running := remove1 j (pl_running p)\<rparr>) else Inr p)"

definition cancel_job :: "nat \<Rightarrow> pool \<Rightarrow> exn + pool" where
  "cancel_job j p =
     (if j \<in> set (pl_queue p) then release_slot (p\<lparr>pl_queue := remove1 j (pl_queue p)\<rparr>) else Inr p)"

fun cancel_jobs :: "nat list \<Rightarrow> pool \<Rightarrow> exn + pool" where
  "cancel_jobs [] p = Inr p"
| "cancel_jobs (j # js) p = (case cancel_job j p of Inl e \<Rightarrow> Inl e | Inr p' \<Rightarrow> cancel_jobs js p')"

definition shutdown :: "bool \<Rightarrow> pool \<Rightarrow> exn + pool" where
  "shutdown cancel_futures p =
     (let p1 = p\<lparr>pl_closed := True\<rparr>
      in if cancel_futures then cancel_jobs (pl_queue p1) p1 else Inr p1)"

definition shared_executor :: "pystr option \<Rightarrow> pool option \<Rightarrow> pool \<times> pool option" where
  "shared_executor raw g =
     (case g of
        None \<Rightarrow> (let p = new_pool (nat (max_workers raw)) in (p, Some p))
      | Some p \<Rightarrow> (p, Some p))"

definition shutdown_executor :: "pool option \<Rightarrow> exn + pool option" where
  "shutdown_executor g =
     (case g of
        None \<Rightarrow> Inr None
      | Some p \<Rightarrow> (case shutdown True p of Inl e \<Rightarrow> Inl e | Inr _ \<Rightarrow> Inr None))"

datatype slot_event = Submit real nat | Start | Finish nat | Cancel nat | Shutdown bool

definition kept :: "pool \<Rightarrow> exn + pool \<Rightarrow> pool" where
  "kept p r = (case r of Inl e \<Rightarrow> p | Inr p' \<Rightarrow> p')"

definition slot_step :: "pool \<Rightarrow> slot_event \<Rightarrow> pool" where
  "slot_step p e =
     (case e of
        Submit t j \<Rightarrow> snd (submit t j p)
      | Start \<Rightarrow> start_job p
      | Finish j \<Rightarrow> kept p (finish_job j p)
      | Cancel j \<Rightarrow> kept p (cancel_job j p)
      | Shutdown cf \<Rightarrow> kept p (shutdown cf p))"

section \<open>Conservation of slots\<close>

definition slots_ok :: "pool \<Rightarrow> bool" where
  "slots_ok p \<longleftrightarrow> pl_free p + length (pl_queue p) + length (pl_running p) = pl_workers p"

lemma Suc_length_remove1: "x \<in> set xs \<Longrightarrow> Suc (length (remove1 x xs)) = length xs"
  by (induction xs) auto

lemma finish_job_ok: "slots_ok p \<Longrightarrow> \<exists>p'. finish_job j p = Inr p' \<and> slots_ok p'"
  using Suc_length_remove1 [of j "pl_running p"]
  by (auto simp: finish_job_def release_slot_def slots_ok_def)

lemma cancel_job_ok: "slots_ok p \<Longrightarrow> \<exists>p'. cancel_job j p = Inr p' \<and> slots_ok p'"
  using Suc_length_remove1 [of j "pl_queue p"]
  by (auto simp: cancel_job_def release_slot_def slots_ok_def)

lemma cancel_jobs_ok: "slots_ok p \<Longrightarrow> \<exists>p'. cancel_jobs js p = Inr p' \<and> slots_ok p'"
proof (induction js arbitrary: p)
  case (Cons j js)
  from cancel_job_ok [OF Cons.prems] obtain p1 where "cancel_job j p = Inr p1" "slots_ok p1" by blast
  with Cons.IH [of p1] show ?case by auto
qed simp

lemma shutdown_ok: "slots_ok p \<Longrightarrow> \<exists>p'. shutdown cf p = Inr p' \<and> slots_ok p'"
  using cancel_jobs_ok [of "p\<lparr>pl_closed := True\<rparr>" "pl_queue p"]
  by (auto simp: shutdown_def Let_def slots_ok_def)

lemma submit_ok: "slots_ok p \<Longrightarrow> slots_ok (snd (submit t j p))"
  by (auto simp: submit_def release_slot_def slots_ok_def Let_def)

lemma start_job_ok: "slots_ok p \<Longrightarrow> slots_ok (start_job p)"
  by (auto simp: start_job_def slots_ok_def split: list.splits)

lemma job_ok:
  "finish_job j p = Inr p' \<Longrightarrow> slots_ok p \<Longrightarrow> slots_ok p'"
  "cancel_job j p = Inr p' \<Longrightarrow> slots_ok p \<Longrightarrow> slots_ok p'"
  "shutdown cf p = Inr p' \<Longrightarrow> slots_ok p \<Longrightarrow> slots_ok p'"
  using finish_job_ok [of p j] cancel_job_ok [of p j] shutdown_ok [of p cf] by auto

lemma slot_step_ok: "slots_ok p \<Longrightarrow> slots_ok (slot_step p e)"
  by (cases e) (auto simp: slot_step_def kept_def submit_ok start_job_ok split: sum.splits dest: job_ok)

lemma release_workers: "release_slot p = Inr p' \<Longrightarrow> pl_workers p' = pl_workers p"
  by (auto simp: release_slot_def split: if_splits)

lemma job_workers:
  "finish_job j p = Inr p' \<Longrightarrow> pl_workers p' = pl_workers p"
  "cancel_job j p = Inr p' \<Longrightarrow> pl_workers p' = pl_workers p"
  by (auto simp: finish_job_def cancel_job_def dest: release_workers split: if_splits)

lemma cancel_jobs_workers: "cancel_jobs js p = Inr p' \<Longrightarrow> pl_workers p' = pl_workers p"
  by (induction js arbitrary: p) (auto split: sum.splits dest: job_workers)

lemma slot_step_workers: "pl_workers (slot_step p e) = pl_workers p"
proof (cases e)
  case (Submit t j)
  then show ?thesis
    by (auto simp: slot_step_def submit_def Let_def split: sum.splits dest: release_workers)
next
  case Start
  then show ?thesis by (auto simp: slot_step_def start_job_def split: list.splits)
qed (auto simp: slot_step_def kept_def shutdown_def Let_def split: sum.splits if_splits
      dest: job_workers cancel_jobs_workers)

lemma slots_ok_new: "slots_ok (new_pool n)"
  by (simp add: slots_ok_def new_pool_def)

definition slots_used :: "pool \<Rightarrow> nat" where
  "slots_used p = length (pl_queue p) + length (pl_running p)"

interpretation gate: bounded_machine slot_step slots_ok slots_used pl_workers
  by unfold_locales (auto simp: slot_step_ok slot_step_workers, auto simp: slots_ok_def slots_used_def)

text \<open>
  C25. The gate bounds the backlog: through any sequence of submissions, starts, ends, cancellations
  and shutdowns, the jobs queued and running never exceed the number of workers and the free permits
  are exactly the rest; so no release ever exceeds the semaphore, whichever way a job ends.
\<close>

theorem pool_slots_conserved:
  assumes "p = foldl slot_step (new_pool n) es"
  shows "pl_free p + slots_used p = n
    \<and> (\<exists>p'. finish_job j p = Inr p') \<and> (\<exists>p'. cancel_job j p = Inr p') \<and> (\<exists>p'. shutdown cf p = Inr p')"
proof -
  have ok: "slots_ok p" unfolding assms by (rule gate.run_inv [OF slots_ok_new])
  have "pl_workers p = n" unfolding assms by (simp add: gate.run_limit) (simp add: new_pool_def)
  then have "pl_free p + slots_used p = n" using ok by (simp add: slots_ok_def slots_used_def)
  with finish_job_ok [OF ok] cancel_job_ok [OF ok] shutdown_ok [OF ok] show ?thesis by blast
qed

theorem pool_slots_conserved_witness:
  "pl_free (foldl slot_step (new_pool 2) [Submit 1 7, Submit 1 8, Submit 1 9, Start, Cancel 8, Finish 7])
   + slots_used (foldl slot_step (new_pool 2) [Submit 1 7, Submit 1 8, Submit 1 9, Start, Cancel 8, Finish 7]) = 2"
  using pool_slots_conserved [OF refl, of 2] by blast

text \<open>
  \<open>submit\<close> admits a job exactly when a slot is free and the pool is open, and an admitted job
  does not wait behind another one: there is an idle worker for every queued job. A refusal leaves
  the pool as it was: \<open>PoolSaturated\<close> without a free slot, \<open>RuntimeError\<close> after a shutdown.
\<close>

theorem submit_admission:
  assumes "slots_ok p"
  shows "case submit timeout j p of
      (Inr k, p') \<Rightarrow> k = j \<and> 0 < pl_free p \<and> \<not> pl_closed p \<and> pl_queue p' = pl_queue p @ [j]
        \<and> length (pl_queue p') + length (pl_running p') \<le> pl_workers p'
    | (Inl e, p') \<Rightarrow> p' = p
        \<and> (if pl_free p = 0 then exc_of e = CPoolSaturated else pl_closed p \<and> exc_of e = CRuntimeError)"
  using assms
  by (auto simp: submit_def release_slot_def slots_ok_def Let_def)

theorem submit_admission_witness:
  "snd (submit 1 5 (new_pool 0)) = new_pool 0"
  using submit_admission [of "new_pool 0" 1 5]
  by (auto simp: slots_ok_new submit_def new_pool_def)

end
