(* ===== verification/Cache.thy ===== *)
theory Cache
  imports Errors
begin

text \<open>
  \<open>cache.py\<close>: the LRU response cache. \<open>ca_data\<close> is the \<open>OrderedDict\<close>, least recently used entry
  first; an entry is a value (what the chat API replied) and its expiry. The clock readings are arguments. \<open>lru_get\<close> and
  \<open>lru_put\<close> are the reference: a list of entries, most recently used first, cut at the capacity.
\<close>

section \<open>Model\<close>

type_synonym entry = "pyval \<times> real option"

record cache =
  ca_maxsize :: nat
  ca_ttl :: "real option"
  ca_data :: "(pystr \<times> entry) list"
  ca_hits :: nat
  ca_misses :: nat
  ca_expired :: nat
  ca_evictions :: nat

definition new_cache :: "int \<Rightarrow> real option \<Rightarrow> exn + cache" where
  "new_cache maxsize ttl =
     (if (case ttl of None \<Rightarrow> False | Some t \<Rightarrow> t \<le> 0)
      then Inl (Exn CValueError (u ''ttl must be positive (or None to disable expiry)''))
      else Inr \<lparr>ca_maxsize = nat (max 1 maxsize), ca_ttl = ttl, ca_data = [], ca_hits = 0,
                ca_misses = 0, ca_expired = 0, ca_evictions = 0\<rparr>)"

definition move_to_end :: "'k \<Rightarrow> ('k \<times> 'v) list \<Rightarrow> ('k \<times> 'v) list" where
  "move_to_end k d = (case map_of d k of None \<Rightarrow> d | Some v \<Rightarrow> AList.delete k d @ [(k, v)])"

definition expired :: "real \<Rightarrow> real option \<Rightarrow> bool" where
  "expired now expires_at \<longleftrightarrow> (case expires_at of None \<Rightarrow> False | Some x \<Rightarrow> x \<le> now)"

definition cache_get :: "real \<Rightarrow> pystr \<Rightarrow> cache \<Rightarrow> pyval option \<times> cache" where
  "cache_get now k c =
     (case map_of (ca_data c) k of
        None \<Rightarrow> (None, c\<lparr>ca_misses := ca_misses c + 1\<rparr>)
      | Some (v, expires_at) \<Rightarrow>
          if expired now expires_at
          then (None, c\<lparr>ca_data := AList.delete k (ca_data c), ca_expired := ca_expired c + 1,
                        ca_misses := ca_misses c + 1\<rparr>)
          else (Some v, c\<lparr>ca_data := move_to_end k (ca_data c), ca_hits := ca_hits c + 1\<rparr>))"

function evict_loop :: "nat \<Rightarrow> ('k \<times> 'v) list \<Rightarrow> nat \<Rightarrow> ('k \<times> 'v) list \<times> nat" where
  "evict_loop maxsize d n =
     (if maxsize < length d then evict_loop maxsize (tl d) (Suc n) else (d, n))"
  by pat_completeness auto
termination by (relation "measure (\<lambda>(m, d, n). length d)") auto

declare evict_loop.simps [simp del]

definition cache_put :: "real \<Rightarrow> pystr \<Rightarrow> pyval \<Rightarrow> cache \<Rightarrow> cache" where
  "cache_put now k v c =
     (let expires_at = map_option (\<lambda>t. now + t) (ca_ttl c);
          d = move_to_end k (AList.update k (v, expires_at) (ca_data c))
      in case evict_loop (ca_maxsize c) d (ca_evictions c) of
           (d', n) \<Rightarrow> c\<lparr>ca_data := d', ca_evictions := n\<rparr>)"

definition cache_clear :: "cache \<Rightarrow> cache" where
  "cache_clear c = c\<lparr>ca_data := []\<rparr>"

definition cache_len :: "cache \<Rightarrow> nat" where
  "cache_len c = length (ca_data c)"

definition cache_stats :: "cache \<Rightarrow> (pystr \<times> field) list" where
  "cache_stats c =
     [(u ''size'', FVal (IntV (int (cache_len c)))), (u ''maxsize'', FVal (IntV (int (ca_maxsize c)))),
      (u ''ttl'', case ca_ttl c of None \<Rightarrow> FVal NoneV | Some t \<Rightarrow> FNum t),
      (u ''hits'', FVal (IntV (int (ca_hits c)))), (u ''misses'', FVal (IntV (int (ca_misses c)))),
      (u ''expired'', FVal (IntV (int (ca_expired c)))),
      (u ''evictions'', FVal (IntV (int (ca_evictions c))))]"

section \<open>The reference\<close>

definition lru_get :: "real \<Rightarrow> pystr \<Rightarrow> (pystr \<times> entry) list \<Rightarrow> pyval option \<times> (pystr \<times> entry) list" where
  "lru_get now k l =
     (case map_of l k of
        None \<Rightarrow> (None, l)
      | Some (v, x) \<Rightarrow>
          if expired now x then (None, filter (\<lambda>p. fst p \<noteq> k) l)
          else (Some v, (k, v, x) # filter (\<lambda>p. fst p \<noteq> k) l))"

definition lru_put ::
    "nat \<Rightarrow> pystr \<Rightarrow> entry \<Rightarrow> (pystr \<times> entry) list \<Rightarrow> (pystr \<times> entry) list" where
  "lru_put n k e l = take n ((k, e) # filter (\<lambda>p. fst p \<noteq> k) l)"

section \<open>Lemmas\<close>

definition cache_ok :: "cache \<Rightarrow> bool" where
  "cache_ok c \<longleftrightarrow> dict_ok (ca_data c) \<and> length (ca_data c) \<le> ca_maxsize c \<and> 0 < ca_maxsize c"

lemma evict_loop_eq: "evict_loop m d n = (drop (length d - m) d, n + (length d - m))"
proof (induction m d n rule: evict_loop.induct)
  case (1 m d n)
  show ?case
  proof (cases "m < length d")
    case True
    then have "Suc (length d - 1 - m) = length d - m" by simp
    then show ?thesis using 1 [OF True] True
      by (subst evict_loop.simps) (simp add: drop_Suc [symmetric])
  qed (subst evict_loop.simps, simp)
qed

lemma delete_filter: "AList.delete k d = filter (\<lambda>p. fst p \<noteq> k) d"
  by (induction d) auto

lemma delete_update: "AList.delete k (AList.update k v d) = AList.delete k d"
  by (induction d) auto

lemma move_update: "move_to_end k (AList.update k v d) = AList.delete k d @ [(k, v)]"
  by (simp add: move_to_end_def dict_get_update delete_update)

lemma dict_ok_snoc_delete: "dict_ok d \<Longrightarrow> dict_ok (AList.delete k d @ [(k, v)])"
  by (auto simp: dict_ok_def dkeys_delete)

lemma dict_ok_move: "dict_ok d \<Longrightarrow> dict_ok (move_to_end k d)"
  by (auto simp: move_to_end_def intro: dict_ok_snoc_delete split: option.splits)

lemma length_move: "dict_ok d \<Longrightarrow> length (move_to_end k d) = length d"
proof (cases "map_of d k")
  case (Some v)
  assume ok: "dict_ok d"
  have "k \<in> set (dkeys d)" using Some by (force dest: map_of_SomeD)
  moreover from this have "0 < length d" by (cases d) auto
  ultimately show ?thesis by (simp add: move_to_end_def Some length_delete [OF ok])
qed (simp add: move_to_end_def)

lemma dict_ok_drop: "dict_ok d \<Longrightarrow> dict_ok (drop n d)"
  by (simp add: dict_ok_def drop_map [symmetric])

lemma put_data:
  "ca_data (cache_put now k v c) =
     (let d = AList.delete k (ca_data c) @ [(k, v, map_option (\<lambda>t. now + t) (ca_ttl c))]
      in drop (length d - ca_maxsize c) d)"
  by (simp add: cache_put_def Let_def evict_loop_eq move_update)

lemma put_const: "ca_maxsize (cache_put now k v c) = ca_maxsize c" "ca_ttl (cache_put now k v c) = ca_ttl c"
  by (simp_all add: cache_put_def Let_def evict_loop_eq)

lemma put_ok: "cache_ok c \<Longrightarrow> cache_ok (cache_put now k v c)"
  by (simp add: cache_ok_def put_const put_data Let_def dict_ok_drop dict_ok_snoc_delete del: drop_append)

lemma get_ok: "cache_ok c \<Longrightarrow> cache_ok (snd (cache_get now k c))"
  by (auto simp: cache_ok_def cache_get_def length_move dict_ok_move split: option.splits if_splits
      intro: order_trans [OF AList.length_delete_le])

lemma new_cache_ok: "new_cache n ttl = Inr c \<Longrightarrow> cache_ok c"
  by (auto simp: new_cache_def cache_ok_def split: if_splits)

text \<open>
  What a client that memoises asks of a store with a time to live: a value put under a key is the answer to that key
  until it expires, whatever was looked up before.
\<close>

locale expiring_store =
  fixes put :: "real \<Rightarrow> 'k \<Rightarrow> 'v \<Rightarrow> 's \<Rightarrow> 's" and get :: "real \<Rightarrow> 'k \<Rightarrow> 's \<Rightarrow> 'v option \<times> 's"
    and ok :: "'s \<Rightarrow> bool" and ttl :: "'s \<Rightarrow> real option"
  assumes get_put: "ok s \<Longrightarrow> (case ttl s of None \<Rightarrow> True | Some x \<Rightarrow> later < now + x) \<Longrightarrow>
      fst (get later k (put now k v s)) = Some v"
    and get_keeps: "ok s \<Longrightarrow> get now k s = (found, s1) \<Longrightarrow> ok s1 \<and> ttl s1 = ttl s"
begin

lemma memoised:
  assumes "ok s" "get t0 k s = (found, s1)" "case ttl s of None \<Rightarrow> True | Some x \<Rightarrow> later < now + x"
  shows "fst (get later k (put now k v s1)) = Some v"
  using get_put [of s1 later now k v] get_keeps [OF assms(1,2)] assms(3) by simp

end

datatype cache_op = Get real pystr | Put real pystr pyval | Clear

definition cache_step :: "cache \<Rightarrow> cache_op \<Rightarrow> cache" where
  "cache_step c e =
     (case e of
        Get now k \<Rightarrow> snd (cache_get now k c)
      | Put now k v \<Rightarrow> cache_put now k v c
      | Clear \<Rightarrow> cache_clear c)"

interpretation lru: bounded_machine cache_step cache_ok cache_len ca_maxsize
proof
  show "cache_ok c \<Longrightarrow> cache_ok (cache_step c e)" for c e
    by (cases e) (simp_all add: cache_step_def put_ok get_ok, simp add: cache_clear_def cache_ok_def)
  show "cache_ok c \<Longrightarrow> cache_len c \<le> ca_maxsize c" for c by (simp add: cache_ok_def cache_len_def)
  show "ca_maxsize (cache_step c e) = ca_maxsize c" for c e
    by (cases e) (auto simp: cache_step_def put_const cache_clear_def cache_get_def split: option.splits)
qed


lemma rev_drop_length: "rev (drop (length d - m) d) = take m (rev d)"
  by (simp only: take_rev)

lemma map_of_rev: "dict_ok d \<Longrightarrow> map_of (rev d) = map_of d"
  by (simp add: dict_ok_def map_of_inject_set rev_map [symmetric])

lemma map_of_split: "dict_ok (xs @ (k, e) # ys) \<Longrightarrow> map_of (xs @ (k, e) # ys) k = Some e"
  using dict_get_in [of "xs @ (k, e) # ys" k e] by simp

section \<open>What a recently used key is guaranteed\<close>

fun op_key :: "cache_op \<Rightarrow> pystr option" where
  "op_key (Get now j) = Some j"
| "op_key (Put now j v) = Some j"
| "op_key Clear = None"

text \<open>An operation that neither replaces the value of \<open>k\<close> nor finds it expired.\<close>

fun keeps :: "pystr \<Rightarrow> real option \<Rightarrow> cache_op \<Rightarrow> bool" where
  "keeps k x (Get now j) = (j = k \<longrightarrow> \<not> expired now x)"
| "keeps k x (Put now j v) = (j \<noteq> k)"
| "keeps k x Clear = False"

definition holds_entry :: "pystr \<Rightarrow> entry \<Rightarrow> pystr set \<Rightarrow> cache \<Rightarrow> bool" where
  "holds_entry k e K c \<longleftrightarrow>
     cache_ok c \<and> (\<exists>xs ys. ca_data c = xs @ (k, e) # ys \<and> fst ` set ys \<subseteq> K)"

lemma holds_get: "holds_entry k (v, x) K c \<Longrightarrow> \<not> expired now x \<Longrightarrow> fst (cache_get now k c) = Some v"
proof -
  assume h: "holds_entry k (v, x) K c" and x: "\<not> expired now x"
  then have "map_of (ca_data c) k = Some (v, x)"
    using map_of_split by (fastforce simp only: holds_entry_def cache_ok_def)
  with x show ?thesis by (simp add: cache_get_def)
qed

lemma delete_split:
  "j \<noteq> k \<Longrightarrow> AList.delete j (xs @ (k, e) # ys) = AList.delete j xs @ (k, e) # AList.delete j ys"
  by (simp add: delete_filter)

lemma holds_put:
  assumes "holds_entry k e K c" "j \<noteq> k" "j \<in> K" "finite K" "card K < ca_maxsize c"
  shows "holds_entry k e K (cache_put now j w c)"
proof -
  from assms(1) obtain xs ys where d: "ca_data c = xs @ (k, e) # ys" "fst ` set ys \<subseteq> K"
    and ok: "cache_ok c" by (auto simp: holds_entry_def)
  let ?xs = "AList.delete j xs"
    and ?ys = "AList.delete j ys @ [(j, w, map_option (\<lambda>t. now + t) (ca_ttl c))]"
  let ?d = "?xs @ (k, e) # ?ys"
  have data: "ca_data (cache_put now j w c) = drop (length ?d - ca_maxsize c) ?d"
    by (simp add: put_data Let_def d(1) delete_split [OF assms(2)])
  have sub: "fst ` set ?ys \<subseteq> K" using d(2) assms(3) by (auto simp: set_delete)
  have "distinct (dkeys ?ys)"
    using ok by (auto simp: cache_ok_def dict_ok_def d(1) dkeys_delete)
  then have "length ?ys = card (fst ` set ?ys)" by (metis distinct_card length_map list.set_map)
  also have "\<dots> \<le> card K" by (rule card_mono [OF assms(4) sub])
  finally have "length ?d - ca_maxsize c \<le> length ?xs" using assms(5) by simp
  then have "ca_data (cache_put now j w c) = drop (length ?d - ca_maxsize c) ?xs @ (k, e) # ?ys"
    unfolding data by simp
  with put_ok [OF ok] sub show ?thesis unfolding holds_entry_def by blast
qed

lemma holds_step:
  assumes "holds_entry k (v, x) K c" "keeps k x e" "\<forall>j. op_key e = Some j \<longrightarrow> j \<noteq> k \<longrightarrow> j \<in> K"
    "finite K" "card K < ca_maxsize c"
  shows "holds_entry k (v, x) K (cache_step c e)"
proof (cases e)
  case (Put now j w)
  with assms show ?thesis by (simp add: cache_step_def holds_put)
next
  case (Get now j)
  from assms(1) obtain xs ys where d: "ca_data c = xs @ (k, v, x) # ys" "fst ` set ys \<subseteq> K"
    and ok: "cache_ok c" by (auto simp: holds_entry_def)
  have ok': "cache_ok (cache_step c e)" using Get get_ok [OF ok] by (simp add: cache_step_def)
  show ?thesis
  proof (cases "j = k")
    case True
    have "map_of (ca_data c) k = Some (v, x)"
      using map_of_split [of xs k "(v, x)" ys] ok by (simp only: d(1) cache_ok_def)
    then have "ca_data (cache_step c e) = AList.delete k (ca_data c) @ [(k, v, x)]"
      using Get True assms(2) by (simp add: cache_step_def cache_get_def move_to_end_def)
    with ok' show ?thesis unfolding holds_entry_def by (intro conjI exI [of _ "[]"] exI) auto
  next
    case False
    then have j: "j \<in> K" using assms(3) Get by simp
    let ?dd = "AList.delete j xs @ (k, v, x) # AList.delete j ys"
    have del: "AList.delete j (ca_data c) = ?dd" using delete_split [OF False] by (simp add: d(1))
    have "ca_data (cache_step c e) \<in> {ca_data c, ?dd} \<union> range (\<lambda>w. ?dd @ [(j, w)])"
    proof (cases "map_of (ca_data c) j")
      case (Some p)
      then show ?thesis
        by (cases p; cases "expired now (snd p)")
          (simp_all add: Get cache_step_def cache_get_def move_to_end_def del)
    qed (simp add: Get cache_step_def cache_get_def)
    then have "\<exists>xs' ys'. ca_data (cache_step c e) = xs' @ (k, v, x) # ys'
        \<and> set ys' \<subseteq> set ys \<union> {p. fst p = j}"
    proof (elim UnE)
      assume "ca_data (cache_step c e) \<in> {ca_data c, ?dd}"
      then show ?thesis
        by (elim insertE; (simp add: d(1))?) (blast, fastforce simp: set_delete)
    next
      assume "ca_data (cache_step c e) \<in> range (\<lambda>w. ?dd @ [(j, w)])"
      then obtain w where "ca_data (cache_step c e) = AList.delete j xs @ (k, v, x) # AList.delete j ys @ [(j, w)]"
        by auto
      then show ?thesis by (fastforce simp: set_delete)
    qed
    with ok' d(2) j show ?thesis unfolding holds_entry_def by fast
  qed
next
  case Clear
  with assms(2) show ?thesis by simp
qed

lemma holds_run:
  assumes "holds_entry k (v, x) K c" "list_all (keeps k x) es"
    "\<forall>e \<in> set es. \<forall>j. op_key e = Some j \<longrightarrow> j \<noteq> k \<longrightarrow> j \<in> K" "finite K" "card K < ca_maxsize c"
  shows "holds_entry k (v, x) K (foldl cache_step c es)"
  using assms
proof (induction es arbitrary: c)
  case (Cons e es)
  have "holds_entry k (v, x) K (cache_step c e)" using Cons.prems by (intro holds_step) auto
  moreover have "ca_maxsize (cache_step c e) = ca_maxsize c" by (rule lru.limit_const)
  ultimately show ?case using Cons by simp
qed simp

definition other_keys :: "pystr \<Rightarrow> cache_op list \<Rightarrow> pystr list" where
  "other_keys k es = remdups (filter (\<lambda>j. j \<noteq> k) (concat (map (\<lambda>e. case op_key e of None \<Rightarrow> [] | Some j \<Rightarrow> [j]) es)))"

lemma holds_after_put:
  assumes "cache_ok c"
  shows "holds_entry k (v, map_option (\<lambda>t. now + t) (ca_ttl c)) K (cache_put now k v c)"
proof -
  let ?d = "AList.delete k (ca_data c)" and ?e = "(k, v, map_option (\<lambda>t. now + t) (ca_ttl c))"
  have "length (?d @ [?e]) - ca_maxsize c \<le> length ?d" using assms by (auto simp: cache_ok_def)
  then have "ca_data (cache_put now k v c) = drop (length (?d @ [?e]) - ca_maxsize c) ?d @ [?e]"
    by (simp add: put_data Let_def)
  with put_ok [OF assms] show ?thesis unfolding holds_entry_def by force
qed

interpretation replies: expiring_store cache_put cache_get cache_ok ca_ttl
proof
  fix s :: cache and later now k v
  assume "cache_ok s" "case ca_ttl s of None \<Rightarrow> True | Some x \<Rightarrow> later < now + x"
  then show "fst (cache_get later k (cache_put now k v s)) = Some v"
    by (intro holds_get [OF holds_after_put]) (auto simp: expired_def split: option.splits)
next
  fix s s1 :: cache and now k found
  assume "cache_ok s" "cache_get now k s = (found, s1)"
  then show "cache_ok s1 \<and> ca_ttl s1 = ca_ttl s"
    using get_ok [of s now k] by (auto simp: cache_get_def split: option.splits if_splits prod.splits)
qed

section \<open>Properties\<close>

text \<open>
  C15. The cache is an LRU cache: its entries, most recently used first, evolve as those of the
  reference, a list cut at \<open>maxsize\<close> where a hit and a \<open>put\<close> move the key to the front and an expired
  entry is dropped, and a \<open>get\<close> returns what the reference returns.
\<close>

theorem cache_refines_lru:
  assumes "cache_ok c"
  shows "rev (ca_data (cache_put now k v c))
       = lru_put (ca_maxsize c) k (v, map_option (\<lambda>t. now + t) (ca_ttl c)) (rev (ca_data c))
    \<and> map_prod id (\<lambda>c'. rev (ca_data c')) (cache_get now k c) = lru_get now k (rev (ca_data c))"
proof
  show "rev (ca_data (cache_put now k v c))
       = lru_put (ca_maxsize c) k (v, map_option (\<lambda>t. now + t) (ca_ttl c)) (rev (ca_data c))"
    unfolding put_data Let_def rev_drop_length lru_put_def by (simp add: delete_filter rev_filter)
  have "dict_ok (ca_data c)" using assms by (simp add: cache_ok_def)
  then show "map_prod id (\<lambda>c'. rev (ca_data c')) (cache_get now k c) = lru_get now k (rev (ca_data c))"
    by (auto simp: cache_get_def lru_get_def map_of_rev move_to_end_def delete_filter rev_filter
        split: option.splits)
qed

theorem cache_refines_lru_witness:
  "rev (ca_data (cache_put 5 [1] (IntV 2) \<lparr>ca_maxsize = 1, ca_ttl = None, ca_data = [([3], IntV 4, None)],
      ca_hits = 0, ca_misses = 0, ca_expired = 0, ca_evictions = 0\<rparr>)) = lru_put 1 [1] (IntV 2, None) [([3], IntV 4, None)]"
  using cache_refines_lru [of "\<lparr>ca_maxsize = 1, ca_ttl = None, ca_data = [([3], IntV 4, None)],
      ca_hits = 0, ca_misses = 0, ca_expired = 0, ca_evictions = 0\<rparr>" 5 "[1]" "IntV 2"]
  by (simp add: cache_ok_def dict_ok_def)

text \<open>
  A value that was put is found again as long as it has not expired and fewer than \<open>maxsize\<close>
  other keys were used since, whatever the other operations were: LRU eviction never drops a recently
  used entry for an older one.
\<close>

theorem cache_retains:
  assumes "cache_ok c" "list_all (keeps k (map_option (\<lambda>t. now + t) (ca_ttl c))) es"
    "length (other_keys k es) < ca_maxsize c"
    "\<not> expired later (map_option (\<lambda>t. now + t) (ca_ttl c))"
  shows "fst (cache_get later k (foldl cache_step (cache_put now k v c) es)) = Some v"
proof (rule holds_get [OF holds_run assms(4)])
  let ?K = "set (other_keys k es)"
  show "holds_entry k (v, map_option (\<lambda>t. now + t) (ca_ttl c)) ?K (cache_put now k v c)"
    by (rule holds_after_put [OF assms(1)])
  show "list_all (keeps k (map_option (\<lambda>t. now + t) (ca_ttl c))) es" by (rule assms(2))
  show "\<forall>e \<in> set es. \<forall>j. op_key e = Some j \<longrightarrow> j \<noteq> k \<longrightarrow> j \<in> ?K"
    by (force simp: other_keys_def)
  show "card ?K < ca_maxsize (cache_put now k v c)"
    using assms(3) distinct_card [of "other_keys k es"] by (simp add: put_const) (simp add: other_keys_def)
qed simp

definition small_cache :: cache where
  "small_cache = \<lparr>ca_maxsize = 2, ca_ttl = Some 10, ca_data = [], ca_hits = 0, ca_misses = 0,
     ca_expired = 0, ca_evictions = 0\<rparr>"

theorem cache_retains_witness:
  "fst (cache_get 9 [1] (foldl cache_step (cache_put 0 [1] (IntV 7) small_cache) [Put 1 [2] (IntV 8), Get 2 [2]])) = Some (IntV 7)"
  by (rule cache_retains) (simp_all add: small_cache_def cache_ok_def other_keys_def expired_def)

text \<open>
  The cache never holds more than \<open>maxsize\<close> entries nor two for one key, and never answers with
  an expired value: what \<open>get\<close> returns is the stored value of that key, whose expiry lies in the
  future.
\<close>

theorem cache_bounded_and_fresh:
  assumes "new_cache n ttl = Inr c0"
  shows "case foldl cache_step c0 es of c \<Rightarrow>
    cache_len c \<le> nat (max 1 n) \<and> distinct (dkeys (ca_data c))
    \<and> (case fst (cache_get now k c) of
          None \<Rightarrow> True
        | Some v \<Rightarrow> \<exists>x. map_of (ca_data c) k = Some (v, x) \<and> \<not> expired now x)"
proof -
  let ?c = "foldl cache_step c0 es"
  have ok: "cache_ok ?c" by (rule lru.run_inv [OF new_cache_ok [OF assms]])
  have "ca_maxsize c0 = nat (max 1 n)" using assms by (auto simp: new_cache_def split: if_splits)
  then have "cache_len ?c \<le> nat (max 1 n)" using lru.run_bound [OF new_cache_ok [OF assms], of es] by simp
  with ok show ?thesis
    by (auto simp: cache_ok_def dict_ok_def cache_get_def split: option.splits)
qed

theorem cache_bounded_and_fresh_witness:
  "cache_len (foldl cache_step (small_cache\<lparr>ca_maxsize := 1\<rparr>) [Put 0 [1] (IntV 2), Put 0 [2] (IntV 3)]) \<le> 1"
  using cache_bounded_and_fresh [of 0 "Some 10" "small_cache\<lparr>ca_maxsize := 1\<rparr>" "[Put 0 [1] (IntV 2), Put 0 [2] (IntV 3)]"]
  by (simp add: new_cache_def small_cache_def)

end
