(* ===== verification/Context.thy ===== *)
theory Context
  imports Errors
begin

text \<open>
  \<open>context.py\<close>: the context policy (history window, per-message truncation, hiding a speaker's own
  statements), the projection of a prompt and a history into chat messages, and the cooperative
  cancellation tokens with their parent chain.
\<close>

section \<open>Messages and policies\<close>

record message =
  m_role :: pystr
  m_content :: pyval
  m_agent :: "pystr option"
  m_meta :: "(pystr \<times> pyval) list"

record chat =
  c_role :: pystr
  c_content :: pystr

record policy =
  p_window :: "int option"
  p_max_chars :: "int option"
  p_hide_own :: bool

definition ELLIPSIS :: pystr where
  "ELLIPSIS = [8230]"

text \<open>\<open>int(v)\<close> on a value.\<close>

fun py_int :: "pyval \<Rightarrow> exn + int" where
  "py_int (IntV i) = Inr i"
| "py_int (BoolV b) = Inr (of_bool b)"
| "py_int (StrV s) =
     (case parse_int s of
        Some i \<Rightarrow> Inr i
      | None \<Rightarrow> Inl (Exn CValueError (u ''invalid literal for int() with base 10: '' @ py_repr_str s)))"
| "py_int _ = Inl (Exn CTypeError (u ''int() argument must be a string or a number''))"

text \<open>\<open>int(v) if v is not None else None\<close>.\<close>

definition opt_int :: "pyval option \<Rightarrow> exn + int option" where
  "opt_int v =
     (case v of
        None \<Rightarrow> Inr None
      | Some NoneV \<Rightarrow> Inr None
      | Some w \<Rightarrow> (case py_int w of Inl e \<Rightarrow> Inl e | Inr i \<Rightarrow> Inr (Some i)))"

definition from_dict :: "(pystr \<times> pyval) list option \<Rightarrow> exn + policy option" where
  "from_dict data =
     (case data of
        None \<Rightarrow> Inr None
      | Some d \<Rightarrow>
          if d = [] then Inr None
          else
            (let hide = (case map_of d (u ''hide_own'') of
                           Some h \<Rightarrow> h
                         | None \<Rightarrow> (case map_of d (u ''hide_own_statements'') of
                                     Some h \<Rightarrow> h | None \<Rightarrow> BoolV False))
             in case opt_int (map_of d (u ''window'')) of
                  Inl e \<Rightarrow> Inl e
                | Inr w \<Rightarrow>
                    (case opt_int (map_of d (u ''max_chars'')) of
                       Inl e \<Rightarrow> Inl e
                     | Inr m \<Rightarrow> Inr (Some \<lparr>p_window = w, p_max_chars = m, p_hide_own = truthy hide\<rparr>))))"

definition truncate_text :: "pystr \<Rightarrow> int option \<Rightarrow> pystr" where
  "truncate_text text max_chars =
     (case max_chars of
        None \<Rightarrow> text
      | Some n \<Rightarrow>
          (let limit = nat (max 0 n)
           in if length text \<le> limit then text else take limit text @ ELLIPSIS))"

section \<open>Projection into chat messages\<close>

definition chat_roles :: "pystr list" where
  "chat_roles = [u ''user'', u ''assistant'', u ''system'']"

text \<open>\<open>if role == "assistant" and msg.get("agent")\<close>: the speaker prefix.\<close>

definition speaker_prefix :: "message \<Rightarrow> pystr \<Rightarrow> pystr" where
  "speaker_prefix m content =
     (case m_agent m of
        None \<Rightarrow> content
      | Some a \<Rightarrow>
          if m_role m = u ''assistant'' \<and> a \<noteq> [] then u ''['' @ a @ u '']: '' @ content else content)"

definition project_message :: "message \<Rightarrow> chat" where
  "project_message m = \<lparr>c_role = m_role m, c_content = speaker_prefix m (py_str (m_content m))\<rparr>"

definition hidden_from :: "policy \<Rightarrow> pystr option \<Rightarrow> message \<Rightarrow> bool" where
  "hidden_from p agent_name m \<longleftrightarrow>
     p_hide_own p \<and> agent_name \<noteq> None \<and> m_role m = u ''assistant'' \<and> m_agent m = agent_name"

definition project_with_policy :: "policy \<Rightarrow> message \<Rightarrow> chat" where
  "project_with_policy p m =
     \<lparr>c_role = m_role m,
      c_content = speaker_prefix m
        (case p_max_chars p of
           None \<Rightarrow> py_str (m_content m)
         | Some n \<Rightarrow> truncate_text (py_str (m_content m)) (Some n))\<rparr>"

definition context_history :: "pystr \<Rightarrow> message list \<Rightarrow> message list" where
  "context_history prompt messages =
     (let history = filter (\<lambda>m. m_role m \<in> set chat_roles) messages
      in case history of
           [] \<Rightarrow> []
         | m # rest \<Rightarrow>
             if m_role m = u ''user'' \<and> py_str (m_content m) = prompt then rest else history)"

definition windowed :: "policy \<Rightarrow> message list \<Rightarrow> message list" where
  "windowed p history =
     (case p_window p of
        None \<Rightarrow> history
      | Some n \<Rightarrow> (let w = max 0 n in if 0 < w then slice_from (- w) history else []))"

definition build_context ::
    "pystr \<Rightarrow> message list \<Rightarrow> policy option \<Rightarrow> pystr option \<Rightarrow> chat list" where
  "build_context prompt messages pol agent_name =
     (let first = \<lparr>c_role = u ''user'', c_content = prompt\<rparr>;
          history = context_history prompt messages
      in case pol of
           None \<Rightarrow> first # map project_message history
         | Some p \<Rightarrow>
             first # map (project_with_policy p)
                       (filter (\<lambda>m. \<not> hidden_from p agent_name m) (windowed p history)))"

section \<open>Cancellation tokens\<close>

text \<open>
  Tokens are objects shared by reference: a heap of tokens, a token being its index. A token is
  created after its parent, so a parent index is smaller (\<open>wf_tokens\<close>, kept by every operation);
  the guard \<open>p < i\<close> of the two walks is what makes them stop, and always holds.
\<close>

record token =
  tk_parent :: "nat option"
  tk_cancelled :: bool
  tk_reason :: "pystr option"

type_synonym tokens = "token list"

definition wf_tokens :: "tokens \<Rightarrow> bool" where
  "wf_tokens h \<longleftrightarrow> (\<forall>i < length h. \<forall>p. tk_parent (h ! i) = Some p \<longrightarrow> p < i)"

definition new_token :: "nat option \<Rightarrow> tokens \<Rightarrow> nat \<times> tokens" where
  "new_token parent h =
     (length h, h @ [\<lparr>tk_parent = parent, tk_cancelled = False, tk_reason = None\<rparr>])"

definition cancel_token :: "nat \<Rightarrow> pystr option \<Rightarrow> tokens \<Rightarrow> tokens" where
  "cancel_token i reason h =
     (if i < length h \<and> \<not> tk_cancelled (h ! i)
      then h[i := (h ! i)\<lparr>tk_cancelled := True, tk_reason := reason\<rparr>] else h)"

function is_cancelled :: "tokens \<Rightarrow> nat \<Rightarrow> bool" where
  "is_cancelled h i =
     (if i < length h
      then (if tk_cancelled (h ! i) then True
            else (case tk_parent (h ! i) of
                    None \<Rightarrow> False
                  | Some p \<Rightarrow> if p < i then is_cancelled h p else False))
      else False)"
  by pat_completeness auto
termination
  by (relation "measure snd") auto

function cancel_reason :: "tokens \<Rightarrow> nat \<Rightarrow> pystr option" where
  "cancel_reason h i =
     (if i < length h
      then (if tk_cancelled (h ! i) then tk_reason (h ! i)
            else (case tk_parent (h ! i) of
                    None \<Rightarrow> None
                  | Some p \<Rightarrow> if p < i then cancel_reason h p else None))
      else None)"
  by pat_completeness auto
termination
  by (relation "measure snd") auto

declare is_cancelled.simps [simp del] cancel_reason.simps [simp del]

text \<open>\<open>raise CancelledError(self.reason() or default_reason)\<close>.\<close>

definition raise_if_cancelled :: "tokens \<Rightarrow> nat \<Rightarrow> pystr \<Rightarrow> exn + unit" where
  "raise_if_cancelled h i dflt =
     (if is_cancelled h i
      then Inl (Exn CCancelledError
             (case cancel_reason h i of None \<Rightarrow> dflt | Some r \<Rightarrow> if r = [] then dflt else r))
      else Inr ())"

section \<open>Task context\<close>

record task_context =
  tc_task_id :: pystr
  tc_cancellation :: nat
  tc_deadline :: "real option"

definition tc_remaining :: "task_context \<Rightarrow> real \<Rightarrow> real option" where
  "tc_remaining c now = (case tc_deadline c of None \<Rightarrow> None | Some d \<Rightarrow> Some (max 0 (d - now)))"

definition tc_is_expired :: "task_context \<Rightarrow> real \<Rightarrow> bool" where
  "tc_is_expired c now = (case tc_deadline c of None \<Rightarrow> False | Some d \<Rightarrow> d \<le> now)"

section \<open>Lemmas: truncation and projection\<close>

lemma length_truncate_text: "length (truncate_text s (Some n)) \<le> nat (max 0 n) + 1"
  by (auto simp: truncate_text_def ELLIPSIS_def Let_def)

lemma prefix_truncate_text: "\<exists>p. prefix p s \<and> (truncate_text s m = p \<or> truncate_text s m = p @ ELLIPSIS)"
  by (auto simp: truncate_text_def Let_def split: option.splits intro: exI [of _ "take _ _"] take_is_prefix)

lemma context_history_suffix: "suffix (context_history p ms) (filter (\<lambda>m. m_role m \<in> set chat_roles) ms)"
  by (auto simp: context_history_def Let_def split: list.splits intro: suffix_ConsI)

lemma context_history_roles: "m \<in> set (context_history p ms) \<Longrightarrow> m_role m \<in> set chat_roles \<and> m \<in> set ms"
  using set_mono_suffix [OF context_history_suffix, of p ms] by auto

lemma set_windowed: "set (windowed p h) \<subseteq> set h"
  using suffix_slice_from [THEN set_mono_suffix] by (fastforce simp: windowed_def Let_def split: option.splits)

lemma length_windowed: "p_window p = Some n \<Longrightarrow> length (windowed p h) \<le> nat (max 0 n)"
  by (auto simp: windowed_def Let_def length_slice_from_neg)

lemma suffix_windowed: "suffix (windowed p h) h"
  by (auto simp: windowed_def Let_def suffix_slice_from split: option.splits)

section \<open>Lemmas: tokens\<close>

lemma wf_tokens_new [inv_intros]:
  "wf_tokens h \<Longrightarrow> (\<And>p. parent = Some p \<Longrightarrow> p < length h) \<Longrightarrow> wf_tokens (snd (new_token parent h))"
  by (auto simp: wf_tokens_def new_token_def nth_append less_Suc_eq)

lemma length_cancel_token [simp]: "length (cancel_token i r h) = length h"
  by (simp add: cancel_token_def)

lemma tk_parent_cancel_token [simp]: "tk_parent (cancel_token i r h ! j) = tk_parent (h ! j)"
  by (cases "j = i") (auto simp: cancel_token_def)

lemma wf_tokens_cancel [inv_intros]: "wf_tokens h \<Longrightarrow> wf_tokens (cancel_token i r h)"
  by (simp add: wf_tokens_def)

lemma tk_cancelled_cancel_token:
  "j < length h \<Longrightarrow> tk_cancelled (cancel_token i r h ! j) \<longleftrightarrow> tk_cancelled (h ! j) \<or> j = i"
  by (cases "j = i") (auto simp: cancel_token_def)

text \<open>The ancestors of a token, itself included.\<close>

inductive ancestor :: "tokens \<Rightarrow> nat \<Rightarrow> nat \<Rightarrow> bool" for h where
  self: "i < length h \<Longrightarrow> ancestor h i i"
| up: "ancestor h i j \<Longrightarrow> tk_parent (h ! j) = Some p \<Longrightarrow> p < j \<Longrightarrow> ancestor h i p"

inductive_cases ancestorE: "ancestor h i j"

lemma ancestor_le: "ancestor h i j \<Longrightarrow> j \<le> i \<and> j < length h"
  by (induction rule: ancestor.induct) auto

lemma ancestor_step:
  assumes "i < length h" "tk_parent (h ! i) = Some p" "p < i" "ancestor h p j"
  shows "ancestor h i j"
  using assms(4,1,2,3)
proof (induction rule: ancestor.induct)
  case (self k)
  then show ?case by (blast intro: ancestor.intros)
next
  case (up k j q)
  then show ?case by (blast intro: ancestor.up)
qed

lemma ancestor_unfold:
  "ancestor h i j \<longleftrightarrow>
     i < length h \<and> (j = i \<or> (\<exists>p. tk_parent (h ! i) = Some p \<and> p < i \<and> ancestor h p j))"
proof
  assume "ancestor h i j"
  then show "i < length h \<and> (j = i \<or> (\<exists>p. tk_parent (h ! i) = Some p \<and> p < i \<and> ancestor h p j))"
  proof (induction rule: ancestor.induct)
    case (self i)
    then show ?case by simp
  next
    case (up i j p)
    then have "p < length h" by (auto dest: ancestor_le)
    with up show ?case by (auto intro: ancestor.intros)
  qed
qed (auto intro: ancestor.self ancestor_step)

text \<open>\<open>is_cancelled\<close> is what its docstring says: this token or any ancestor was cancelled.\<close>

lemma is_cancelled_iff: "is_cancelled h i \<longleftrightarrow> (\<exists>j. ancestor h i j \<and> tk_cancelled (h ! j))"
proof (induction h i rule: is_cancelled.induct)
  case (1 h i)
  show ?case
    by (subst is_cancelled.simps, subst ancestor_unfold)
      (use 1 in \<open>auto split: option.splits simp: ancestor_unfold [of h i]\<close>)
qed

lemma ancestor_cancel_token [simp]: "ancestor (cancel_token k r h) i j \<longleftrightarrow> ancestor h i j"
proof -
  have "ancestor h' i j" if "ancestor h i j" "length h' = length h"
    "\<And>j. tk_parent (h' ! j) = tk_parent (h ! j)" for h h' :: tokens
    using that by (induction rule: ancestor.induct) (auto intro: ancestor.intros)
  from this [of h "cancel_token k r h"] this [of "cancel_token k r h" h] show ?thesis by auto
qed

lemma is_cancelled_cancel_token:
  "k < length h \<Longrightarrow> is_cancelled (cancel_token k r h) i \<longleftrightarrow> is_cancelled h i \<or> ancestor h i k"
  using ancestor_le [of h i] by (auto simp: is_cancelled_iff tk_cancelled_cancel_token)

lemma cancel_token_idem: "cancel_token k r' (cancel_token k r h) = cancel_token k r h"
  by (simp add: cancel_token_def)

lemma is_cancelled_new_token:
  assumes "p < length h" "new_token (Some p) h = (i, h')"
  shows "is_cancelled h' i \<longleftrightarrow> is_cancelled h p"
proof -
  have h': "h' = h @ [\<lparr>tk_parent = Some p, tk_cancelled = False, tk_reason = None\<rparr>]" "i = length h"
    using assms(2) by (auto simp: new_token_def)
  have same: "is_cancelled h' j \<longleftrightarrow> is_cancelled h j" if "j < length h" for j
    using that
  proof (induction j rule: less_induct)
    case (less j)
    then have n: "h' ! j = h ! j" by (simp add: h' nth_append)
    show ?case
      using less by (subst (1 2) is_cancelled.simps) (auto simp: h'(1) nth_append split: option.splits)
  qed
  have "is_cancelled h' i \<longleftrightarrow> is_cancelled h' p"
    by (subst is_cancelled.simps) (use assms(1) in \<open>simp add: h' nth_append\<close>)
  then show ?thesis using same [OF assms(1)] by simp
qed

section \<open>Properties\<close>

text \<open>
  What an agent sees: the prompt first and whole, then a selection of the stored messages in
  their order, each of a chat role, none of the agent's own statements when the policy hides them, no
  more of them than the window, and each content cut to \<open>max_chars\<close> characters and an ellipsis.
\<close>

theorem build_context_selects:
  "\<exists>h. build_context prompt ms (Some p) agent
        = \<lparr>c_role = u ''user'', c_content = prompt\<rparr> # map (project_with_policy p) h
      \<and> subseq h ms
      \<and> list_all (\<lambda>m. m_role m \<in> set chat_roles \<and> \<not> hidden_from p agent m) h
      \<and> (case p_window p of None \<Rightarrow> True | Some n \<Rightarrow> length h \<le> nat (max 0 n))
      \<and> list_all (\<lambda>m. case p_max_chars p of
                        None \<Rightarrow> c_content (project_with_policy p m) = speaker_prefix m (py_str (m_content m))
                      | Some n \<Rightarrow> \<exists>t. c_content (project_with_policy p m) = speaker_prefix m t
                                     \<and> length t \<le> nat (max 0 n) + 1) h"
proof -
  let ?hist = "context_history prompt ms"
  let ?h = "filter (\<lambda>m. \<not> hidden_from p agent m) (windowed p ?hist)"
  have "subseq ?h (windowed p ?hist)" by simp
  also have "subseq (windowed p ?hist) ?hist" using suffix_windowed by blast
  also have "subseq ?hist (filter (\<lambda>m. m_role m \<in> set chat_roles) ms)" using context_history_suffix by blast
  also have "subseq (filter (\<lambda>m. m_role m \<in> set chat_roles) ms) ms" by simp
  finally have sub: "subseq ?h ms" .
  have "set ?h \<subseteq> set ?hist" using set_windowed [of p ?hist] by auto
  then have "list_all (\<lambda>m. m_role m \<in> set chat_roles \<and> \<not> hidden_from p agent m) ?h"
    using context_history_roles [of _ prompt ms] by (fastforce simp: list_all_iff)
  moreover have "case p_window p of None \<Rightarrow> True | Some n \<Rightarrow> length ?h \<le> nat (max 0 n)"
    using length_windowed [of p _ ?hist] by (cases "p_window p") (auto intro: order_trans [OF length_filter_le])
  moreover have "list_all (\<lambda>m. case p_max_chars p of
                        None \<Rightarrow> c_content (project_with_policy p m) = speaker_prefix m (py_str (m_content m))
                      | Some n \<Rightarrow> \<exists>t. c_content (project_with_policy p m) = speaker_prefix m t
                                     \<and> length t \<le> nat (max 0 n) + 1) ?h"
    using length_truncate_text by (auto simp: list_all_iff project_with_policy_def split: option.split)
  ultimately show ?thesis using sub by (intro exI [of _ ?h]) (simp add: build_context_def Let_def)
qed

text \<open>
  Cancellation flows down and nowhere else: after \<open>cancel\<close> on a token, exactly the tokens that
  were cancelled before and those it is an ancestor of are cancelled, so neither its siblings nor its
  parent are; a second call changes nothing; and a token created under a cancelled parent is cancelled
  from the start.
\<close>

theorem cancellation_flows_down:
  assumes "k < length h" "new_token (Some k) h = (j, h')"
  shows "(is_cancelled (cancel_token k r h) i \<longleftrightarrow> is_cancelled h i \<or> ancestor h i k)
    \<and> cancel_token k r' (cancel_token k r h) = cancel_token k r h
    \<and> (is_cancelled h' j \<longleftrightarrow> is_cancelled h k)"
  using is_cancelled_cancel_token [OF assms(1)] cancel_token_idem is_cancelled_new_token [OF assms] by blast

theorem cancellation_flows_down_witness:
  "is_cancelled (snd (new_token (Some 0) (cancel_token 0 None (snd (new_token None []))))) 1"
  using cancellation_flows_down [of 0 "cancel_token 0 None (snd (new_token None []))" 1
      "snd (new_token (Some 0) (cancel_token 0 None (snd (new_token None []))))" None 0 None]
  by (simp add: new_token_def cancel_token_def) (simp add: is_cancelled.simps)

end
