(* ===== verification/ChatApi.thy ===== *)
theory ChatApi
  imports Cache Context
begin

text \<open>
  \<open>chat_completion\<close> of \<open>agents.py\<close>: the request to an OpenAI-compatible API with its retries, and the
  response cache in front of it. The network, external commands, the clock, the random numbers and the
  JSON, digest and formatting routines of the standard library are the fields of \<open>ext\<close>, whose
  functions thread the state \<open>'w\<close> of the world outside.
\<close>

section \<open>The outside world\<close>

text \<open>One POST: the body (its text parsed, \<open>None\<close> for a \<open>ValueError\<close> of decoding or parsing), an HTTP
  error with its status and \<open>Retry-After\<close> (\<open>float\<close> of the header, when it is one), a connection or
  time-out error, or any other exception.\<close>

datatype http_outcome =
    Body "pyval option"
  | HttpError int "real option" exn
  | NetError exn
  | OtherError exn

text \<open>A finished external command, with its exit code and the two texts it wrote, and how \<open>subprocess.run\<close> fails.\<close>

datatype cli_outcome =
    Completed int pystr pystr
  | TimedOut
  | CannotStart
  | RunRaises exn

record chat_request =
  cr_base_url :: pystr
  cr_api_key :: pystr
  cr_model :: pystr
  cr_messages :: "chat list"
  cr_temperature :: "real option"
  cr_max_tokens :: "int option"
  cr_timeout :: real
  cr_retries :: int
  cr_backoff :: real
  cr_format :: pyval

record 'w ext =
  x_post :: "pystr \<Rightarrow> (pystr \<times> field) list \<Rightarrow> pystr \<Rightarrow> real \<Rightarrow> 'w \<Rightarrow> http_outcome \<times> 'w"
  x_uniform :: "'w \<Rightarrow> real \<times> 'w"
  x_sleep :: "real \<Rightarrow> 'w \<Rightarrow> 'w"
  x_clock :: "'w \<Rightarrow> real"
  x_env :: "'w \<Rightarrow> pystr \<Rightarrow> pystr option"
  x_float :: "pystr \<Rightarrow> real option"
  x_dumps :: "pyval \<Rightarrow> pystr"
  x_digest :: "(pystr \<times> field) list \<Rightarrow> pystr"
  x_format :: "pystr \<Rightarrow> pyval \<Rightarrow> pystr \<Rightarrow> pystr option"
  x_fetch :: "pystr \<Rightarrow> pyval \<Rightarrow> real \<Rightarrow> 'w \<Rightarrow> (exn + pyval option \<times> (exn + pystr)) \<times> 'w"
  x_run :: "pystr list \<Rightarrow> real \<Rightarrow> pyval \<Rightarrow> pystr \<Rightarrow> 'w \<Rightarrow> cli_outcome \<times> 'w"
  x_g :: "real \<Rightarrow> pystr"
  x_stamp :: "'w \<Rightarrow> pystr"
  x_uuid :: "'w \<Rightarrow> pystr"

section \<open>Retries\<close>

definition RETRYABLE_STATUS :: "int list" where
  "RETRYABLE_STATUS = [429, 500, 502, 503, 504]"

definition MAX_BACKOFF_SECONDS :: real where
  "MAX_BACKOFF_SECONDS = 8"

text \<open>\<open>x_float\<close> is \<open>float(s)\<close> on a finite result, \<open>None\<close> for a \<open>ValueError\<close>, a NaN and an infinity.\<close>

definition max_backoff_seconds :: "'w ext \<Rightarrow> 'w \<Rightarrow> real" where
  "max_backoff_seconds x w =
     (case x_env x w (u ''DSMA_MAX_BACKOFF_SECONDS'') of
        None \<Rightarrow> MAX_BACKOFF_SECONDS
      | Some raw \<Rightarrow>
          (case x_float x (py_strip raw) of
             None \<Rightarrow> MAX_BACKOFF_SECONDS
           | Some v \<Rightarrow> if v \<le> 0 then MAX_BACKOFF_SECONDS else v))"

text \<open>\<open>random.uniform(0.0, cap)\<close>, with the random number in the unit interval.\<close>

definition retry_delay :: "'w ext \<Rightarrow> nat \<Rightarrow> real \<Rightarrow> real \<Rightarrow> 'w \<Rightarrow> real \<times> 'w" where
  "retry_delay x attempt backoff max_backoff w =
     (case x_uniform x w of (r, w') \<Rightarrow> (min (backoff * 2 ^ attempt) max_backoff * r, w'))"

definition retry_after_delay :: "real option \<Rightarrow> real \<Rightarrow> real \<Rightarrow> real" where
  "retry_after_delay retry_after delay max_backoff =
     (case retry_after of None \<Rightarrow> delay | Some s \<Rightarrow> min (max delay s) max_backoff)"

definition pause :: "'w ext \<Rightarrow> chat_request \<Rightarrow> real \<Rightarrow> nat \<Rightarrow> real option \<Rightarrow> 'w \<Rightarrow> 'w" where
  "pause x rq max_backoff attempt retry_after w =
     (case retry_delay x attempt (cr_backoff rq) max_backoff w of
        (delay, w') \<Rightarrow> x_sleep x (retry_after_delay retry_after delay max_backoff) w')"

text \<open>\<open>url.rstrip("/") + "/chat/completions"\<close> and the payload.\<close>

definition chat_url :: "pystr \<Rightarrow> pystr" where
  "chat_url base = rev (dropWhile (\<lambda>c. c = 47) (rev base)) @ u ''/chat/completions''"

definition chat_value :: "chat \<Rightarrow> pyval" where
  "chat_value m = DictV [(u ''role'', StrV (c_role m)), (u ''content'', StrV (c_content m))]"

definition chat_payload :: "chat_request \<Rightarrow> (pystr \<times> field) list" where
  "chat_payload rq =
     [(u ''model'', FVal (StrV (cr_model rq))), (u ''messages'', FVal (ListV (map chat_value (cr_messages rq))))]
     @ (case cr_temperature rq of None \<Rightarrow> [] | Some t \<Rightarrow> [(u ''temperature'', FNum t)])
     @ (case cr_max_tokens rq of None \<Rightarrow> [] | Some n \<Rightarrow> [(u ''max_tokens'', FVal (IntV n))])
     @ (if cr_format rq = NoneV then [] else [(u ''response_format'', FVal (cr_format rq))])"

definition send_request :: "'w ext \<Rightarrow> chat_request \<Rightarrow> 'w \<Rightarrow> http_outcome \<times> 'w" where
  "send_request x rq w =
     x_post x (chat_url (cr_base_url rq)) (chat_payload rq) (u ''Bearer '' @ cr_api_key rq) (cr_timeout rq) w"

text \<open>\<open>json.loads\<close> failing on a body is retried like a transport error.\<close>

definition bad_json :: exn where
  "bad_json = Exn CValueError (u ''invalid json'')"

text \<open>Whether an outcome lets the loop \<open>continue\<close>, with the \<open>Retry-After\<close> it honours, and what ends it.\<close>

fun retryable :: "http_outcome \<Rightarrow> real option option" where
  "retryable (Body None) = Some None"
| "retryable (Body (Some b)) = None"
| "retryable (HttpError code retry_after e) = (if code \<in> set RETRYABLE_STATUS then Some retry_after else None)"
| "retryable (NetError e) = Some None"
| "retryable (OtherError e) = None"

fun outcome_result :: "http_outcome \<Rightarrow> exn + pyval" where
  "outcome_result (Body None) = Inl bad_json"
| "outcome_result (Body (Some b)) = Inr b"
| "outcome_result (HttpError code retry_after e) = Inl e"
| "outcome_result (NetError e) = Inl e"
| "outcome_result (OtherError e) = Inl e"

text \<open>\<open>for attempt in range(max(0, retries) + 1)\<close>: \<open>n\<close> turns are left. A loop that ran out of turns
  would leave the empty body.\<close>

fun attempts :: "'w ext \<Rightarrow> chat_request \<Rightarrow> real \<Rightarrow> nat \<Rightarrow> nat \<Rightarrow> 'w \<Rightarrow> (exn + pyval) \<times> 'w" where
  "attempts x rq max_backoff attempt 0 w = (Inr (DictV []), w)"
| "attempts x rq max_backoff attempt (Suc n) w =
     (case send_request x rq w of
        (out, w1) \<Rightarrow>
          (case retryable out of
             Some retry_after \<Rightarrow>
               if int attempt < cr_retries rq
               then attempts x rq max_backoff (Suc attempt) n (pause x rq max_backoff attempt retry_after w1)
               else (outcome_result out, w1)
           | None \<Rightarrow> (outcome_result out, w1)))"

text \<open>\<open>body["choices"][0]["message"]["content"]\<close>; \<open>None\<close> for its \<open>KeyError\<close>, \<open>IndexError\<close> or
  \<open>TypeError\<close>.\<close>

definition item :: "string \<Rightarrow> pyval \<Rightarrow> pyval option" where
  "item k v = (case dict_of v of None \<Rightarrow> None | Some d \<Rightarrow> map_of d (u k))"

fun first_item :: "pyval \<Rightarrow> pyval option" where
  "first_item (ListV (v # vs)) = Some v"
| "first_item _ = None"

definition reply_content :: "pyval \<Rightarrow> pyval option" where
  "reply_content body =
     Option.bind (Option.bind (Option.bind (item ''choices'' body) first_item) (item ''message'')) (item ''content'')"

text \<open>\<open>usage.get(key, 0) or 0\<close>.\<close>

definition count_of :: "(pystr \<times> pyval) list \<Rightarrow> string \<Rightarrow> pyval" where
  "count_of us k = (case map_of us (u k) of None \<Rightarrow> IntV 0 | Some v \<Rightarrow> if truthy v then v else IntV 0)"

definition usage_of :: "(pystr \<times> pyval) list \<Rightarrow> (pystr \<times> pyval) list" where
  "usage_of us =
     [(u ''prompt_tokens'', count_of us ''prompt_tokens''),
      (u ''completion_tokens'', count_of us ''completion_tokens''),
      (u ''total_tokens'', count_of us ''total_tokens'')]"

definition hit_usage :: "(pystr \<times> pyval) list" where
  "hit_usage =
     [(u ''prompt_tokens'', IntV 0), (u ''completion_tokens'', IntV 0), (u ''total_tokens'', IntV 0),
      (u ''cache_hit'', BoolV True)]"

text \<open>\<open>body.get("usage") or {}\<close>, then its \<open>get\<close>: a body or a usage that is no dictionary has none.\<close>

definition no_get :: "exn" where
  "no_get = Exn CAttributeError (u ''object has no attribute get'')"

definition body_usage :: "pyval \<Rightarrow> exn + (pystr \<times> pyval) list" where
  "body_usage body =
     (case dict_of body of
        None \<Rightarrow> Inl no_get
      | Some d \<Rightarrow>
          (case map_of d (u ''usage'') of
             None \<Rightarrow> Inr (usage_of [])
           | Some v \<Rightarrow>
               if \<not> truthy v then Inr (usage_of [])
               else (case dict_of v of None \<Rightarrow> Inl no_get | Some us \<Rightarrow> Inr (usage_of us))))"

section \<open>With the cache in front\<close>

definition request_fingerprint :: "'w ext \<Rightarrow> chat_request \<Rightarrow> pystr" where
  "request_fingerprint x rq =
     x_digest x
       (sort_key fst
          [(u ''provider'', FVal (StrV (cr_base_url rq))), (u ''model'', FVal (StrV (cr_model rq))),
           (u ''messages'', FVal (ListV (map chat_value (cr_messages rq)))),
           (u ''temperature'', case cr_temperature rq of None \<Rightarrow> FVal NoneV | Some t \<Rightarrow> FNum t),
           (u ''max_tokens'', FVal (case cr_max_tokens rq of None \<Rightarrow> NoneV | Some n \<Rightarrow> IntV n)),
           (u ''response_format'', FVal (cr_format rq))])"

text \<open>\<open>chat_completion(..., return_usage=True)\<close>: content and usage, the cache and the world after it.\<close>

definition api_call ::
    "'w ext \<Rightarrow> chat_request \<Rightarrow> cache option \<Rightarrow> 'w
     \<Rightarrow> (exn + pyval \<times> (pystr \<times> pyval) list) \<times> cache option \<times> 'w" where
  "api_call x rq c w =
     (case attempts x rq (max_backoff_seconds x w) 0 (Suc (nat (cr_retries rq))) w of
        (Inl e, w1) \<Rightarrow> (Inl e, c, w1)
      | (Inr body, w1) \<Rightarrow>
          (let content = (case reply_content body of None \<Rightarrow> StrV (x_dumps x body) | Some v \<Rightarrow> v);
               c1 = map_option (cache_put (x_clock x w1) (request_fingerprint x rq) content) c
           in (map_sum id (\<lambda>us. (content, us)) (body_usage body), c1, w1)))"

definition chat_completion ::
    "'w ext \<Rightarrow> chat_request \<Rightarrow> cache option \<Rightarrow> 'w
     \<Rightarrow> (exn + pyval \<times> (pystr \<times> pyval) list) \<times> cache option \<times> 'w" where
  "chat_completion x rq c w =
     (case c of
        None \<Rightarrow> api_call x rq c w
      | Some ca \<Rightarrow>
          (case cache_get (x_clock x w) (request_fingerprint x rq) ca of
             (found, ca1) \<Rightarrow>
               if found \<noteq> None \<and> found \<noteq> Some NoneV
               then (Inr (the found, hit_usage), Some ca1, w)
               else api_call x rq (Some ca1) w))"

section \<open>Lemmas\<close>

text \<open>The world before attempt \<open>i\<close>, when the attempts before it were retried, and the outcome of it.\<close>

fun world_at :: "'w ext \<Rightarrow> chat_request \<Rightarrow> real \<Rightarrow> nat \<Rightarrow> 'w \<Rightarrow> nat \<Rightarrow> 'w" where
  "world_at x rq mb a w 0 = w"
| "world_at x rq mb a w (Suc i) =
     (case send_request x rq w of
        (out, w1) \<Rightarrow>
          (case retryable out of
             None \<Rightarrow> w1
           | Some ra \<Rightarrow> world_at x rq mb (Suc a) (pause x rq mb a ra w1) i))"

definition outcome_at :: "'w ext \<Rightarrow> chat_request \<Rightarrow> real \<Rightarrow> nat \<Rightarrow> 'w \<Rightarrow> nat \<Rightarrow> http_outcome" where
  "outcome_at x rq mb a w i = fst (send_request x rq (world_at x rq mb a w i))"

lemma attempts_spec:
  assumes "int a + int n = max 0 (cr_retries rq)"
  shows "\<exists>k \<le> n. (\<forall>i < k. retryable (outcome_at x rq mb a w i) \<noteq> None)
    \<and> (retryable (outcome_at x rq mb a w k) = None \<or> k = n)
    \<and> attempts x rq mb a (Suc n) w
        = (outcome_result (outcome_at x rq mb a w k), snd (send_request x rq (world_at x rq mb a w k)))"
  using assms
proof (induction n arbitrary: a w)
  case 0
  then have "\<not> int a < cr_retries rq" by linarith
  then show ?case by (auto simp: outcome_at_def split: prod.splits option.splits)
next
  case (Suc n)
  obtain out w1 where o: "send_request x rq w = (out, w1)" by fastforce
  show ?case
  proof (cases "retryable out")
    case None
    with o show ?thesis by (intro exI [of _ 0]) (simp add: outcome_at_def)
  next
    case (Some ra)
    let ?w = "pause x rq mb a ra w1"
    have step: "outcome_at x rq mb a w (Suc i) = outcome_at x rq mb (Suc a) ?w i"
      "world_at x rq mb a w (Suc i) = world_at x rq mb (Suc a) ?w i" for i
      using o Some by (simp_all add: outcome_at_def)
    have lt: "int a < cr_retries rq" and n: "int (Suc a) + int n = max 0 (cr_retries rq)"
      using Suc.prems by linarith+
    from Suc.IH [OF n, of ?w] obtain k where k: "k \<le> n"
      "\<forall>i < k. retryable (outcome_at x rq mb (Suc a) ?w i) \<noteq> None"
      "retryable (outcome_at x rq mb (Suc a) ?w k) = None \<or> k = n"
      "attempts x rq mb (Suc a) (Suc n) ?w
        = (outcome_result (outcome_at x rq mb (Suc a) ?w k), snd (send_request x rq (world_at x rq mb (Suc a) ?w k)))"
      by blast
    have first: "retryable (outcome_at x rq mb a w 0) \<noteq> None" using o Some by (simp add: outcome_at_def)
    have "\<forall>i < Suc k. retryable (outcome_at x rq mb a w i) \<noteq> None"
      using k(2) first by (auto simp: less_Suc_eq_0_disj step)
    moreover have "attempts x rq mb a (Suc (Suc n)) w = attempts x rq mb (Suc a) (Suc n) ?w"
      using o Some lt by simp
    ultimately show ?thesis
      using k(1,3,4) by (intro exI [of _ "Suc k"]) (simp add: step del: attempts.simps world_at.simps)
  qed
qed

declare attempts.simps(2) [simp del] world_at.simps(2) [simp del]

lemma map_sum_Inr_iff: "map_sum id f s = Inr y \<longleftrightarrow> (\<exists>z. s = Inr z \<and> y = f z)"
  by (cases s) auto

lemma retry_after_bounds:
  assumes "0 \<le> r" "r \<le> 1" "0 \<le> backoff" "0 \<le> mb"
  shows "0 \<le> retry_after_delay ra (min (backoff * 2 ^ k) mb * r) mb"
    "retry_after_delay ra (min (backoff * 2 ^ k) mb * r) mb \<le> mb"
    "ra = Some s \<Longrightarrow> min s mb \<le> retry_after_delay ra (min (backoff * 2 ^ k) mb * r) mb"
proof -
  let ?cap = "min (backoff * 2 ^ k) mb"
  have cap: "0 \<le> ?cap" "?cap \<le> mb" using assms(3,4) by auto
  have "?cap * r \<le> ?cap * 1" using assms(2) cap(1) by (intro mult_left_mono)
  then have d: "0 \<le> ?cap * r" "?cap * r \<le> mb"
    using cap assms(1) by auto
  show "0 \<le> retry_after_delay ra (?cap * r) mb" "retry_after_delay ra (?cap * r) mb \<le> mb"
    "ra = Some s \<Longrightarrow> min s mb \<le> retry_after_delay ra (?cap * r) mb"
    using d assms(4) by (auto simp: retry_after_delay_def split: option.splits)
qed

lemma max_backoff_pos: "0 < max_backoff_seconds x w"
  by (auto simp: max_backoff_seconds_def MAX_BACKOFF_SECONDS_def split: option.splits)

lemma usage_of_no_hit: "usage_of us \<noteq> hit_usage"
  by (simp add: usage_of_def hit_usage_def)

section \<open>Properties\<close>

text \<open>
  C33. The retry loop: a call makes at most \<open>retries + 1\<close> requests and at least one. All requests but
  the last ended in a transient failure (a body that is no JSON, a retryable status, a connection
  error); the last one was conclusive or used up the retries, and its outcome is what the call
  returns or raises.
\<close>

theorem retry_loop_exact:
  "\<exists>k. int k \<le> max 0 (cr_retries rq)
    \<and> (\<forall>i < k. retryable (outcome_at x rq mb 0 w i) \<noteq> None)
    \<and> (retryable (outcome_at x rq mb 0 w k) = None \<or> int k = max 0 (cr_retries rq))
    \<and> fst (attempts x rq mb 0 (Suc (nat (cr_retries rq))) w) = outcome_result (outcome_at x rq mb 0 w k)"
proof -
  have "int 0 + int (nat (cr_retries rq)) = max 0 (cr_retries rq)" by simp
  from attempts_spec [OF this, of x mb w] obtain k where k: "k \<le> nat (cr_retries rq)"
    "\<forall>i < k. retryable (outcome_at x rq mb 0 w i) \<noteq> None"
    "retryable (outcome_at x rq mb 0 w k) = None \<or> k = nat (cr_retries rq)"
    "attempts x rq mb 0 (Suc (nat (cr_retries rq))) w
      = (outcome_result (outcome_at x rq mb 0 w k), snd (send_request x rq (world_at x rq mb 0 w k)))"
    by blast
  moreover have "int (nat (cr_retries rq)) = max 0 (cr_retries rq)" by simp
  ultimately show ?thesis by (intro exI [of _ k]) (auto simp del: nat_0_le int_nat_eq)
qed

definition scripted :: "http_outcome list ext" where
  "scripted =
     \<lparr>x_post = (\<lambda>url payload auth timeout w. (hd w, tl w)), x_uniform = (\<lambda>w. (1 / 2, w)),
      x_sleep = (\<lambda>d w. w), x_clock = (\<lambda>w. 0), x_env = (\<lambda>w k. None), x_float = (\<lambda>s. None),
      x_dumps = (\<lambda>v. []), x_digest = (\<lambda>f. []), x_format = (\<lambda>t m n. None),
      x_fetch = (\<lambda>url body timeout w. (Inl bad_json, w)), x_run = (\<lambda>argv timeout cwd enc w. (CannotStart, w)),
      x_g = (\<lambda>r. []), x_stamp = (\<lambda>w. []), x_uuid = (\<lambda>w. [])\<rparr>"

definition two_retries :: chat_request where
  "two_retries =
     \<lparr>cr_base_url = u ''http://api/'', cr_api_key = u ''k'', cr_model = u ''m'', cr_messages = [],
      cr_temperature = None, cr_max_tokens = None, cr_timeout = 1, cr_retries = 2, cr_backoff = 1 / 2,
      cr_format = NoneV\<rparr>"

theorem retry_loop_exact_witness:
  "\<exists>k. int k \<le> 2 \<and> (\<forall>i < k. retryable (outcome_at scripted two_retries 8 0 [HttpError 503 None bad_json, Body (Some NoneV)] i) \<noteq> None)"
  using retry_loop_exact [of two_retries scripted 8 "[HttpError 503 None bad_json, Body (Some NoneV)]"]
  by (auto simp: two_retries_def)

text \<open>
  Waiting is bounded: every pause between two attempts lasts between nothing and the back-off
  ceiling, which is positive whatever the environment says, and a numeric \<open>Retry-After\<close> is waited for
  up to that ceiling.
\<close>

theorem retry_wait_bounds:
  assumes "x_uniform x w = (r, w')" "0 \<le> r" "r \<le> 1" "0 \<le> cr_backoff rq"
  shows "\<exists>d. pause x rq (max_backoff_seconds x w0) k ra w = x_sleep x d w'
    \<and> 0 \<le> d \<and> d \<le> max_backoff_seconds x w0 \<and> 0 < max_backoff_seconds x w0
    \<and> (\<forall>s. ra = Some s \<longrightarrow> min s (max_backoff_seconds x w0) \<le> d)"
proof -
  let ?mb = "max_backoff_seconds x w0"
  let ?d = "retry_after_delay ra (min (cr_backoff rq * 2 ^ k) ?mb * r) ?mb"
  note b = retry_after_bounds [OF assms(2-4) less_imp_le [OF max_backoff_pos [of x w0]]]
  have "min s ?mb \<le> ?d" if "ra = Some s" for s using that by (rule b(3))
  then have "0 \<le> ?d \<and> ?d \<le> ?mb \<and> 0 < ?mb \<and> (\<forall>s. ra = Some s \<longrightarrow> min s ?mb \<le> ?d)"
    using b(1) [of ra k] b(2) [of ra k] max_backoff_pos [of x w0] by auto
  moreover have "pause x rq ?mb k ra w = x_sleep x ?d w'" by (simp add: pause_def retry_delay_def assms(1))
  ultimately show ?thesis by blast
qed

theorem retry_wait_bounds_witness:
  "\<exists>d. pause scripted two_retries 8 3 (Some 20) [] = x_sleep scripted d [] \<and> 8 \<le> d \<and> d \<le> 8"
proof -
  have mb: "max_backoff_seconds scripted [] = 8"
    by (simp add: max_backoff_seconds_def scripted_def MAX_BACKOFF_SECONDS_def)
  have "x_uniform scripted [] = (1 / 2, [])" "0 \<le> cr_backoff two_retries"
    by (simp_all add: scripted_def two_retries_def)
  from retry_wait_bounds [OF this(1) _ _ this(2), of "[]" 3 "Some 20", unfolded mb]
  obtain d where d: "pause scripted two_retries 8 3 (Some 20) [] = x_sleep scripted d []" "d \<le> 8" "min 20 8 \<le> d"
    by auto
  from d(3) have "8 \<le> d" by simp
  with d(1,2) show ?thesis by blast
qed

text \<open>
  C34. The cache and the API: a reply fetched from the API is served to the next identical request
  without a request to the network, as long as it has not expired; the world is left alone and the
  usage is marked as a cache hit.
\<close>

theorem cached_reply_served:
  assumes "cache_ok ca" "chat_completion x rq (Some ca) w = (Inr (v, us), Some ca', w')" "us \<noteq> hit_usage"
    "v \<noteq> NoneV" "case ca_ttl ca of None \<Rightarrow> True | Some ttl \<Rightarrow> x_clock x later < x_clock x w' + ttl"
  shows "\<exists>ca''. chat_completion x rq (Some ca') later = (Inr (v, hit_usage), Some ca'', later)"
proof -
  obtain found ca1 where g: "cache_get (x_clock x w) (request_fingerprint x rq) ca = (found, ca1)" by fastforce
  have "api_call x rq (Some ca1) w = (Inr (v, us), Some ca', w')"
    using assms(2,3) by (auto simp: chat_completion_def g split: if_splits)
  then have ca': "ca' = cache_put (x_clock x w') (request_fingerprint x rq) v ca1"
    by (auto simp: api_call_def Let_def map_sum_Inr_iff split: sum.splits prod.splits)
  have "fst (cache_get (x_clock x later) (request_fingerprint x rq) ca') = Some v"
    unfolding ca' by (rule replies.memoised [OF assms(1) g assms(5)])
  then show ?thesis
    using assms(4) by (auto simp: chat_completion_def split: prod.splits)
qed

definition sample_body :: pyval where
  "sample_body =
     DictV [(u ''choices'', ListV [DictV [(u ''message'', DictV [(u ''content'', StrV (u ''hi''))])]]),
            (u ''usage'', DictV [(u ''total_tokens'', IntV 3)])]"

lemma sample_fetch:
  "\<exists>ca'. chat_completion scripted two_retries (Some small_cache) [Body (Some sample_body)]
     = (Inr (StrV (u ''hi''), usage_of [(u ''total_tokens'', IntV 3)]), Some ca', [])"
  by (simp add: chat_completion_def api_call_def small_cache_def cache_get_def two_retries_def attempts.simps(2) numeral_3_eq_3 Let_def
      send_request_def scripted_def sample_body_def reply_content_def item_def body_usage_def)

theorem cached_reply_served_witness:
  "\<exists>ca' ca''. chat_completion scripted two_retries (Some ca') [] = (Inr (StrV (u ''hi''), hit_usage), Some ca'', [])"
proof -
  obtain ca' where f: "chat_completion scripted two_retries (Some small_cache) [Body (Some sample_body)]
      = (Inr (StrV (u ''hi''), usage_of [(u ''total_tokens'', IntV 3)]), Some ca', [])"
    using sample_fetch by blast
  have "cache_ok small_cache" by (simp add: small_cache_def cache_ok_def)
  from cached_reply_served [OF this f usage_of_no_hit, of "[]"] show ?thesis
    by (auto simp: small_cache_def scripted_def)
qed

end
