(* ===== verification/ConfigValues.thy ===== *)
theory ConfigValues
  imports Context
begin

text \<open>
  How \<open>agents.py\<close> reads configuration values: booleans, and the capability names of an agent.
\<close>

section \<open>Configuration values\<close>

text \<open>Iterating over a value: the elements of a list, the characters of a string, the keys of a
  dictionary.\<close>

fun py_iter :: "pyval \<Rightarrow> exn + pyval list" where
  "py_iter (ListV vs) = Inr vs"
| "py_iter (StrV s) = Inr (map (\<lambda>c. StrV [c]) s)"
| "py_iter (DictV kvs) = Inr (map (\<lambda>(k, v). StrV k) kvs)"
| "py_iter _ = Inl (Exn CTypeError (u ''object is not iterable''))"

fun as_bool :: "pyval \<Rightarrow> bool" where
  "as_bool (StrV s) = (py_lower (py_strip s) \<in> set [u ''1'', u ''true'', u ''yes'', u ''on''])"
| "as_bool v = truthy v"

text \<open>The names of a frozen set, in one listing of it.\<close>

definition stripped :: "pystr list \<Rightarrow> pystr list" where
  "stripped xs = filter (\<lambda>x. x \<noteq> []) (map py_strip xs)"

definition as_capabilities :: "pyval \<Rightarrow> exn + pystr list" where
  "as_capabilities v =
     (case v of
        NoneV \<Rightarrow> Inr []
      | StrV s \<Rightarrow> Inr (stripped (split_on 44 s))
      | _ \<Rightarrow> (case py_iter v of Inl e \<Rightarrow> Inl e | Inr vs \<Rightarrow> Inr (stripped (map py_str vs))))"

lemma stripped_stripped [simp]: "stripped (stripped xs) = stripped xs"
  by (simp add: stripped_def filter_map o_def py_strip_def)

lemma set_stripped: "x \<in> set (stripped xs) \<Longrightarrow> x \<noteq> [] \<and> py_strip x = x"
  by (auto simp: stripped_def py_strip_def)

lemma as_capabilities_stripped: "as_capabilities v = Inr cs \<Longrightarrow> x \<in> set cs \<Longrightarrow> x \<noteq> [] \<and> py_strip x = x"
  by (auto simp: as_capabilities_def dest: set_stripped split: pyval.splits sum.splits)

end
