(* ===== verification/Memory.thy ===== *)
theory Memory
  imports Context
begin

text \<open>
  \<open>memory.py\<close>: the shared conversation memory, an ordered buffer of messages with two bounds on what
  is stored, the number of messages and the total content.
\<close>

section \<open>Model\<close>

record store =
  ms_capacity :: "int option"
  ms_max_chars :: "int option"
  ms_messages :: "message list"

definition new_store :: "int option \<Rightarrow> int option \<Rightarrow> store" where
  "new_store cap mx = \<lparr>ms_capacity = cap, ms_max_chars = mx, ms_messages = []\<rparr>"

definition content_len :: "message \<Rightarrow> int" where
  "content_len m = int (length (py_str (m_content m)))"

definition total_chars :: "message list \<Rightarrow> int" where
  "total_chars ms = sum_list (map content_len ms)"

text \<open>The \<open>while len(messages) > 1 and total > max_chars\<close> loop, \<open>total\<close> counted down as it drops.\<close>

fun drop_loop :: "int \<Rightarrow> int \<Rightarrow> message list \<Rightarrow> message list" where
  "drop_loop mx tot (m # m' # ms) =
     (if mx < tot then drop_loop mx (tot - content_len m) (m' # ms) else m # m' # ms)"
| "drop_loop mx tot ms = ms"

definition cut_capacity :: "int option \<Rightarrow> message list \<Rightarrow> message list" where
  "cut_capacity cap ms =
     (case cap of
        None \<Rightarrow> ms
      | Some c \<Rightarrow> if c \<noteq> 0 \<and> c < int (length ms) then slice_from (- c) ms else ms)"

definition enforce :: "store \<Rightarrow> store" where
  "enforce s =
     (let ms = cut_capacity (ms_capacity s) (ms_messages s)
      in s\<lparr>ms_messages :=
             (case ms_max_chars s of None \<Rightarrow> ms | Some mx \<Rightarrow> drop_loop mx (total_chars ms) ms)\<rparr>)"

definition add_message :: "message \<Rightarrow> store \<Rightarrow> store" where
  "add_message m s = enforce (s\<lparr>ms_messages := ms_messages s @ [m]\<rparr>)"

definition store_chars :: "store \<Rightarrow> int" where
  "store_chars s = total_chars (ms_messages s)"

definition recent_messages :: "int \<Rightarrow> store \<Rightarrow> message list" where
  "recent_messages n s = slice_from (- n) (ms_messages s)"

definition clear_store :: "store \<Rightarrow> store" where
  "clear_store s = s\<lparr>ms_messages := []\<rparr>"

definition store_len :: "store \<Rightarrow> nat" where
  "store_len s = length (ms_messages s)"

definition to_chat :: "int option \<Rightarrow> bool \<Rightarrow> store \<Rightarrow> chat list" where
  "to_chat limit with_speaker s =
     (let msgs = (case limit of None \<Rightarrow> ms_messages s | Some n \<Rightarrow> recent_messages n s)
      in map (\<lambda>m. \<lparr>c_role = m_role m,
                    c_content = (if with_speaker then speaker_prefix m (py_str (m_content m))
                                 else py_str (m_content m))\<rparr>)
           (filter (\<lambda>m. m_role m \<in> set chat_roles) msgs))"

section \<open>Lemmas\<close>

text \<open>What the bounds allow: a lone message always, more of them only within both bounds.\<close>

definition fits :: "int option \<Rightarrow> message list \<Rightarrow> bool" where
  "fits mx ms \<longleftrightarrow> length ms \<le> 1 \<or> (case mx of None \<Rightarrow> True | Some n \<Rightarrow> total_chars ms \<le> n)"

lemma total_chars_Cons [simp]: "total_chars (m # ms) = content_len m + total_chars ms"
  by (simp add: total_chars_def)

lemma total_chars_nonneg: "0 \<le> total_chars ms"
  by (auto simp: total_chars_def content_len_def intro!: sum_list_nonneg)

lemma drop_loop_spec:
  assumes "tot = total_chars ms"
  shows "suffix (drop_loop mx tot ms) ms \<and> fits (Some mx) (drop_loop mx tot ms)
    \<and> (ms \<noteq> [] \<longrightarrow> drop_loop mx tot ms \<noteq> [])
    \<and> (\<forall>ks. suffix ks ms \<longrightarrow> fits (Some mx) ks \<longrightarrow> suffix ks (drop_loop mx tot ms))"
  using assms
proof (induction mx tot ms rule: drop_loop.induct)
  case (1 mx tot m m' ms)
  show ?case
  proof (cases "mx < tot")
    case False
    then show ?thesis using 1(2) by (auto simp: fits_def)
  next
    case True
    have nofit: "\<not> fits (Some mx) (m # m' # ms)" using True 1(2) by (simp add: fits_def)
    have ih: "suffix (drop_loop mx (tot - content_len m) (m' # ms)) (m' # ms)"
      "fits (Some mx) (drop_loop mx (tot - content_len m) (m' # ms))"
      "drop_loop mx (tot - content_len m) (m' # ms) \<noteq> []"
      "\<And>ks. suffix ks (m' # ms) \<Longrightarrow> fits (Some mx) ks \<Longrightarrow>
         suffix ks (drop_loop mx (tot - content_len m) (m' # ms))"
      using 1(1) [OF True] 1(2) by auto
    show ?thesis
      using True ih nofit by (auto simp: suffix_Cons)
  qed
qed (auto simp: fits_def)

lemma cut_capacity_spec:
  assumes "cap = Some c" "0 < c"
  shows "suffix (cut_capacity cap ms) ms" "length (cut_capacity cap ms) = min (nat c) (length ms)"
    "\<And>ks. suffix ks ms \<Longrightarrow> length ks \<le> nat c \<Longrightarrow> suffix ks (cut_capacity cap ms)"
proof -
  show s: "suffix (cut_capacity cap ms) ms" by (auto simp: cut_capacity_def assms suffix_slice_from)
  show l: "length (cut_capacity cap ms) = min (nat c) (length ms)"
    using assms(2) by (auto simp: cut_capacity_def assms(1) length_slice_from_neg)
  show "suffix ks (cut_capacity cap ms)" if "suffix ks ms" "length ks \<le> nat c" for ks
    by (rule suffix_length_suffix [OF that(1) s]) (use that l suffix_length_le [OF that(1)] in simp)
qed

lemma enforce_const [simp]:
  "ms_capacity (enforce s) = ms_capacity s" "ms_max_chars (enforce s) = ms_max_chars s"
  by (simp_all add: enforce_def Let_def)

lemma slice_from_whole: "suffix (slice_from n xs) xs"
  by (rule suffix_slice_from)

text \<open>The stored messages after \<open>add\<close>: the longest run of newest messages within both bounds.\<close>

definition within_limits :: "store \<Rightarrow> message list \<Rightarrow> bool" where
  "within_limits s ms \<longleftrightarrow>
     (case ms_capacity s of None \<Rightarrow> True | Some c \<Rightarrow> c = 0 \<or> int (length ms) \<le> c) \<and> fits (ms_max_chars s) ms"

lemma fits_suffix: "fits mx ms \<Longrightarrow> suffix ks ms \<Longrightarrow> fits mx ks"
proof -
  assume f: "fits mx ms" and s: "suffix ks ms"
  obtain zs where "ms = zs @ ks" using s by (auto simp: suffix_def)
  then have "total_chars ks \<le> total_chars ms" "length ks \<le> length ms"
    using total_chars_nonneg [of zs] by (auto simp: total_chars_def)
  with f show ?thesis by (auto simp: fits_def split: option.splits)
qed

lemma enforce_longest:
  assumes "case ms_capacity s of None \<Rightarrow> True | Some c \<Rightarrow> 0 \<le> c" "ms_messages s \<noteq> []"
  defines "ms \<equiv> ms_messages s" and "out \<equiv> ms_messages (enforce s)"
  shows "suffix out ms" "out \<noteq> []" "within_limits s out"
    "\<And>ks. suffix ks ms \<Longrightarrow> within_limits s ks \<Longrightarrow> suffix ks out"
proof -
  let ?cut = "cut_capacity (ms_capacity s) ms"
  have cut: "suffix ?cut ms \<and> ?cut \<noteq> []
      \<and> (case ms_capacity s of None \<Rightarrow> True | Some c \<Rightarrow> c = 0 \<or> int (length ?cut) \<le> c)
      \<and> (\<forall>ks. suffix ks ms \<longrightarrow> (case ms_capacity s of None \<Rightarrow> True | Some c \<Rightarrow> c = 0 \<or> int (length ks) \<le> c)
            \<longrightarrow> suffix ks ?cut)"
  proof (cases "ms_capacity s")
    case None
    with assms(2) show ?thesis by (simp add: cut_capacity_def ms_def)
  next
    case (Some c)
    show ?thesis
    proof (cases "c = 0")
      case True
      with assms(2) Some show ?thesis by (simp add: cut_capacity_def ms_def)
    next
      case False
      then have c: "0 < c" using assms(1) Some by simp
      note spec = cut_capacity_spec(1,2) [OF Some c, of ms]
      have "0 < length ?cut" using spec(2) c assms(2) by (simp add: ms_def)
      moreover have "suffix ks ?cut" if "suffix ks ms" "int (length ks) \<le> c" for ks
        by (rule cut_capacity_spec(3) [OF Some c that(1)]) (use that(2) c in linarith)
      ultimately show ?thesis using spec(1,2) Some c by auto
    qed
  qed
  have out: "out = (case ms_max_chars s of None \<Rightarrow> ?cut | Some mx \<Rightarrow> drop_loop mx (total_chars ?cut) ?cut)"
    unfolding out_def enforce_def Let_def ms_def by simp
  have loop: "suffix out ?cut \<and> out \<noteq> [] \<and> fits (ms_max_chars s) out
      \<and> (\<forall>ks. suffix ks ?cut \<longrightarrow> fits (ms_max_chars s) ks \<longrightarrow> suffix ks out)"
  proof (cases "ms_max_chars s")
    case None
    with cut show ?thesis by (simp add: out fits_def)
  next
    case (Some mx)
    with cut drop_loop_spec [OF refl, of mx ?cut] show ?thesis by (simp add: out)
  qed
  show "suffix out ms" using loop cut by (blast intro: suffix_order.order_trans)
  show "out \<noteq> []" using loop by blast
  have "length out \<le> length ?cut" using loop by (simp add: suffix_length_le)
  then show "within_limits s out"
    using loop cut by (auto simp: within_limits_def split: option.splits)
  show "suffix ks out" if "suffix ks ms" "within_limits s ks" for ks
    using that cut loop by (auto simp: within_limits_def)
qed

text \<open>
  C26. After an \<open>add\<close> the memory holds the longest run of newest messages that keeps both bounds, the
  message count and the total content: oldest messages are dropped first, never more than needed,
  and the new message itself is always kept, even when it alone exceeds the content bound.
\<close>

theorem add_keeps_newest:
  assumes "case ms_capacity s of None \<Rightarrow> True | Some c \<Rightarrow> 0 \<le> c"
  shows "suffix (ms_messages (add_message m s)) (ms_messages s @ [m])
    \<and> last (ms_messages (add_message m s)) = m \<and> ms_messages (add_message m s) \<noteq> []
    \<and> within_limits s (ms_messages (add_message m s))
    \<and> (\<forall>ks. suffix ks (ms_messages s @ [m]) \<longrightarrow> within_limits s ks \<longrightarrow> suffix ks (ms_messages (add_message m s)))"
proof -
  let ?s = "s\<lparr>ms_messages := ms_messages s @ [m]\<rparr>"
  note spec = enforce_longest [of ?s]
  have w: "within_limits ?s ks = within_limits s ks" for ks by (simp add: within_limits_def)
  have sub: "suffix (ms_messages (enforce ?s)) (ms_messages s @ [m])" "ms_messages (enforce ?s) \<noteq> []"
    using spec(1,2) assms by auto
  then have "last (ms_messages (enforce ?s)) = m" by (auto simp: suffix_def) (metis last_append last_snoc)
  with spec assms sub show ?thesis by (auto simp: add_message_def w)
qed

theorem add_keeps_newest_witness:
  "last (ms_messages (add_message \<lparr>m_role = [], m_content = StrV [1, 2], m_agent = None, m_meta = []\<rparr>
     (new_store (Some 1) (Some 1)))) = \<lparr>m_role = [], m_content = StrV [1, 2], m_agent = None, m_meta = []\<rparr>"
  using add_keeps_newest [of "new_store (Some 1) (Some 1)"] by (simp add: new_store_def)

text \<open>
  \<open>recent(n)\<close> is the last \<open>n\<close> messages for positive \<open>n\<close>; \<open>recent(0)\<close>, and with it
  \<open>to_chat(limit=0)\<close>, is the whole memory.
\<close>

theorem recent_last_n:
  "0 < n \<Longrightarrow> suffix (recent_messages n s) (ms_messages s)
     \<and> length (recent_messages n s) = min (nat n) (store_len s)"
  by (simp add: recent_messages_def suffix_slice_from length_slice_from_neg store_len_def)

theorem recent_last_n_witness: "length (recent_messages 3 (new_store None None)) = 0"
  using recent_last_n [of 3 "new_store None None"] by (simp add: store_len_def new_store_def)

theorem recent_zero_is_all: "recent_messages 0 s = ms_messages s \<and> to_chat (Some 0) b s = to_chat None b s"
  by (simp add: recent_messages_def slice_from_def to_chat_def)

end
