(* ===== verification/Agents.thy ===== *)
theory Agents
  imports ChatApi ConfigValues Memory
begin

text \<open>
  \<open>agents.py\<close>: agents with a handler or a provider, chains of agents, and the factory. An agent is a
  value that \<open>handle\<close> returns updated (its counters and its cache); the agents of a chain belong to
  the chain. A handler is a function of the message and the world outside. Keyword arguments are
  read from \<open>kwargs\<close>, what is no JSON value in them (callables, agents) apart.
\<close>

section \<open>The agent\<close>

type_synonym 'w handler = "pyval \<Rightarrow> 'w \<Rightarrow> (exn + pyval) \<times> 'w"
type_synonym counters = "(pystr \<times> int) list"

record 'w core =
  a_name :: pystr
  a_role :: pyval
  a_system :: pystr
  a_provider :: "pystr option"
  a_model :: "pystr option"
  a_temperature :: "real option"
  a_max_tokens :: "int option"
  a_api_key :: pystr
  a_base_url :: pystr
  a_retries :: int
  a_timeout :: real
  a_caps :: "pystr list"
  a_cache :: bool
  a_store :: "cache option"
  a_hits :: int
  a_usage :: counters
  a_handler :: "'w handler option"

datatype 'w agent = Plain "'w core" | Chain "'w core" "'w agent list"

fun base_of :: "'w agent \<Rightarrow> 'w core" where
  "base_of (Plain c) = c"
| "base_of (Chain c bs) = c"

text \<open>\<open>PROVIDER_DEFAULTS\<close>: base URL, model and the variable with the key.\<close>

definition PROVIDER_DEFAULTS :: "(pystr \<times> pystr \<times> pystr \<times> pystr) list" where
  "PROVIDER_DEFAULTS =
     [(u ''deepseek'', u ''https://api.deepseek.com'', u ''deepseek-chat'', u ''DEEPSEEK_API_KEY''),
      (u ''openai'', u ''https://api.openai.com/v1'', u ''gpt-4o-mini'', u ''OPENAI_API_KEY'')]"

definition zero_usage :: counters where
  "zero_usage = [(u ''prompt_tokens'', 0), (u ''completion_tokens'', 0), (u ''total_tokens'', 0)]"

text \<open>The constructor: the empty string stands for an argument that is \<open>None\<close> or empty, which the code
  tells apart nowhere but in \<open>model\<close>. \<open>ResponseCache()\<close> has 128 entries and no expiry.\<close>

definition fresh_cache :: cache where
  "fresh_cache =
     \<lparr>ca_maxsize = 128, ca_ttl = None, ca_data = [], ca_hits = 0, ca_misses = 0, ca_expired = 0,
      ca_evictions = 0\<rparr>"

definition new_agent ::
    "pystr \<Rightarrow> 'w handler option \<Rightarrow> pyval \<Rightarrow> pystr \<Rightarrow> pystr \<Rightarrow> pystr option \<Rightarrow> real option \<Rightarrow> int option
     \<Rightarrow> pystr \<Rightarrow> pystr \<Rightarrow> int \<Rightarrow> real \<Rightarrow> bool \<Rightarrow> pystr list \<Rightarrow> exn + 'w core" where
  "new_agent name handler role system prov model temperature max_tokens api_key base_url retries timeout
       use_cache caps =
     (let p = py_lower prov
      in if p \<noteq> [] \<and> map_of PROVIDER_DEFAULTS p = None
         then Inl (Exn CValueError (u ''Unknown provider '' @ quoted prov @ u '' (supported: ''
                @ py_repr_strs (py_sorted_set (dkeys PROVIDER_DEFAULTS)) @ u '')''))
         else Inr \<lparr>a_name = name, a_role = role, a_system = system,
                   a_provider = (if p = [] then None else Some p),
                   a_model = (case model of
                                Some m \<Rightarrow> if m = [] then map_option (\<lambda>(b, d, k). d) (map_of PROVIDER_DEFAULTS p)
                                          else Some m
                              | None \<Rightarrow> map_option (\<lambda>(b, d, k). d) (map_of PROVIDER_DEFAULTS p)),
                   a_temperature = temperature, a_max_tokens = max_tokens, a_api_key = api_key,
                   a_base_url = base_url, a_retries = retries, a_timeout = timeout, a_caps = caps,
                   a_cache = use_cache, a_store = (if use_cache then Some fresh_cache else None),
                   a_hits = 0, a_usage = zero_usage, a_handler = handler\<rparr>)"

text \<open>\<open>_add_usage\<close>: key by key; a value that is no number raises with the keys before it counted.\<close>

fun as_number :: "pyval \<Rightarrow> exn + int" where
  "as_number (IntV i) = Inr i"
| "as_number (BoolV b) = Inr (of_bool b)"
| "as_number v =
     (if truthy v then Inl (Exn CTypeError (u ''unsupported operand type(s) for +'')) else Inr 0)"

definition counter :: "counters \<Rightarrow> pystr \<Rightarrow> int" where
  "counter us k = (case map_of us k of None \<Rightarrow> 0 | Some n \<Rightarrow> n)"

definition add_count :: "pystr \<Rightarrow> int \<Rightarrow> counters \<Rightarrow> counters" where
  "add_count k n us = AList.update k (counter us k + n) us"

fun add_usage :: "(pystr \<times> pyval) list \<Rightarrow> counters \<Rightarrow> exn option \<times> counters" where
  "add_usage [] us = (None, us)"
| "add_usage ((k, v) # rest) us =
     (case as_number v of Inl e \<Rightarrow> (Some e, us) | Inr n \<Rightarrow> add_usage rest (add_count k n us))"

definition no_provider :: "pystr \<Rightarrow> exn" where
  "no_provider name = Exn CRuntimeError (u ''agent '' @ quoted name @ u '': no provider configured'')"

definition missing_key :: "pystr \<Rightarrow> pystr \<Rightarrow> exn" where
  "missing_key name env_key =
     Exn CRuntimeError (u ''agent '' @ quoted name @ u '': missing API key ('' @ env_key @ u '' or api_key=...)'')"

definition request_of :: "'w core \<Rightarrow> pystr \<Rightarrow> pystr \<Rightarrow> pystr \<Rightarrow> chat list \<Rightarrow> pyval \<Rightarrow> chat_request" where
  "request_of c base dflt_model key messages fmt =
     \<lparr>cr_base_url = (if a_base_url c = [] then base else a_base_url c), cr_api_key = key,
      cr_model = (case a_model c of Some m \<Rightarrow> if m = [] then dflt_model else m | None \<Rightarrow> dflt_model),
      cr_messages = messages, cr_temperature = a_temperature c, cr_max_tokens = a_max_tokens c,
      cr_timeout = a_timeout c, cr_retries = a_retries c, cr_backoff = 1 / 2, cr_format = fmt\<rparr>"

text \<open>Counting what a chat completion used: a hit, or its tokens.\<close>

definition count_reply :: "(pystr \<times> pyval) list \<Rightarrow> 'w core \<Rightarrow> exn option \<times> 'w core" where
  "count_reply us c =
     (if (case map_of us (u ''cache_hit'') of None \<Rightarrow> False | Some v \<Rightarrow> truthy v)
      then (None, c\<lparr>a_hits := a_hits c + 1\<rparr>)
      else (case add_usage us (a_usage c) of (e, us') \<Rightarrow> (e, c\<lparr>a_usage := us'\<rparr>)))"

definition provider_chat ::
    "'w ext \<Rightarrow> chat list \<Rightarrow> pyval \<Rightarrow> 'w core \<Rightarrow> 'w \<Rightarrow> (exn + pyval) \<times> 'w core \<times> 'w" where
  "provider_chat x messages fmt c w =
     (case a_provider c of
        None \<Rightarrow> (Inl (no_provider (a_name c)), c, w)
      | Some p \<Rightarrow>
          (case map_of PROVIDER_DEFAULTS p of
             None \<Rightarrow> (Inl (Exn CKeyError (py_repr_str p)), c, w)
           | Some (base, dflt_model, env_key) \<Rightarrow>
               (let key = (if a_api_key c \<noteq> [] then a_api_key c
                           else (case x_env x w env_key of None \<Rightarrow> [] | Some k \<Rightarrow> k))
                in if key = [] then (Inl (missing_key (a_name c) env_key), c, w)
                   else
                     (case chat_completion x (request_of c base dflt_model key messages fmt) (a_store c) w of
                        (out, store, w1) \<Rightarrow>
                          (let c1 = c\<lparr>a_store := store\<rparr>
                           in case out of
                                Inl e \<Rightarrow> (Inl e, c1, w1)
                              | Inr (content, us) \<Rightarrow>
                                  (case count_reply us c1 of
                                     (Some e, c2) \<Rightarrow> (Inl e, c2, w1)
                                   | (None, c2) \<Rightarrow> (Inr content, c2, w1)))))))"

definition system_messages :: "'w core \<Rightarrow> chat list" where
  "system_messages c = (if a_system c = [] then [] else [\<lparr>c_role = u ''system'', c_content = a_system c\<rparr>])"

definition handle_core ::
    "'w ext \<Rightarrow> pyval \<Rightarrow> chat list \<Rightarrow> 'w core \<Rightarrow> 'w \<Rightarrow> (exn + pyval) \<times> 'w core \<times> 'w" where
  "handle_core x message context c w =
     (case a_handler c of
        Some h \<Rightarrow> (case h message w of (out, w1) \<Rightarrow> (out, c, w1))
      | None \<Rightarrow>
          if a_provider c \<noteq> None
          then provider_chat x
                 (system_messages c @ context @ [\<lparr>c_role = u ''user'', c_content = py_str message\<rparr>]) NoneV c w
          else (Inl (Exn CRuntimeError (u ''agent '' @ quoted (a_name c)
                       @ u '' has no backend (no handler, no provider)'')), c, w))"

definition chat_agent ::
    "'w ext \<Rightarrow> chat list \<Rightarrow> pyval \<Rightarrow> 'w core \<Rightarrow> 'w \<Rightarrow> (exn + pyval) \<times> 'w core \<times> 'w" where
  "chat_agent x messages fmt c w =
     (if a_provider c = None
      then (Inl (Exn CRuntimeError (u ''agent '' @ quoted (a_name c) @ u '' is not an LLM agent'')), c, w)
      else provider_chat x (system_messages c @ messages) fmt c w)"

section \<open>Chains\<close>

text \<open>\<open>_absorb_usage\<close>: what the backend's counters grew by, and its hits.\<close>

fun absorb_counts :: "counters \<Rightarrow> counters \<Rightarrow> counters \<Rightarrow> counters" where
  "absorb_counts [] before us = us"
| "absorb_counts ((k, v) # rest) before us =
     (let delta = v - counter before k
      in absorb_counts rest before (if delta = 0 then us else add_count k delta us))"

definition absorb :: "'w core \<Rightarrow> 'w core \<Rightarrow> 'w core \<Rightarrow> 'w core" where
  "absorb before after c =
     c\<lparr>a_usage := absorb_counts (a_usage after) (a_usage before) (a_usage c),
       a_hits := a_hits c + (a_hits after - a_hits before)\<rparr>"

definition all_failed :: "pystr \<Rightarrow> nat \<Rightarrow> pystr \<Rightarrow> exn" where
  "all_failed name n last_error =
     Exn CAgentError (u ''agent '' @ quoted name @ u '': all '' @ py_int_str (int n)
       @ u '' backends failed (last error: '' @ last_error @ u '')'')"

text \<open>\<open>handle\<close> of an agent, and the loop of a chain over its backends: \<open>n\<close> is how many the chain has,
  \<open>err\<close> is \<open>str(last_error)\<close>.\<close>

fun handle ::
    "'w ext \<Rightarrow> pyval \<Rightarrow> chat list \<Rightarrow> 'w agent \<Rightarrow> 'w \<Rightarrow> (exn + pyval) \<times> 'w agent \<times> 'w"
and try_backends ::
    "'w ext \<Rightarrow> pyval \<Rightarrow> chat list \<Rightarrow> nat \<Rightarrow> pystr \<Rightarrow> 'w core \<Rightarrow> 'w agent list \<Rightarrow> 'w
     \<Rightarrow> (exn + pyval) \<times> 'w core \<times> 'w agent list \<times> 'w" where
  "handle x message context (Plain c) w =
     (case handle_core x message context c w of (out, c1, w1) \<Rightarrow> (out, Plain c1, w1))"
| "handle x message context (Chain c bs) w =
     (case try_backends x message context (length bs) (u ''None'') c bs w of
        (out, c1, bs1, w1) \<Rightarrow> (out, Chain c1 bs1, w1))"
| "try_backends x message context n err c [] w = (Inl (all_failed (a_name c) n err), c, [], w)"
| "try_backends x message context n err c (b # bs) w =
     (case handle x message context b w of
        (Inl e, b1, w1) \<Rightarrow>
          if catches CBudgetExceeded e \<or> \<not> catches CException e then (Inl e, c, b1 # bs, w1)
          else
            (case try_backends x message context n (exc_msg e) c bs w1 of
               (out, c2, bs2, w2) \<Rightarrow> (out, c2, b1 # bs2, w2))
      | (Inr v, b1, w1) \<Rightarrow>
          (let c1 = absorb (base_of b) (base_of b1) c
           in case (case dict_of v of None \<Rightarrow> None | Some d \<Rightarrow> map_of d (u ''error'')) of
                None \<Rightarrow> (Inr v, c1, b1 # bs, w1)
              | Some e \<Rightarrow>
                  (case try_backends x message context n (py_str e) c1 bs w1 of
                     (out, c2, bs2, w2) \<Rightarrow> (out, c2, b1 # bs2, w2))))"

text \<open>\<open>FallbackAgent(...)\<close>: at least one backend, the capabilities of all of them.\<close>

definition new_chain :: "pystr \<Rightarrow> pyval \<Rightarrow> 'w agent list \<Rightarrow> exn + 'w agent" where
  "new_chain name role backends =
     (if backends = []
      then Inl (Exn CValueError (u ''fallback agent needs at least one backend agent''))
      else
        (case new_agent name None role [] [] None None None [] [] 2 60 False
                (stripped (concat (map (\<lambda>b. a_caps (base_of b)) backends))) of
           Inl e \<Rightarrow> Inl e
         | Inr c \<Rightarrow> Inr (Chain c backends)))"

definition describe_core :: "'w core \<Rightarrow> (pystr \<times> pyval) list" where
  "describe_core c =
     [(u ''name'', StrV (a_name c)), (u ''role'', a_role c),
      (u ''provider'', case a_provider c of None \<Rightarrow> NoneV | Some p \<Rightarrow> StrV p),
      (u ''model'', case a_model c of None \<Rightarrow> NoneV | Some m \<Rightarrow> StrV m),
      (u ''capabilities'', ListV (map StrV (py_sorted_set (a_caps c)))),
      (u ''has_handler'', BoolV (a_handler c \<noteq> None)),
      (u ''total_usage'', DictV (map (\<lambda>(k, n). (k, IntV n)) (a_usage c))),
      (u ''cache'', BoolV (a_cache c)), (u ''cache_hits'', IntV (a_hits c))]"

text \<open>A chain adds the names of its backends.\<close>

definition describe :: "'w agent \<Rightarrow> (pystr \<times> pyval) list" where
  "describe a =
     (case a of
        Plain c \<Rightarrow> describe_core c
      | Chain c bs \<Rightarrow> describe_core c @ [(u ''backends'', ListV (map (\<lambda>b. StrV (a_name (base_of b))) bs))])"

definition agent_repr :: "'w agent \<Rightarrow> pystr" where
  "agent_repr a =
     (let c = base_of a; optional = (\<lambda>x. case x of None \<Rightarrow> u ''None'' | Some t \<Rightarrow> py_repr_str t)
      in u ''Agent(name='' @ py_repr_str (a_name c) @ u '', provider='' @ optional (a_provider c)
         @ u '', model='' @ optional (a_model c) @ u '')'')"

section \<open>The factory\<close>

text \<open>The keyword arguments of \<open>create_agent\<close>, absent ones at their defaults; \<open>kw_timeout\<close> is the outcome
  of \<open>float(kwargs["timeout"])\<close>.\<close>

record 'w kwargs =
  kw_role :: pyval
  kw_system :: pystr
  kw_model :: "pystr option"
  kw_temperature :: "real option"
  kw_max_tokens :: "int option"
  kw_api_key :: pystr
  kw_base_url :: pystr
  kw_retries :: pyval
  kw_timeout :: "(exn + real) option"
  kw_cache :: pyval
  kw_caps :: pyval
  kw_template :: pystr
  kw_url :: pystr
  kw_handler :: "'w handler option"
  kw_backends :: "'w agent list"
  kw_command :: pystr
  kw_args :: "pystr list"
  kw_cwd :: pyval
  kw_encoding :: pystr

definition mock_handler :: "'w ext \<Rightarrow> pystr \<Rightarrow> pystr \<Rightarrow> 'w handler" where
  "mock_handler x name template = (\<lambda>msg w.
     (Inr (StrV (case x_format x template msg name of None \<Rightarrow> py_str msg | Some t \<Rightarrow> t)), w))"

definition echo_handler :: "pystr \<Rightarrow> 'w handler" where
  "echo_handler name = (\<lambda>msg w. (Inr (StrV (name @ u '' echo: '' @ py_str msg)), w))"

text \<open>The reply of an HTTP endpoint: its JSON, or its text when it is none.\<close>

definition http_handler :: "'w ext \<Rightarrow> pystr \<Rightarrow> real \<Rightarrow> 'w handler" where
  "http_handler x url timeout = (\<lambda>msg w.
     (case x_fetch x url (DictV [(u ''message'', msg)]) timeout w of
        (Inl e, w1) \<Rightarrow> (Inl e, w1)
      | (Inr (Some v, text), w1) \<Rightarrow> (Inr v, w1)
      | (Inr (None, text), w1) \<Rightarrow> (map_sum id StrV text, w1)))"

definition cli_text :: "pystr \<Rightarrow> pystr \<Rightarrow> exn" where
  "cli_text name t = Exn CRuntimeError (u ''cli agent '' @ name @ t)"

definition cli_handler ::
    "'w ext \<Rightarrow> pystr \<Rightarrow> pystr \<Rightarrow> pystr list \<Rightarrow> real \<Rightarrow> pyval \<Rightarrow> pystr \<Rightarrow> 'w handler" where
  "cli_handler x name command args timeout cwd enc = (\<lambda>msg w.
     (case x_run x (command # args @ [py_str msg]) timeout cwd enc w of
        (TimedOut, w1) \<Rightarrow>
          (Inl (cli_text name (u '' timed out after '' @ x_g x timeout @ u '' seconds ('' @ [36229, 26102] @ u '')'')), w1)
      | (CannotStart, w1) \<Rightarrow>
          (Inl (cli_text name (u '': command not found ('' @ [21629, 20196, 19981, 23384, 22312] @ u ''): '' @ command)), w1)
      | (RunRaises e, w1) \<Rightarrow> (Inl e, w1)
      | (Completed rc out err, w1) \<Rightarrow>
          if rc \<noteq> 0
          then (Inl (cli_text name (u '' exited '' @ py_int_str rc @ u '': '' @ py_strip err)), w1)
          else (Inr (StrV (if py_strip out \<noteq> [] then py_strip out else py_strip err)), w1)))"

definition timeout_or :: "real \<Rightarrow> 'w kwargs \<Rightarrow> exn + real" where
  "timeout_or dflt k = (case kw_timeout k of None \<Rightarrow> Inr dflt | Some t \<Rightarrow> t)"

text \<open>\<open>Agent(name, handler, role=..., capabilities=...)\<close>.\<close>

definition handler_agent :: "pystr \<Rightarrow> 'w kwargs \<Rightarrow> 'w handler \<Rightarrow> exn + 'w agent" where
  "handler_agent name k h =
     (case as_capabilities (kw_caps k) of
        Inl e \<Rightarrow> Inl e
      | Inr caps \<Rightarrow>
          map_sum id Plain
            (new_agent name (Some h) (kw_role k) [] [] None None None [] [] 2 60 False caps))"

definition provider_agent :: "pystr \<Rightarrow> pystr \<Rightarrow> 'w kwargs \<Rightarrow> exn + 'w agent" where
  "provider_agent kind name k =
     (case py_int (kw_retries k) of
        Inl e \<Rightarrow> Inl e
      | Inr retries \<Rightarrow>
          (case timeout_or 60 k of
             Inl e \<Rightarrow> Inl e
           | Inr timeout \<Rightarrow>
               (case as_capabilities (kw_caps k) of
                  Inl e \<Rightarrow> Inl e
                | Inr caps \<Rightarrow>
                    map_sum id Plain
                      (new_agent name None (kw_role k) (kw_system k) kind (kw_model k) (kw_temperature k)
                         (kw_max_tokens k) (kw_api_key k) (kw_base_url k) retries timeout
                         (as_bool (kw_cache k)) caps))))"

definition create_agent :: "'w ext \<Rightarrow> pystr \<Rightarrow> pystr \<Rightarrow> 'w kwargs \<Rightarrow> exn + 'w agent" where
  "create_agent x kind0 name k =
     (let kind = py_lower kind0
      in if kind = u ''fallback''
         then (if kw_backends k = []
               then Inl (Exn CValueError (u ''fallback agent requires '' @ quoted (u ''backends'') @ u '' kwarg (a list of Agent)''))
               else new_chain name (kw_role k) (kw_backends k))
         else if kind = u ''deepseek'' \<or> kind = u ''openai'' then provider_agent kind name k
         else if kind = u ''mock'' then handler_agent name k (mock_handler x name (kw_template k))
         else if kind = u ''echo'' then handler_agent name k (echo_handler name)
         else if kind = u ''http''
         then (case timeout_or 5 k of
                 Inl e \<Rightarrow> Inl e
               | Inr timeout \<Rightarrow>
                   if kw_url k = []
                   then Inl (Exn CValueError (u ''http agent requires '' @ quoted (u ''url'') @ u '' kwarg''))
                   else handler_agent name k (http_handler x (kw_url k) timeout))
         else if kind = u ''custom''
         then (case kw_handler k of
                 None \<Rightarrow> Inl (Exn CValueError (u ''custom agent requires a callable '' @ quoted (u ''handler'') @ u '' kwarg''))
               | Some h \<Rightarrow> handler_agent name k h)
         else if kind = u ''cli''
         then (if kw_command k = []
               then Inl (Exn CValueError (u ''cli agent requires '' @ quoted (u ''command'') @ u '' kwarg''))
               else
                 (case timeout_or 300 k of
                    Inl e \<Rightarrow> Inl e
                  | Inr timeout \<Rightarrow>
                      handler_agent name k
                        (cli_handler x name (kw_command k) (kw_args k) timeout (kw_cwd k) (kw_encoding k))))
         else Inl (Exn CValueError (u ''Unknown agent kind: '' @ kind
                @ u '' (mock|echo|http|deepseek|openai|custom|cli)'')))"

text \<open>\<open>from_config\<close>: \<open>kind\<close> and \<open>name\<close> taken out of the dictionary, \<open>read\<close> spelling out the rest as keyword
  arguments.\<close>

definition from_config ::
    "'w ext \<Rightarrow> ((pystr \<times> pyval) list \<Rightarrow> 'w kwargs) \<Rightarrow> (pystr \<times> pyval) list \<Rightarrow> exn + 'w agent" where
  "from_config x read cfg =
     (case map_of cfg (u ''name'') of
        None \<Rightarrow> Inl (Exn CKeyError (py_repr_str (u ''name'')))
      | Some name \<Rightarrow>
          (let k = read (AList.delete (u ''kind'') (AList.delete (u ''name'') cfg));
               kind = (case map_of cfg (u ''kind'') of None \<Rightarrow> NoneV | Some v \<Rightarrow> v)
           in case kind of
                StrV s \<Rightarrow> create_agent x s (py_str name) k
              | NoneV \<Rightarrow> create_agent x (if kw_handler k \<noteq> None then u ''custom'' else u ''mock'') (py_str name) k
              | v \<Rightarrow> if truthy v then Inl (Exn CAttributeError (u ''object has no attribute lower''))
                     else create_agent x [] (py_str name) k))"

fun from_configs ::
    "'w ext \<Rightarrow> ((pystr \<times> pyval) list \<Rightarrow> 'w kwargs) \<Rightarrow> (pystr \<times> pyval) list list \<Rightarrow> exn + 'w agent list" where
  "from_configs x read [] = Inr []"
| "from_configs x read (c # cs) =
     (case from_config x read c of
        Inl e \<Rightarrow> Inl e
      | Inr a \<Rightarrow> (case from_configs x read cs of Inl e \<Rightarrow> Inl e | Inr as \<Rightarrow> Inr (a # as)))"

section \<open>Lemmas\<close>

text \<open>The world before backend \<open>i\<close> of a chain, its outcome there, and which outcomes hand over.\<close>

fun backend_world :: "'w ext \<Rightarrow> pyval \<Rightarrow> chat list \<Rightarrow> 'w agent list \<Rightarrow> 'w \<Rightarrow> nat \<Rightarrow> 'w" where
  "backend_world x m ctx (b # bs) w (Suc i) = backend_world x m ctx bs (snd (snd (handle x m ctx b w))) i"
| "backend_world x m ctx bs w i = w"

definition backend_outcome :: "'w ext \<Rightarrow> pyval \<Rightarrow> chat list \<Rightarrow> 'w agent list \<Rightarrow> 'w \<Rightarrow> nat \<Rightarrow> exn + pyval" where
  "backend_outcome x m ctx bs w i = fst (handle x m ctx (bs ! i) (backend_world x m ctx bs w i))"

fun hands_over :: "exn + pyval \<Rightarrow> bool" where
  "hands_over (Inl e) \<longleftrightarrow> catches CException e \<and> \<not> catches CBudgetExceeded e"
| "hands_over (Inr v) \<longleftrightarrow> is_error_dict v"

lemma error_item_None: "(case dict_of v of None \<Rightarrow> None | Some d \<Rightarrow> map_of d (u ''error'')) = None \<longleftrightarrow> \<not> is_error_dict v"
  by (auto simp: is_error_dict_def split: option.splits)

lemma absorb_name [simp]: "a_name (absorb b b' c) = a_name c"
  by (simp add: absorb_def)

lemma try_backends_step:
  assumes h: "handle x m ctx b w = (r, b1, w1)"
  shows "try_backends x m ctx n err c (b # bs) w =
     (let c1 = (case r of Inl e \<Rightarrow> c | Inr v \<Rightarrow> absorb (base_of b) (base_of b1) c)
      in if hands_over r
         then
           (case try_backends x m ctx n
                   (case r of Inl e \<Rightarrow> exc_msg e | Inr v \<Rightarrow> py_str (the (map_of (the (dict_of v)) (u ''error''))))
                   c1 bs w1 of
              (out, c2, bs2, w2) \<Rightarrow> (out, c2, b1 # bs2, w2))
         else (r, c1, b1 # bs, w1))"
proof -
  show ?thesis
  proof (cases r)
    case (Inl e)
    with h show ?thesis by (auto simp: Let_def)
  next
    case (Inr v)
    show ?thesis
    proof (cases "is_error_dict v")
      case True
      then obtain d e where "dict_of v = Some d" "map_of d (u ''error'') = Some e"
        by (auto simp: is_error_dict_def split: option.splits)
      with h Inr True show ?thesis by (simp add: Let_def)
    next
      case False
      then have "(case dict_of v of None \<Rightarrow> None | Some d \<Rightarrow> map_of d (u ''error'')) = None"
        by (simp add: error_item_None)
      with h Inr False show ?thesis by (simp add: Let_def)
    qed
  qed
qed

lemma try_backends_spec:
  assumes "try_backends x m ctx n err c bs w = (out, c', bs', w')"
  shows "\<exists>k \<le> length bs. (\<forall>i < k. hands_over (backend_outcome x m ctx bs w i))
    \<and> (if k < length bs
       then \<not> hands_over (backend_outcome x m ctx bs w k) \<and> out = backend_outcome x m ctx bs w k
       else \<exists>t. out = Inl (all_failed (a_name c) n t))
    \<and> length bs' = length bs \<and> drop (Suc k) bs' = drop (Suc k) bs"
  using assms
proof (induction bs arbitrary: err c w out c' bs' w')
  case Nil
  then show ?case by auto
next
  case (Cons b bs)
  obtain r b1 w1 where h: "handle x m ctx b w = (r, b1, w1)" by (metis prod.collapse)
  have zero: "backend_outcome x m ctx (b # bs) w 0 = r" by (simp add: backend_outcome_def h)
  have suc: "backend_outcome x m ctx (b # bs) w (Suc i) = backend_outcome x m ctx bs w1 i" for i
    by (simp add: backend_outcome_def h)
  show ?case
  proof (cases "hands_over r")
    case False
    with Cons.prems have "out = r" "bs' = b1 # bs" unfolding try_backends_step [OF h] by (simp_all add: h Let_def)
    with False show ?thesis by (intro exI [of _ 0]) (simp add: zero)
  next
    case True
    then obtain err2 c2 bs2 where t: "try_backends x m ctx n err2 c2 bs w1 = (out, c', bs2, w')"
      "bs' = b1 # bs2" "a_name c2 = a_name c"
      using Cons.prems unfolding try_backends_step [OF h]
      by (auto simp: h Let_def split: prod.splits sum.splits)
    from Cons.IH [OF t(1)] obtain k where k: "k \<le> length bs"
      "\<forall>i < k. hands_over (backend_outcome x m ctx bs w1 i)"
      "if k < length bs then \<not> hands_over (backend_outcome x m ctx bs w1 k) \<and> out = backend_outcome x m ctx bs w1 k
       else \<exists>t. out = Inl (all_failed (a_name c2) n t)"
      "length bs2 = length bs" "drop (Suc k) bs2 = drop (Suc k) bs" by blast
    have "\<forall>i < Suc k. hands_over (backend_outcome x m ctx (b # bs) w i)"
      using k(2) True by (auto simp: less_Suc_eq_0_disj zero suc)
    with k t(2,3) show ?thesis by (intro exI [of _ "Suc k"]) (auto simp: suc split: if_splits)
  qed
qed

text \<open>Counters only gain keys, and a chain gains what its backends gained.\<close>

lemma counter_add_count [simp]: "counter (add_count k n us) j = counter us j + (if j = k then n else 0)"
  by (simp add: counter_def add_count_def dict_get_update)

lemma keys_add_count [simp]: "fst ` set (add_count k n us) = insert k (fst ` set us)"
proof -
  have "set (dkeys (add_count k n us)) = insert k (set (dkeys us))"
    unfolding add_count_def dkeys_update by auto
  then show ?thesis by simp
qed

lemma dict_ok_add_count [simp]: "dict_ok us \<Longrightarrow> dict_ok (add_count k n us)"
  by (simp add: add_count_def)

lemma counter_Cons [simp]: "counter ((k, v) # us) j = (if j = k then v else counter us j)"
  by (simp add: counter_def)

lemma counter_missing: "j \<notin> set (dkeys us) \<Longrightarrow> counter us j = 0"
  by (auto simp: counter_def dest: weak_map_of_SomeI split: option.splits) (metis map_of_SomeD fst_conv image_eqI)

definition grows :: "counters \<Rightarrow> counters \<Rightarrow> bool" where
  "grows us us' \<longleftrightarrow> dict_ok us' \<and> fst ` set us \<subseteq> fst ` set us'"

lemma grows_add_count: "dict_ok us \<Longrightarrow> grows us (add_count k n us)"
  unfolding grows_def keys_add_count by (simp add: subset_insertI)

lemma grows_dict: "grows us us' \<Longrightarrow> dict_ok us'"
  by (simp add: grows_def)

lemma grows_refl: "dict_ok us \<Longrightarrow> grows us us"
  by (simp add: grows_def)

lemma grows_trans: "grows us us' \<Longrightarrow> grows us' us'' \<Longrightarrow> grows us us''"
  by (auto simp: grows_def)

lemma add_usage_grows: "dict_ok us \<Longrightarrow> grows us (snd (add_usage vs us))"
proof (induction vs us rule: add_usage.induct)
  case (2 k v rest us)
  show ?case
  proof (cases "as_number v")
    case (Inr n)
    with 2 have "grows (add_count k n us) (snd (add_usage rest (add_count k n us)))" by simp
    with Inr 2(2) show ?thesis using grows_trans [OF grows_add_count] by simp
  qed (use 2 in \<open>simp add: grows_refl\<close>)
qed (simp add: grows_refl)

lemma absorb_counts_grows: "dict_ok us \<Longrightarrow> grows us (absorb_counts vs before us)"
proof (induction vs before us rule: absorb_counts.induct)
  case (2 k v rest before us)
  let ?us = "add_count k (v - counter before k) us"
  show ?case
  proof (cases "v = counter before k")
    case False
    have "grows ?us (absorb_counts rest before ?us)" using 2 False by simp
    then show ?thesis using False grows_trans [OF grows_add_count [OF 2(2)]] by (simp add: Let_def)
  qed (use 2 in \<open>simp add: Let_def\<close>)
qed (simp add: grows_refl)

lemma absorb_counts_counter:
  "dict_ok vs \<Longrightarrow> counter (absorb_counts vs before us) j
     = counter us j + (if j \<in> set (dkeys vs) then counter vs j - counter before j else 0)"
  by (induction vs before us rule: absorb_counts.induct) (auto simp: Let_def dict_ok_def)

lemma absorb_counter:
  assumes "grows (a_usage b) (a_usage b')"
  shows "counter (a_usage (absorb b b' c)) j = counter (a_usage c) j + (counter (a_usage b') j - counter (a_usage b) j)"
proof (cases "j \<in> set (dkeys (a_usage b'))")
  case False
  then have "j \<notin> set (dkeys (a_usage b))" using assms by (auto simp: grows_def)
  with False assms show ?thesis
    by (simp add: absorb_def absorb_counts_counter grows_def counter_missing)
qed (use assms in \<open>simp add: absorb_def absorb_counts_counter grows_def\<close>)

fun agent_ok :: "'w agent \<Rightarrow> bool" where
  "agent_ok (Plain c) \<longleftrightarrow> dict_ok (a_usage c)"
| "agent_ok (Chain c bs) \<longleftrightarrow> dict_ok (a_usage c) \<and> list_all agent_ok bs"

lemma count_reply_grows:
  "dict_ok (a_usage c) \<Longrightarrow> grows (a_usage c) (a_usage (snd (count_reply us c)))"
  using add_usage_grows [of "a_usage c" us] by (auto simp: count_reply_def grows_refl split: prod.splits)

lemma handle_core_grows:
  assumes "dict_ok (a_usage c)" "handle_core x m ctx c w = (out, c', w')"
  shows "grows (a_usage c) (a_usage c')"
proof -
  have r: "grows (a_usage c) (a_usage c2)" if "count_reply us (c\<lparr>a_store := st\<rparr>) = (eo, c2)" for us st eo c2
    using count_reply_grows [of "c\<lparr>a_store := st\<rparr>" us] assms(1) that by simp
  have g: "grows (a_usage c) (a_usage c')" if "provider_chat x ms fmt c w = (out, c', w')" for ms fmt
    using that assms(1) by (auto simp: provider_chat_def Let_def grows_refl dest: r
        split: option.splits prod.splits if_splits sum.splits)
  show ?thesis
    using assms g by (auto simp: handle_core_def grows_refl split: option.splits prod.splits if_splits)
qed

lemma handle_grows:
  "handle x m ctx a w = (out, a', w') \<Longrightarrow> agent_ok a \<Longrightarrow>
     agent_ok a' \<and> grows (a_usage (base_of a)) (a_usage (base_of a'))"
  "try_backends x m ctx n err c bs w = (out, c', bs', w') \<Longrightarrow> dict_ok (a_usage c) \<Longrightarrow> list_all agent_ok bs \<Longrightarrow>
     grows (a_usage c) (a_usage c') \<and> list_all agent_ok bs'"
proof (induction x m ctx a w and x m ctx n err c bs w arbitrary: out a' w' and out c' bs' w'
    rule: handle_try_backends.induct)
  case (1 x m ctx c w)
  obtain r c1 w1 where h: "handle_core x m ctx c w = (r, c1, w1)" by (metis prod.collapse)
  with 1 handle_core_grows [OF _ h] show ?case by (auto simp: grows_dict)
next
  case (2 x m ctx c bs w)
  obtain r c1 bs1 w1 where h: "try_backends x m ctx (length bs) (u ''None'') c bs w = (r, c1, bs1, w1)"
    by (metis prod.collapse)
  with 2 show ?case by (auto simp: grows_dict)
next
  case (3 x m ctx n err c w)
  then show ?case by (simp add: grows_refl)
next
  case (4 x m ctx n err c b bs w)
  obtain r b1 w1 where h: "handle x m ctx b w = (r, b1, w1)" by (metis prod.collapse)
  have b1: "agent_ok b1 \<and> grows (a_usage (base_of b)) (a_usage (base_of b1))"
    using 4(1) [OF h] 4(6) by simp
  have ab: "grows (a_usage c) (a_usage (absorb (base_of b) (base_of b1) c))"
    using absorb_counts_grows [OF 4(5)] by (simp add: absorb_def)
  show ?case
  proof (cases r)
    case (Inl e)
    with h b1 4(2) [OF h [symmetric] Inl refl] 4(4-6) show ?thesis
      by (auto simp: grows_refl split: if_splits prod.splits)
  next
    case (Inr v)
    show ?thesis
    proof (cases "case dict_of v of None \<Rightarrow> None | Some d \<Rightarrow> map_of d (u ''error'')")
      case None
      with h b1 Inr 4(4,6) ab show ?thesis by (auto simp: Let_def)
    next
      case (Some e)
      obtain c2 bs2 where t: "try_backends x m ctx n (py_str e) (absorb (base_of b) (base_of b1) c) bs w1 = (out, c2, bs2, w')"
        "c' = c2" "bs' = b1 # bs2"
        using 4(4) h Inr Some by (auto simp: Let_def split: prod.splits)
      have "dict_ok (a_usage (absorb (base_of b) (base_of b1) c))" using ab by (simp add: grows_def)
      with 4(3) [OF h [symmetric] Inr refl refl Some t(1)] 4(6) have
        "grows (a_usage (absorb (base_of b) (base_of b1) c)) (a_usage c2) \<and> list_all agent_ok bs2" by simp
      with t(2,3) b1 ab show ?thesis by (auto intro: grows_trans)
    qed
  qed
qed

text \<open>What the backends that returned counted, for one counter and for the hits.\<close>

definition backend_gain :: "(exn + pyval) \<Rightarrow> ('w core \<Rightarrow> int) \<Rightarrow> 'w agent \<Rightarrow> 'w agent \<Rightarrow> int" where
  "backend_gain out f b b' = (case out of Inl e \<Rightarrow> 0 | Inr v \<Rightarrow> f (base_of b') - f (base_of b))"

definition total_gain ::
    "'w ext \<Rightarrow> pyval \<Rightarrow> chat list \<Rightarrow> 'w \<Rightarrow> ('w core \<Rightarrow> int) \<Rightarrow> 'w agent list \<Rightarrow> 'w agent list \<Rightarrow> int" where
  "total_gain x m ctx w f bs bs' =
     (\<Sum>i < length bs. backend_gain (backend_outcome x m ctx bs w i) f (bs ! i) (bs' ! i))"

lemma total_gain_Nil [simp]: "total_gain x m ctx w f [] bs' = 0"
  by (simp add: total_gain_def)

lemma total_gain_same: "total_gain x m ctx w f bs bs = 0"
  by (simp add: total_gain_def backend_gain_def split: sum.splits cong: sum.cong)
    (intro sum.neutral, simp add: backend_gain_def split: sum.splits)

lemma total_gain_Cons:
  assumes "handle x m ctx b w = (r, b1, w1)"
  shows "total_gain x m ctx w f (b # bs) (b' # bs') = backend_gain r f b b' + total_gain x m ctx w1 f bs bs'"
  unfolding total_gain_def length_Cons sum.lessThan_Suc_shift by (simp add: backend_outcome_def assms)

lemma try_backends_gain:
  assumes "try_backends x m ctx n err c bs w = (out, c', bs', w')" "list_all agent_ok bs"
  shows "counter (a_usage c') j = counter (a_usage c) j + total_gain x m ctx w (\<lambda>k. counter (a_usage k) j) bs bs'
    \<and> a_hits c' = a_hits c + total_gain x m ctx w a_hits bs bs'"
  using assms
proof (induction bs arbitrary: err c w out c' bs' w')
  case Nil
  then show ?case by simp
next
  case (Cons b bs)
  obtain r b1 w1 where h: "handle x m ctx b w = (r, b1, w1)" by (metis prod.collapse)
  have g: "grows (a_usage (base_of b)) (a_usage (base_of b1))"
    using handle_grows(1) [OF h] Cons.prems(2) by simp
  let ?c2 = "case r of Inl e \<Rightarrow> c | Inr v \<Rightarrow> absorb (base_of b) (base_of b1) c"
  have c2: "counter (a_usage ?c2) j = counter (a_usage c) j + backend_gain r (\<lambda>k. counter (a_usage k) j) b b1"
    "a_hits ?c2 = a_hits c + backend_gain r a_hits b b1"
    using absorb_counter [OF g] by (auto simp: backend_gain_def absorb_def split: sum.splits)
  show ?case
  proof (cases "hands_over r")
    case False
    with Cons.prems have "c' = ?c2" "bs' = b1 # bs"
      unfolding try_backends_step [OF h] by (auto simp: h Let_def split: sum.splits)
    then show ?thesis by (simp only: total_gain_Cons [OF h] total_gain_same c2) simp
  next
    case True
    then obtain err2 bs2 where t: "try_backends x m ctx n err2 ?c2 bs w1 = (out, c', bs2, w')" "bs' = b1 # bs2"
      using Cons.prems unfolding try_backends_step [OF h]
      by (auto simp: h Let_def split: prod.splits)
    from Cons.IH [OF t(1)] Cons.prems(2) show ?thesis
      by (simp add: t(2) total_gain_Cons [OF h] c2)
  qed
qed

section \<open>Properties\<close>

text \<open>
  The first backend that answers wins: a chain asks its backends in order, each in the world the
  one before left, and only as long as they raise an ordinary exception or return an error
  dictionary; the outcome of the first other one is the outcome of the chain, be it an answer or a
  \<open>BudgetExceeded\<close>, and the backends behind it are not touched. When all of them hand over, the chain
  raises \<open>AgentError\<close>.
\<close>

theorem first_answer_wins:
  assumes "handle x m ctx (Chain c bs) w = (out, Chain c' bs', w')"
  shows "\<exists>k \<le> length bs. (\<forall>i < k. hands_over (backend_outcome x m ctx bs w i))
    \<and> (if k < length bs
       then \<not> hands_over (backend_outcome x m ctx bs w k) \<and> out = backend_outcome x m ctx bs w k
       else \<exists>t. out = Inl (all_failed (a_name c) (length bs) t))
    \<and> drop (Suc k) bs' = drop (Suc k) bs"
proof -
  obtain bs2 where t: "try_backends x m ctx (length bs) (u ''None'') c bs w = (out, c', bs2, w')" "bs' = bs2"
    using assms by (auto split: prod.splits)
  from try_backends_spec [OF t(1)] t(2) show ?thesis by blast
qed

definition const_agent :: "pystr \<Rightarrow> exn + pyval \<Rightarrow> unit agent" where
  "const_agent name out =
     Plain \<lparr>a_name = name, a_role = NoneV, a_system = [], a_provider = None, a_model = None,
            a_temperature = None, a_max_tokens = None, a_api_key = [], a_base_url = [], a_retries = 2,
            a_timeout = 60, a_caps = [], a_cache = False, a_store = None, a_hits = 0,
            a_usage = zero_usage, a_handler = Some (\<lambda>msg w. (out, w))\<rparr>"

definition idle :: "unit ext" where
  "idle =
     \<lparr>x_post = (\<lambda>url payload auth timeout w. (OtherError bad_json, w)), x_uniform = (\<lambda>w. (0, w)),
      x_sleep = (\<lambda>d w. w), x_clock = (\<lambda>w. 0), x_env = (\<lambda>w k. None), x_float = (\<lambda>s. None),
      x_dumps = (\<lambda>v. []), x_digest = (\<lambda>f. []), x_format = (\<lambda>t m n. None),
      x_fetch = (\<lambda>url body timeout w. (Inl bad_json, w)), x_run = (\<lambda>argv timeout cwd enc w. (CannotStart, w)),
      x_g = (\<lambda>r. []), x_stamp = (\<lambda>w. []), x_uuid = (\<lambda>w. [])\<rparr>"

definition sample_chain :: "unit agent list" where
  "sample_chain = [const_agent (u ''a'') (Inl bad_json), const_agent (u ''b'') (Inr (StrV (u ''hi'')))]"

lemma sample_chain_run:
  "handle idle NoneV [] (Chain (base_of (const_agent (u ''c'') (Inr NoneV))) sample_chain) ()
   = (Inr (StrV (u ''hi'')), Chain (base_of (const_agent (u ''c'') (Inr NoneV))) sample_chain, ())"
  by (simp add: sample_chain_def const_agent_def handle_core_def catches_def bad_json_def subclass_iffs
      absorb_def Let_def zero_usage_def counter_def)

theorem first_answer_wins_witness:
  "\<exists>k \<le> 2. \<forall>i < k. hands_over (backend_outcome idle NoneV [] sample_chain () i)"
  using first_answer_wins [OF sample_chain_run] by (auto simp: sample_chain_def)

text \<open>
  Nothing is lost or counted twice: each usage counter of a chain, and its count of cache hits,
  grows by exactly what the counters of the backends that returned grew by during the call.
\<close>

theorem chain_usage_conserved:
  assumes "handle x m ctx (Chain c bs) w = (out, Chain c' bs', w')" "list_all agent_ok bs"
  shows "counter (a_usage c') j - counter (a_usage c) j
      = (\<Sum>i < length bs. backend_gain (backend_outcome x m ctx bs w i) (\<lambda>k. counter (a_usage k) j) (bs ! i) (bs' ! i))
    \<and> a_hits c' - a_hits c = (\<Sum>i < length bs. backend_gain (backend_outcome x m ctx bs w i) a_hits (bs ! i) (bs' ! i))"
proof -
  obtain bs2 where t: "try_backends x m ctx (length bs) (u ''None'') c bs w = (out, c', bs2, w')" "bs' = bs2"
    using assms(1) by (auto split: prod.splits)
  from try_backends_gain [OF t(1) assms(2), of j] t(2) show ?thesis by (simp add: total_gain_def)
qed

theorem chain_usage_conserved_witness:
  "(\<Sum>i < length sample_chain. backend_gain (backend_outcome idle NoneV [] sample_chain () i) a_hits
      (sample_chain ! i) (sample_chain ! i)) = 0"
proof -
  have "list_all agent_ok sample_chain"
    by (simp add: sample_chain_def const_agent_def zero_usage_def dict_ok_def)
  from chain_usage_conserved [OF sample_chain_run this] show ?thesis by simp
qed

end
