(* ===== verification/Deadline.thy ===== *)
theory Deadline
  imports Errors
begin

text \<open>
  \<open>runtime/deadline.py\<close>, and the context variables it and \<open>budget.py\<close>, \<open>observability.py\<close> rest on.
  A context variable is its value with the tokens of the \<open>set\<close> calls that were not reset yet, each
  with the value it replaced. The monotonic clock is an argument of every function that reads it.
\<close>

section \<open>Context variables\<close>

record 'a cvar =
  cv_value :: "'a option"
  cv_open :: "(nat \<times> 'a option) list"
  cv_next :: nat

definition cvar_empty :: "'a cvar" where
  "cvar_empty = \<lparr>cv_value = None, cv_open = [], cv_next = 0\<rparr>"

definition cv_set :: "'a option \<Rightarrow> 'a cvar \<Rightarrow> nat \<times> 'a cvar" where
  "cv_set v c =
     (cv_next c,
      \<lparr>cv_value = v, cv_open = (cv_next c, cv_value c) # cv_open c, cv_next = Suc (cv_next c)\<rparr>)"

definition cv_reset :: "nat \<Rightarrow> 'a cvar \<Rightarrow> exn + 'a cvar" where
  "cv_reset tok c =
     (case map_of (cv_open c) tok of
        None \<Rightarrow> Inl (Exn CRuntimeError (u ''Token has already been used once''))
      | Some old \<Rightarrow> Inr (c\<lparr>cv_value := old, cv_open := AList.delete tok (cv_open c)\<rparr>))"

definition cvar_ok :: "'a cvar \<Rightarrow> bool" where
  "cvar_ok c \<longleftrightarrow> dict_ok (cv_open c) \<and> (\<forall>k \<in> set (dkeys (cv_open c)). k < cv_next c)"

lemma cvar_ok_empty [simp]: "cvar_ok cvar_empty"
  by (simp add: cvar_ok_def cvar_empty_def)

lemma cvar_ok_set: "cvar_ok c \<Longrightarrow> cvar_ok (snd (cv_set v c))"
  by (auto simp: cvar_ok_def cv_set_def dict_ok_def)

lemma cvar_ok_reset: "cvar_ok c \<Longrightarrow> cv_reset tok c = Inr c' \<Longrightarrow> cvar_ok c'"
  by (fastforce simp: cvar_ok_def cv_reset_def set_delete split: option.splits)

text \<open>A \<open>set\<close> undone by its token restores the variable, whatever was set and reset in between.\<close>

lemma cv_set_reset:
  assumes "cvar_ok c" "cv_set v c = (tok, c1)" "cv_open c2 = cv_open c1"
  shows "\<exists>c3. cv_reset tok c2 = Inr c3 \<and> cv_value c3 = cv_value c \<and> cv_open c3 = cv_open c"
proof -
  have "cv_next c \<notin> set (dkeys (cv_open c))" using assms(1) by (auto simp: cvar_ok_def)
  then have "AList.delete (cv_next c) (cv_open c) = cv_open c"
    by (simp add: AList.delete_id)
  with assms(2,3) show ?thesis by (auto simp: cv_set_def cv_reset_def)
qed

text \<open>
  What the run context asks of its variables, whoever provides them: leaving what was entered brings back what was
  observed before, provided everything entered in between has been left.
\<close>

locale scoped_variable =
  fixes enter :: "'v \<Rightarrow> 'c \<Rightarrow> exn + 't \<times> 'c" and leave :: "'t \<Rightarrow> 'c \<Rightarrow> exn + 'c" and observe :: "'c \<Rightarrow> 'o"
    and wf :: "'c \<Rightarrow> bool" and brackets :: "'c \<Rightarrow> 'b"
  assumes enter_wf: "wf c \<Longrightarrow> enter v c = Inr (tok, c1) \<Longrightarrow> wf c1"
    and leave_wf: "wf c \<Longrightarrow> leave tok c = Inr c1 \<Longrightarrow> wf c1"
    and leave_enter: "wf c \<Longrightarrow> enter v c = Inr (tok, c1) \<Longrightarrow> brackets c2 = brackets c1 \<Longrightarrow> observe c2 = observe c1 \<Longrightarrow>
      \<exists>c3. leave tok c2 = Inr c3 \<and> observe c3 = observe c \<and> brackets c3 = brackets c"
begin

lemma bracket:
  "wf c \<Longrightarrow> enter v c = Inr (tok, c1) \<Longrightarrow> \<exists>c2. leave tok c1 = Inr c2 \<and> observe c2 = observe c \<and> wf c2"
  using leave_enter [of c v tok c1 c1] leave_wf enter_wf by blast

lemma nested:
  assumes "wf c" "enter v c = Inr (tok, c1)" "enter v' c1 = Inr (tok', c2)"
  shows "\<exists>c3 c4. leave tok' c2 = Inr c3 \<and> observe c3 = observe c1 \<and> leave tok c3 = Inr c4 \<and> observe c4 = observe c \<and> wf c4"
proof -
  have wf1: "wf c1" and wf2: "wf c2" using enter_wf assms by blast+
  obtain c3 where c3: "leave tok' c2 = Inr c3" "observe c3 = observe c1" "brackets c3 = brackets c1"
    using leave_enter [OF wf1 assms(3) refl refl] by blast
  obtain c4 where "leave tok c3 = Inr c4" "observe c4 = observe c"
    using leave_enter [OF assms(1,2) c3(3,2)] by blast
  with c3 wf2 leave_wf show ?thesis by blast
qed

end

section \<open>Run deadlines\<close>

text \<open>\<open>seconds\<close> is the outcome of \<open>float(seconds)\<close> when it is not \<open>None\<close>.\<close>

definition start_run_deadline ::
    "real \<Rightarrow> (exn + real) option \<Rightarrow> real cvar \<Rightarrow> exn + nat option \<times> real cvar" where
  "start_run_deadline now seconds c =
     (case seconds of
        None \<Rightarrow> Inr (None, c)
      | Some (Inl e) \<Rightarrow> Inl e
      | Some (Inr x) \<Rightarrow>
          (case cv_set (Some (now + max 0 x)) c of (tok, c') \<Rightarrow> Inr (Some tok, c')))"

definition end_run_deadline :: "nat option \<Rightarrow> real cvar \<Rightarrow> exn + real cvar" where
  "end_run_deadline tok c = (case tok of None \<Rightarrow> Inr c | Some k \<Rightarrow> cv_reset k c)"

definition run_deadline :: "real cvar \<Rightarrow> real option" where
  "run_deadline c = cv_value c"

text \<open>The deadline variable, entered with the clock and the seconds.\<close>

interpretation deadline_var: scoped_variable "\<lambda>(now, secs). start_run_deadline now secs" end_run_deadline run_deadline cvar_ok cv_open
proof
  fix c c1 c2 :: "real cvar" and v :: "real \<times> (exn + real) option" and tok
  obtain now secs where v: "v = (now, secs)" by (cases v)
  assume c: "cvar_ok c" "(case v of (now, secs) \<Rightarrow> start_run_deadline now secs) c = Inr (tok, c1)"
  show "cvar_ok c1"
    using c cvar_ok_set [OF c(1)] by (auto simp: v start_run_deadline_def split: option.splits sum.splits prod.splits) (metis snd_conv)
  assume "cv_open c2 = cv_open c1" "run_deadline c2 = run_deadline c1"
  then show "\<exists>c3. end_run_deadline tok c2 = Inr c3 \<and> run_deadline c3 = run_deadline c \<and> cv_open c3 = cv_open c"
    using c cv_set_reset [OF c(1)]
    by (auto simp: v start_run_deadline_def end_run_deadline_def run_deadline_def split: option.splits sum.splits prod.splits)
next
  show "cvar_ok c \<Longrightarrow> end_run_deadline tok c = Inr c1 \<Longrightarrow> cvar_ok c1" for c c1 :: "real cvar" and tok
    by (auto simp: end_run_deadline_def dest: cvar_ok_reset split: option.splits)
qed

definition deadline_exn :: exn where
  "deadline_exn = Exn CRunTimeout (u ''run deadline exceeded'')"

definition clamp_timeout :: "real option \<Rightarrow> real \<Rightarrow> real option \<Rightarrow> exn + real option" where
  "clamp_timeout deadline now timeout =
     (case deadline of
        None \<Rightarrow> Inr timeout
      | Some d \<Rightarrow>
          if d - now \<le> 0 then Inl deadline_exn
          else
            (let remaining = py_round 6 (d - now)
             in if remaining \<le> 0 then Inl deadline_exn
                else Inr (Some (case timeout of None \<Rightarrow> remaining | Some t \<Rightarrow> min t remaining))))"

definition run_deadline_expired :: "real option \<Rightarrow> real \<Rightarrow> bool" where
  "run_deadline_expired deadline now = (case deadline of None \<Rightarrow> False | Some d \<Rightarrow> d \<le> now)"

section \<open>Lemmas\<close>

lemma py_round_pos_iff: "0 \<le> x \<Longrightarrow> py_round k x \<le> 0 \<longleftrightarrow> x \<le> 1 / (2 * 10 ^ k)"
proof -
  assume x: "0 \<le> x"
  have "py_round k x \<le> 0 \<longleftrightarrow> round_even (x * 10 ^ k) \<le> 0"
    using pos_divide_le_eq [of "10 ^ k :: real" "of_int (round_even (x * 10 ^ k))" 0]
    by (simp add: py_round_def)
  also have "\<dots> \<longleftrightarrow> x * 10 ^ k \<le> 1 / 2" using x by (intro round_even_le_iff_zero) simp
  also have "\<dots> \<longleftrightarrow> x \<le> 1 / (2 * 10 ^ k)" by (simp add: field_simps)
  finally show ?thesis .
qed

text \<open>
  \<open>clamp_timeout\<close> refuses new work exactly when half a microsecond or less of the run deadline
  is left; otherwise the time-out it gives is positive whenever the caller's is, no longer than the
  caller's, and beyond the remaining time by at most half a microsecond. Without a deadline it
  changes nothing.
\<close>

theorem clamp_timeout_bounds:
  "case clamp_timeout deadline now timeout of
     Inl e \<Rightarrow> e = deadline_exn \<and> (\<exists>d. deadline = Some d \<and> d - now \<le> 1 / 2000000)
   | Inr r \<Rightarrow>
       (case deadline of
          None \<Rightarrow> r = timeout
        | Some d \<Rightarrow> 1 / 2000000 < d - now
            \<and> (\<exists>x. r = Some x \<and> x \<le> d - now + 1 / 2000000
                 \<and> (case timeout of None \<Rightarrow> 0 < x | Some t \<Rightarrow> x \<le> t \<and> (0 < x \<longleftrightarrow> 0 < t))))"
proof (cases deadline)
  case None
  then show ?thesis by (simp add: clamp_timeout_def)
next
  case (Some d)
  show ?thesis
  proof (cases "d - now \<le> 0")
    case True
    then show ?thesis by (simp add: clamp_timeout_def Some)
  next
    case False
    have iff: "py_round 6 (d - now) \<le> 0 \<longleftrightarrow> d - now \<le> 1 / 2000000"
      using py_round_pos_iff [of "d - now" 6] False by simp
    have le: "py_round 6 (d - now) \<le> d - now + 1 / 2000000"
      using abs_le_D1 [OF py_round_bounds [of 6 "d - now"]] by simp
    show ?thesis
      using False iff le by (auto simp: clamp_timeout_def Some Let_def min_def split: option.splits)
  qed
qed

text \<open>
  A run deadline lasts for the run that set it: it is never in the past when it is installed, and
  ending the run restores the deadline of the surrounding run, whatever deadlines were started and
  ended in between.
\<close>

theorem run_deadline_nests:
  assumes "cvar_ok c" "start_run_deadline now (Some (Inr x)) c = Inr (tok, c1)"
    "cv_open c2 = cv_open c1"
  shows "run_deadline c1 = Some (now + max 0 x)
    \<and> (\<exists>c3. end_run_deadline tok c2 = Inr c3 \<and> run_deadline c3 = run_deadline c)"
proof -
  obtain k c' where k: "cv_set (Some (now + max 0 x)) c = (k, c')" by fastforce
  with assms(2) have "tok = Some k" "c1 = c'" by (auto simp: start_run_deadline_def)
  with cv_set_reset [OF assms(1) k] assms(3) k show ?thesis
    by (auto simp: run_deadline_def end_run_deadline_def cv_set_def)
qed

theorem run_deadline_nests_witness:
  "\<exists>c3. end_run_deadline (Some 0) (snd (cv_set (Some 7) cvar_empty)) = Inr c3
     \<and> run_deadline c3 = run_deadline (cvar_empty :: real cvar)"
  using run_deadline_nests [of cvar_empty 5 2 "Some 0" "snd (cv_set (Some 7) cvar_empty)"
      "snd (cv_set (Some 7) cvar_empty)"]
  by (simp add: start_run_deadline_def cv_set_def cvar_empty_def cvar_ok_def)

end
