(* ===== verification/Budget.thy ===== *)
theory Budget
  imports Context Deadline
begin

text \<open>
  \<open>runtime/budget.py\<close>: the budget of a run. \<open>reserve\<close> and \<open>settle\<close> hold the lock for their whole
  body, so an interleaving of parallel workers is a sequence of these calls. A \<open>pricer\<close> is a
  function from the usage dictionary to its price, or to the exception it raises.
\<close>

section \<open>Model\<close>

type_synonym usage = "(pystr \<times> pyval) list"
type_synonym pricer = "usage \<Rightarrow> exn + real"

record budget =
  b_max_calls :: "int option"
  b_max_tokens :: "int option"
  b_max_cost :: "real option"
  b_max_seconds :: "real option"
  b_pricer :: "pricer option"
  b_start :: real
  b_calls :: int
  b_reserved :: int
  b_tokens :: int
  b_cost :: real

definition new_budget ::
    "real \<Rightarrow> int option \<Rightarrow> int option \<Rightarrow> real option \<Rightarrow> real option \<Rightarrow> pricer option \<Rightarrow> budget" where
  "new_budget now mc mt mo ms pr =
     \<lparr>b_max_calls = mc, b_max_tokens = mt, b_max_cost = mo, b_max_seconds = ms, b_pricer = pr,
      b_start = now, b_calls = 0, b_reserved = 0, b_tokens = 0, b_cost = 0\<rparr>"

definition over :: "'a::linorder option \<Rightarrow> 'a \<Rightarrow> bool" where
  "over limit x \<longleftrightarrow> (case limit of None \<Rightarrow> False | Some m \<Rightarrow> m \<le> x)"

definition reserve :: "budget \<Rightarrow> exn + budget" where
  "reserve b =
     (if over (b_max_calls b) (b_calls b + b_reserved b)
      then Inl (Exn CBudgetExceeded
             (u ''call budget exhausted ('' @ py_int_str (b_calls b + b_reserved b) @ u ''/''
              @ py_int_str (the (b_max_calls b)) @ u '' calls)''))
      else if over (b_max_tokens b) (b_tokens b)
      then Inl (Exn CBudgetExceeded
             (u ''token budget exhausted ('' @ py_int_str (b_tokens b) @ u ''/''
              @ py_int_str (the (b_max_tokens b)) @ u '' tokens)''))
      else if over (b_max_cost b) (b_cost b)
      then Inl (Exn CBudgetExceeded
             (u ''cost budget exhausted ('' @ py_fixed 6 (b_cost b) @ u ''/''
              @ py_fixed 6 (the (b_max_cost b)) @ u '')''))
      else Inr (b\<lparr>b_reserved := b_reserved b + 1\<rparr>))"

text \<open>\<open>int(usage.get("total_tokens") or 0)\<close>.\<close>

definition usage_tokens :: "usage \<Rightarrow> exn + int" where
  "usage_tokens us =
     (case map_of us (u ''total_tokens'') of
        None \<Rightarrow> Inr 0
      | Some v \<Rightarrow> if truthy v then py_int v else Inr 0)"

definition settle :: "usage option \<Rightarrow> budget \<Rightarrow> exn + budget" where
  "settle us b =
     (case (case us of
              None \<Rightarrow> Inr (0, 0)
            | Some d \<Rightarrow>
                if d = [] then Inr (0, 0)
                else
                  (case usage_tokens d of
                     Inl e \<Rightarrow> Inl e
                   | Inr n \<Rightarrow>
                       (case b_pricer b of
                          None \<Rightarrow> Inr (n, 0)
                        | Some p \<Rightarrow> (case p d of Inl e \<Rightarrow> Inl e | Inr x \<Rightarrow> Inr (n, x))))) of
        Inl e \<Rightarrow> Inl e
      | Inr (tokens, cost) \<Rightarrow>
          Inr (b\<lparr>b_calls := b_calls b + 1, b_reserved := max 0 (b_reserved b - 1),
                 b_tokens := b_tokens b + tokens, b_cost := b_cost b + cost\<rparr>))"

record budget_stats =
  bs_calls :: int
  bs_in_flight :: int
  bs_tokens :: int
  bs_cost :: real
  bs_elapsed :: real
  bs_limits :: "int option \<times> int option \<times> real option \<times> real option"

definition budget_snapshot :: "real \<Rightarrow> budget \<Rightarrow> budget_stats" where
  "budget_snapshot now b =
     \<lparr>bs_calls = b_calls b, bs_in_flight = b_reserved b, bs_tokens = b_tokens b,
      bs_cost = py_round 6 (b_cost b), bs_elapsed = py_round 3 (now - b_start b),
      bs_limits = (b_max_calls b, b_max_tokens b, b_max_cost b, b_max_seconds b)\<rparr>"

text \<open>The \<open>budget=\<close> option: limits are numbers of their documented types.\<close>

record limits =
  l_unknown :: "pystr list"
  l_max_calls :: "int option"
  l_max_tokens :: "int option"
  l_max_cost :: "real option"
  l_max_seconds :: "real option"
  l_pricer :: "pricer option"

datatype budget_arg = NoBudget | Manager budget | Limits limits | OtherBudget

definition negative :: "'a::{linorder,zero} option \<Rightarrow> bool" where
  "negative v \<longleftrightarrow> (case v of None \<Rightarrow> False | Some x \<Rightarrow> x < 0)"

definition as_budget :: "real \<Rightarrow> budget_arg \<Rightarrow> exn + budget option" where
  "as_budget now arg =
     (case arg of
        NoBudget \<Rightarrow> Inr None
      | Manager b \<Rightarrow> Inr (Some b)
      | Limits l \<Rightarrow>
          if l_unknown l \<noteq> []
          then Inl (Exn CValueError (u ''unknown budget options: '' @ py_repr_strs (py_sorted_set (l_unknown l))))
          else if negative (l_max_calls l) then Inl (Exn CValueError (u ''max_calls must be >= 0''))
          else if negative (l_max_tokens l) then Inl (Exn CValueError (u ''max_tokens must be >= 0''))
          else if negative (l_max_cost l) then Inl (Exn CValueError (u ''max_cost must be >= 0''))
          else if negative (l_max_seconds l) then Inl (Exn CValueError (u ''max_seconds must be >= 0''))
          else Inr (Some (new_budget now (l_max_calls l) (l_max_tokens l) (l_max_cost l)
                            (l_max_seconds l) (l_pricer l)))
      | OtherBudget \<Rightarrow> Inl (Exn CValueError (u ''budget must be a BudgetManager or a dict of limits'')))"

definition start_run_budget :: "'b option \<Rightarrow> 'b cvar \<Rightarrow> nat option \<times> 'b cvar" where
  "start_run_budget b c =
     (case b of None \<Rightarrow> (None, c) | Some x \<Rightarrow> (case cv_set (Some x) c of (tok, c') \<Rightarrow> (Some tok, c')))"

definition end_run_budget :: "nat option \<Rightarrow> 'b cvar \<Rightarrow> exn + 'b cvar" where
  "end_run_budget tok c = (case tok of None \<Rightarrow> Inr c | Some k \<Rightarrow> cv_reset k c)"

definition current_budget :: "'b cvar \<Rightarrow> 'b option" where
  "current_budget c = cv_value c"

interpretation budget_var: scoped_variable "\<lambda>b c. Inr (start_run_budget b c)" end_run_budget current_budget cvar_ok cv_open
proof
  fix c c1 c2 :: "'b cvar" and b tok
  assume c: "cvar_ok c" "Inr (start_run_budget b c) = Inr (tok, c1)"
  show "cvar_ok c1"
    using c cvar_ok_set [OF c(1)] by (auto simp: start_run_budget_def split: option.splits prod.splits) (metis snd_conv)
  assume "cv_open c2 = cv_open c1" "current_budget c2 = current_budget c1"
  then show "\<exists>c3. end_run_budget tok c2 = Inr c3 \<and> current_budget c3 = current_budget c \<and> cv_open c3 = cv_open c"
    using c cv_set_reset [OF c(1)]
    by (auto simp: start_run_budget_def end_run_budget_def current_budget_def split: option.splits prod.splits)
next
  show "cvar_ok c \<Longrightarrow> end_run_budget tok c = Inr c1 \<Longrightarrow> cvar_ok c1" for c c1 :: "'b cvar" and tok
    by (auto simp: end_run_budget_def dest: cvar_ok_reset split: option.splits)
qed

section \<open>Parallel workers\<close>

text \<open>
  Workers share the budget: \<open>Reserve i\<close> is call \<open>i\<close> asking for its slot, \<open>Settle i us\<close> is call \<open>i\<close>
  settling, which it does only after its own reservation. A raising call leaves the budget alone.
\<close>

datatype budget_event = Reserve nat | Settle nat "usage option"

definition budget_step :: "budget \<times> nat list \<Rightarrow> budget_event \<Rightarrow> budget \<times> nat list" where
  "budget_step s e =
     (case s of (b, flight) \<Rightarrow>
        (case e of
           Reserve i \<Rightarrow>
             if i \<in> set flight then s
             else (case reserve b of Inl x \<Rightarrow> s | Inr b' \<Rightarrow> (b', i # flight))
         | Settle i us \<Rightarrow>
             if i \<notin> set flight then s
             else (case settle us b of Inl x \<Rightarrow> s | Inr b' \<Rightarrow> (b', remove1 i flight))))"

definition budget_inv :: "budget \<times> nat list \<Rightarrow> bool" where
  "budget_inv s \<longleftrightarrow>
     b_reserved (fst s) = int (length (snd s)) \<and> distinct (snd s) \<and> 0 \<le> b_calls (fst s)
     \<and> (\<forall>m. b_max_calls (fst s) = Some m \<longrightarrow> b_calls (fst s) + b_reserved (fst s) \<le> max 0 m)"

lemma reserve_Inr:
  "reserve b = Inr b' \<longleftrightarrow>
     \<not> over (b_max_calls b) (b_calls b + b_reserved b) \<and> \<not> over (b_max_tokens b) (b_tokens b)
     \<and> \<not> over (b_max_cost b) (b_cost b) \<and> b' = b\<lparr>b_reserved := b_reserved b + 1\<rparr>"
  by (auto simp: reserve_def)

lemma reserve_Inl: "reserve b = Inl e \<Longrightarrow> exc_of e = CBudgetExceeded"
  by (auto simp: reserve_def split: if_splits)

lemma settle_Inr:
  "settle us b = Inr b' \<Longrightarrow>
     b_calls b' = b_calls b + 1 \<and> b_reserved b' = max 0 (b_reserved b - 1)
     \<and> b_max_calls b' = b_max_calls b"
  by (auto simp: settle_def split: sum.splits option.splits if_splits)

lemma budget_step_inv: "budget_inv s \<Longrightarrow> budget_inv (budget_step s e)"
proof (cases s, cases e)
  fix b flight i
  assume inv: "budget_inv s" and s: "s = (b, flight)" and e: "e = Reserve i"
  show ?thesis
  proof (cases "reserve b")
    case (Inr b')
    then have "\<not> over (b_max_calls b) (b_calls b + b_reserved b)" "b' = b\<lparr>b_reserved := b_reserved b + 1\<rparr>"
      by (auto simp: reserve_Inr)
    then show ?thesis
      using inv by (auto simp: s e Inr budget_step_def budget_inv_def over_def split: option.splits)
  qed (use inv in \<open>simp add: s e budget_step_def\<close>)
next
  fix b flight i us
  assume inv: "budget_inv s" and s: "s = (b, flight)" and e: "e = Settle i us"
  show ?thesis
  proof (cases "settle us b")
    case (Inr b')
    show ?thesis
    proof (cases "i \<in> set flight")
      case True
      then have "0 < length flight" by (cases flight) auto
      with True settle_Inr [OF Inr] inv show ?thesis
        by (auto simp: s e Inr budget_step_def budget_inv_def length_remove1 of_nat_diff Suc_leI)
    qed (use inv in \<open>simp add: s e budget_step_def\<close>)
  qed (use inv in \<open>simp add: s e budget_step_def\<close>)
qed

interpretation calls: step_machine budget_step budget_inv
  by unfold_locales (rule budget_step_inv)

lemma budget_step_max: "b_max_calls (fst (budget_step s e)) = b_max_calls (fst s)"
  by (auto simp: budget_step_def reserve_Inr dest: settle_Inr split: budget_event.splits sum.splits prod.splits)

lemma budget_run_max: "b_max_calls (fst (foldl budget_step s es)) = b_max_calls (fst s)"
  by (induction es arbitrary: s) (auto simp: budget_step_max)

text \<open>
  C16. Parallel calls never exceed the call budget: whatever the interleaving of reservations and
  settlements, the calls made and the calls in flight together stay within \<open>max_calls\<close>, and the
  reservations counted are exactly the calls in flight.
\<close>

theorem call_budget_never_exceeded:
  assumes "foldl budget_step (new_budget now (Some m) mt mo ms pr, []) es = (b, flight)" "0 \<le> m"
  shows "b_calls b + int (length flight) \<le> m \<and> b_reserved b = int (length flight)"
proof -
  have inv: "budget_inv (b, flight)"
    unfolding assms(1) [symmetric]
    by (rule calls.run_inv) (use assms(2) in \<open>simp add: budget_inv_def new_budget_def\<close>)
  have "b_max_calls b = Some m"
    using budget_run_max [of "(new_budget now (Some m) mt mo ms pr, [])" es] assms(1)
    by (simp add: new_budget_def)
  with inv assms(2) show ?thesis by (auto simp: budget_inv_def)
qed

theorem call_budget_never_exceeded_witness:
  "b_calls (fst (foldl budget_step (new_budget 0 (Some 1) None None None None, [])
       [Reserve 0, Reserve 1, Settle 0 None, Reserve 1])) + 0 \<le> 1"
proof -
  let ?s = "foldl budget_step (new_budget 0 (Some 1) None None None None, [])
       [Reserve 0, Reserve 1, Settle 0 None, Reserve 1]"
  obtain b flight where s: "?s = (b, flight)" by fastforce
  show ?thesis using call_budget_never_exceeded [OF s] s by simp
qed

text \<open>
  \<open>reserve\<close> admits a call exactly when every limit set has room: calls made or in flight below
  \<open>max_calls\<close>, settled tokens below \<open>max_tokens\<close>, settled cost below \<open>max_cost\<close>. It then counts one
  reservation and changes nothing else; otherwise it raises \<open>BudgetExceeded\<close>.
\<close>

theorem reserve_admits_iff:
  "case reserve b of
     Inr b' \<Rightarrow> b' = b\<lparr>b_reserved := b_reserved b + 1\<rparr>
       \<and> (case b_max_calls b of None \<Rightarrow> True | Some m \<Rightarrow> b_calls b + b_reserved b < m)
       \<and> (case b_max_tokens b of None \<Rightarrow> True | Some m \<Rightarrow> b_tokens b < m)
       \<and> (case b_max_cost b of None \<Rightarrow> True | Some m \<Rightarrow> b_cost b < m)
   | Inl e \<Rightarrow> exc_of e = CBudgetExceeded
       \<and> ((\<exists>m. b_max_calls b = Some m \<and> m \<le> b_calls b + b_reserved b)
          \<or> (\<exists>m. b_max_tokens b = Some m \<and> m \<le> b_tokens b)
          \<or> (\<exists>m. b_max_cost b = Some m \<and> m \<le> b_cost b))"
proof (cases "reserve b")
  case (Inl e)
  have "\<not> (\<exists>b'. reserve b = Inr b')" using Inl by simp
  then have "over (b_max_calls b) (b_calls b + b_reserved b) \<or> over (b_max_tokens b) (b_tokens b)
      \<or> over (b_max_cost b) (b_cost b)" by (auto simp: reserve_Inr)
  with reserve_Inl [OF Inl] show ?thesis by (auto simp: Inl over_def split: option.splits)
next
  case (Inr b')
  then have "\<not> over (b_max_calls b) (b_calls b + b_reserved b)" "\<not> over (b_max_tokens b) (b_tokens b)"
    "\<not> over (b_max_cost b) (b_cost b)" "b' = b\<lparr>b_reserved := b_reserved b + 1\<rparr>"
    by (auto simp: reserve_Inr)
  then show ?thesis by (auto simp: Inr over_def not_le split: option.splits)
qed

end
