(* ===== verification/Observability.thy ===== *)
theory Observability
  imports Deadline
begin

text \<open>
  \<open>observability.py\<close>: spans and tasks of a trace, the bounded registry of runs and the health counters
  of an agent. Wall-clock texts, run ids and clock readings are arguments. A trace object is told
  apart from others by \<open>tr_obj\<close>; the registry remembers the objects whose \<open>recorded\<close> flag it set.
\<close>

section \<open>Traces\<close>

record span =
  sp_agent :: pystr
  sp_kind :: pystr
  sp_status :: pystr
  sp_duration :: real
  sp_error :: "pystr option"
  sp_at :: pystr

definition new_span :: "pystr \<Rightarrow> pystr \<Rightarrow> pystr \<Rightarrow> real \<Rightarrow> pystr \<Rightarrow> pystr option \<Rightarrow> span" where
  "new_span stamp agent status duration kind error =
     \<lparr>sp_agent = agent, sp_kind = kind, sp_status = status, sp_duration = py_round 1 duration,
      sp_error = error, sp_at = stamp\<rparr>"

definition span_as_dict :: "span \<Rightarrow> (pystr \<times> field) list" where
  "span_as_dict s =
     [(u ''agent'', FVal (StrV (sp_agent s))), (u ''kind'', FVal (StrV (sp_kind s))),
      (u ''status'', FVal (StrV (sp_status s))), (u ''duration_ms'', FNum (sp_duration s)),
      (u ''at'', FVal (StrV (sp_at s)))]
     @ (case sp_error s of None \<Rightarrow> [] | Some e \<Rightarrow> [(u ''error'', FVal (StrV e))])"

record trace_task =
  tt_name :: pystr
  tt_kind :: pystr
  tt_status :: pystr
  tt_agent :: pyval

definition trace_task_as_dict :: "trace_task \<Rightarrow> (pystr \<times> pyval) list" where
  "trace_task_as_dict t =
     [(u ''name'', StrV (tt_name t)), (u ''kind'', StrV (tt_kind t)), (u ''status'', StrV (tt_status t))]
     @ (if tt_agent t = NoneV then [] else [(u ''agent'', tt_agent t)])"

type_synonym pydict = "(pystr \<times> pyval) list"

definition dget :: "pydict \<Rightarrow> string \<Rightarrow> pyval" where
  "dget d k = (case map_of d (u k) of None \<Rightarrow> NoneV | Some v \<Rightarrow> v)"

text \<open>\<open>_step_status\<close>: the values under the three keys that are dictionaries, then \<open>response\<close>.\<close>

definition has_error_item :: "pyval \<Rightarrow> bool" where
  "has_error_item v = (case dict_of v of None \<Rightarrow> False | Some d \<Rightarrow> list_ex (\<lambda>(k, x). is_error_dict x) d)"

definition step_status :: "pydict \<Rightarrow> pystr" where
  "step_status r =
     (if list_ex (\<lambda>k. has_error_item (dget r k)) [''responses'', ''results'', ''votes'']
         \<or> is_error_dict (dget r ''response'')
      then u ''error'' else u ''ok'')"

definition or_else :: "pyval \<Rightarrow> pyval \<Rightarrow> pyval" where
  "or_else v w = (if truthy v then v else w)"

definition task_of_record :: "pydict \<Rightarrow> trace_task" where
  "task_of_record r =
     (let kind = or_else (dget r ''kind'') (StrV (py_str (or_else (dget r ''step'') (StrV (u ''round'')))));
          name = (case map_of r (u ''round'') of
                    Some n \<Rightarrow> u ''round '' @ py_str n
                  | None \<Rightarrow> py_str (or_else (dget r ''step'') kind))
      in \<lparr>tt_name = name, tt_kind = py_str kind, tt_status = step_status r, tt_agent = dget r ''agent''\<rparr>)"

record trace =
  tr_obj :: nat
  tr_run_id :: pystr
  tr_prompt :: pystr
  tr_strategy :: pystr
  tr_session :: "pystr option"
  tr_started_at :: pystr
  tr_started :: real
  tr_finished_at :: "pystr option"
  tr_status :: pystr
  tr_error :: "pystr option"
  tr_spans :: "span list"
  tr_tasks :: "trace_task list"

definition new_trace ::
    "nat \<Rightarrow> pystr \<Rightarrow> pystr \<Rightarrow> real \<Rightarrow> pystr \<Rightarrow> pystr \<Rightarrow> pystr option \<Rightarrow> trace" where
  "new_trace obj run_id stamp now prompt strategy session =
     \<lparr>tr_obj = obj, tr_run_id = run_id, tr_prompt = take 200 prompt, tr_strategy = strategy,
      tr_session = session, tr_started_at = stamp, tr_started = now, tr_finished_at = None,
      tr_status = u ''running'', tr_error = None, tr_spans = [], tr_tasks = []\<rparr>"

definition add_span :: "span \<Rightarrow> trace \<Rightarrow> trace" where
  "add_span s t = t\<lparr>tr_spans := tr_spans t @ [s]\<rparr>"

definition add_task :: "trace_task \<Rightarrow> trace \<Rightarrow> trace" where
  "add_task k t = t\<lparr>tr_tasks := tr_tasks t @ [k]\<rparr>"

definition tasks_from_rounds :: "pyval list \<Rightarrow> trace \<Rightarrow> trace" where
  "tasks_from_rounds records t =
     fold (\<lambda>r t. case dict_of r of None \<Rightarrow> t | Some d \<Rightarrow> add_task (task_of_record d) t) records t"

definition finish_trace :: "pystr \<Rightarrow> pystr option \<Rightarrow> trace \<Rightarrow> trace" where
  "finish_trace stamp error t =
     (if tr_finished_at t \<noteq> None then t
      else t\<lparr>tr_finished_at := Some stamp, tr_error := error,
             tr_status := (case error of None \<Rightarrow> u ''ok'' | Some e \<Rightarrow> if e = [] then u ''ok'' else u ''error'')\<rparr>)"

definition opt_str :: "pystr option \<Rightarrow> pyval" where
  "opt_str v = (case v of None \<Rightarrow> NoneV | Some s \<Rightarrow> StrV s)"

definition trace_summary :: "trace \<Rightarrow> pydict" where
  "trace_summary t =
     (let ok = length (filter (\<lambda>s. sp_status s = u ''ok'') (tr_spans t))
      in [(u ''run_id'', StrV (tr_run_id t)), (u ''strategy'', StrV (tr_strategy t)),
          (u ''status'', StrV (tr_status t)), (u ''prompt'', StrV (tr_prompt t)),
          (u ''session_id'', opt_str (tr_session t)), (u ''started_at'', StrV (tr_started_at t)),
          (u ''finished_at'', opt_str (tr_finished_at t)),
          (u ''spans'', IntV (int (length (tr_spans t)))),
          (u ''span_errors'', IntV (int (length (tr_spans t)) - int ok)),
          (u ''tasks'', IntV (int (length (tr_tasks t)))), (u ''error'', opt_str (tr_error t))])"

definition trace_to_dict ::
    "trace \<Rightarrow> pydict \<times> (pystr \<times> field) list list \<times> pydict list" where
  "trace_to_dict t =
     (trace_summary t, map span_as_dict (tr_spans t), map trace_task_as_dict (tr_tasks t))"

text \<open>The context variable of the active trace; \<open>activate_trace\<close> always sets.\<close>

definition current_trace :: "nat cvar \<Rightarrow> nat option" where
  "current_trace c = cv_value c"

definition activate_trace :: "nat option \<Rightarrow> nat cvar \<Rightarrow> nat \<times> nat cvar" where
  "activate_trace t c = cv_set t c"

definition restore_trace :: "nat \<Rightarrow> nat cvar \<Rightarrow> exn + nat cvar" where
  "restore_trace tok c = cv_reset tok c"

interpretation trace_var: scoped_variable "\<lambda>t c. Inr (activate_trace t c)" restore_trace current_trace cvar_ok cv_open
proof
  fix c c1 c2 :: "nat cvar" and t tok
  assume c: "cvar_ok c" "Inr (activate_trace t c) = Inr (tok, c1)"
  then have s: "cv_set t c = (tok, c1)" by (simp add: activate_trace_def)
  show "cvar_ok c1" using cvar_ok_set [OF c(1), of t] by (simp add: s)
  assume "cv_open c2 = cv_open c1"
  with cv_set_reset [OF c(1) s] show "\<exists>c3. restore_trace tok c2 = Inr c3 \<and> current_trace c3 = current_trace c \<and> cv_open c3 = cv_open c"
    by (simp add: restore_trace_def current_trace_def)
next
  show "cvar_ok c \<Longrightarrow> restore_trace tok c = Inr c1 \<Longrightarrow> cvar_ok c1" for c c1 :: "nat cvar" and tok
    by (auto simp: restore_trace_def dest: cvar_ok_reset)
qed

section \<open>The run registry\<close>

record registry =
  rg_maxlen :: nat
  rg_runs :: "trace list"
  rg_index :: "(pystr \<times> trace) list"
  rg_recorded :: "nat list"

definition new_registry :: "int \<Rightarrow> registry" where
  "new_registry limit = \<lparr>rg_maxlen = nat (max 1 limit), rg_runs = [], rg_index = [], rg_recorded = []\<rparr>"

text \<open>\<open>deque.append\<close> on a deque with \<open>maxlen\<close>.\<close>

definition deque_append :: "nat \<Rightarrow> 'a \<Rightarrow> 'a list \<Rightarrow> 'a list" where
  "deque_append n x xs = (let ys = xs @ [x] in drop (length ys - n) ys)"

definition record_run :: "trace \<Rightarrow> registry \<Rightarrow> registry" where
  "record_run t r =
     (if tr_obj t \<in> set (rg_recorded r) then r
      else
        (let runs = deque_append (rg_maxlen r) t (rg_runs r);
             index = AList.update (tr_run_id t) t (rg_index r);
             alive = map tr_run_id runs
         in r\<lparr>rg_recorded := tr_obj t # rg_recorded r, rg_runs := runs,
              rg_index := (if rg_maxlen r < length index then filter (\<lambda>(k, v). k \<in> set alive) index
                           else index)\<rparr>))"

definition get_run :: "pystr \<Rightarrow> registry \<Rightarrow> trace option" where
  "get_run run_id r = map_of (rg_index r) run_id"

fun remove_obj :: "nat \<Rightarrow> trace list \<Rightarrow> trace list" where
  "remove_obj k [] = []"
| "remove_obj k (t # ts) = (if tr_obj t = k then ts else t # remove_obj k ts)"

fun cleanup_loop :: "real \<Rightarrow> trace list \<Rightarrow> registry \<Rightarrow> nat \<Rightarrow> registry \<times> nat" where
  "cleanup_loop cutoff [] r n = (r, n)"
| "cleanup_loop cutoff (t # ts) r n =
     (if tr_started t < cutoff
      then (if tr_obj t \<in> set (map tr_obj (rg_runs r))
            then cleanup_loop cutoff ts
                   (r\<lparr>rg_runs := remove_obj (tr_obj t) (rg_runs r),
                      rg_index := AList.delete (tr_run_id t) (rg_index r)\<rparr>) (Suc n)
            else cleanup_loop cutoff ts r n)
      else cleanup_loop cutoff ts r n)"

definition cleanup_runs :: "real \<Rightarrow> real \<Rightarrow> registry \<Rightarrow> registry \<times> nat" where
  "cleanup_runs now max_age r = cleanup_loop (now - max_age) (rg_runs r) r 0"

definition recent_runs :: "int \<Rightarrow> registry \<Rightarrow> pydict list" where
  "recent_runs limit r =
     (let n = max 0 limit
      in if n = 0 then [] else map trace_summary (rev (slice_from (- n) (rg_runs r))))"

definition registry_len :: "registry \<Rightarrow> nat" where
  "registry_len r = length (rg_runs r)"

section \<open>Agent health\<close>

record health =
  h_calls :: nat
  h_ok :: nat
  h_errors :: nat
  h_timeouts :: nat
  h_total_ms :: real

definition new_health :: health where
  "new_health = \<lparr>h_calls = 0, h_ok = 0, h_errors = 0, h_timeouts = 0, h_total_ms = 0\<rparr>"

definition note_health :: "pystr \<Rightarrow> real \<Rightarrow> health \<Rightarrow> health" where
  "note_health status seconds h =
     (let h1 = h\<lparr>h_calls := h_calls h + 1, h_total_ms := h_total_ms h + seconds * 1000\<rparr>
      in if status = u ''ok'' then h1\<lparr>h_ok := h_ok h1 + 1\<rparr>
         else if status = u ''timeout'' then h1\<lparr>h_timeouts := h_timeouts h1 + 1\<rparr>
         else h1\<lparr>h_errors := h_errors h1 + 1\<rparr>)"

definition health_snapshot :: "health \<Rightarrow> (pystr \<times> field) list" where
  "health_snapshot h =
     [(u ''calls'', FVal (IntV (int (h_calls h)))), (u ''ok'', FVal (IntV (int (h_ok h)))),
      (u ''errors'', FVal (IntV (int (h_errors h)))), (u ''timeouts'', FVal (IntV (int (h_timeouts h)))),
      (u ''avg_ms'', FNum (if h_calls h = 0 then 0 else py_round 1 (h_total_ms h / real (h_calls h))))]"

section \<open>Lemmas\<close>

definition run_index :: "trace list \<Rightarrow> (pystr \<times> trace) list" where
  "run_index ts = map (\<lambda>t. (tr_run_id t, t)) ts"

definition last_n :: "nat \<Rightarrow> 'a list \<Rightarrow> 'a list" where
  "last_n n xs = drop (length xs - n) xs"

lemma last_n_snoc: "0 < n \<Longrightarrow> last_n n (last_n n xs @ [x]) = last_n n (xs @ [x])"
  by (cases "length xs < n") (auto simp: last_n_def Suc_diff_le)

lemma deque_append_last_n: "deque_append n x xs = last_n n (xs @ [x])"
  by (simp add: deque_append_def last_n_def Let_def)

lemma last_n_drop_one: "length xs \<le> n \<Longrightarrow> 0 < n \<Longrightarrow> last_n n (xs @ [x]) = (if length xs < n then xs @ [x] else tl xs @ [x])"
  by (cases xs) (auto simp: last_n_def)

lemma length_last_n: "length (last_n n xs) \<le> n"
  by (simp add: last_n_def)

lemma set_last_n: "set (last_n n xs) \<subseteq> set xs"
  by (simp add: last_n_def set_drop_subset)

lemma dkeys_run_index [simp]: "dkeys (run_index ts) = map tr_run_id ts"
  by (simp add: run_index_def o_def)

text \<open>Recording distinct runs: the registry is the last \<open>maxlen\<close> of them, and its index says so.\<close>

lemma record_runs:
  fixes limit :: int
  assumes "distinct (map tr_obj ts)" "distinct (map tr_run_id ts)"
  defines "m \<equiv> nat (max 1 limit)"
  shows "fold record_run ts (new_registry limit)
    = \<lparr>rg_maxlen = m, rg_runs = last_n m ts, rg_index = run_index (last_n m ts),
       rg_recorded = rev (map tr_obj ts)\<rparr>"
  using assms(1,2)
proof (induction ts rule: rev_induct)
  case Nil
  show ?case by (simp add: new_registry_def m_def last_n_def run_index_def)
next
  case (snoc t ts)
  let ?xs = "last_n m ts"
  have m0: "0 < m" by (simp add: m_def)
  have len: "length ?xs \<le> m" by (rule length_last_n)
  have fresh: "tr_run_id t \<notin> tr_run_id ` set ?xs" "tr_obj t \<notin> set (map tr_obj ts)"
    using snoc.prems set_last_n [of m ts] by auto
  then have upd: "AList.update (tr_run_id t) t (run_index ?xs) = run_index (?xs @ [t])"
    by (subst update_fresh) (auto simp: run_index_def)
  have runs: "deque_append m t ?xs = last_n m (ts @ [t])"
    by (simp add: deque_append_last_n last_n_snoc [OF m0])
  have dist: "distinct (map tr_run_id (?xs @ [t]))"
  proof -
    have "distinct (map tr_run_id ?xs)"
      using snoc.prems(2) by (simp add: last_n_def drop_map [symmetric])
    then show ?thesis using fresh(1) by simp
  qed
  have "(if m < length (run_index (?xs @ [t]))
         then filter (\<lambda>(k, v). k \<in> set (map tr_run_id (last_n m (?xs @ [t])))) (run_index (?xs @ [t]))
         else run_index (?xs @ [t])) = run_index (last_n m (?xs @ [t]))"
  proof (cases "length ?xs < m")
    case True
    then show ?thesis by (simp add: last_n_drop_one [OF len m0]) (simp add: run_index_def)
  next
    case False
    then obtain y ys where y: "?xs = y # ys" using m0 len by (cases ?xs) auto
    have "tr_run_id y \<notin> set (map tr_run_id (ys @ [t]))" using dist by (simp add: y)
    then have filt: "filter (\<lambda>(k, v). k \<in> set (map tr_run_id (ys @ [t]))) (run_index (?xs @ [t])) = run_index (ys @ [t])"
      by (auto simp: y run_index_def filter_map o_def intro!: filter_True)
    have l: "last_n m (?xs @ [t]) = ys @ [t]"
      using last_n_drop_one [OF len m0, of t] False by (simp add: y)
    have gt: "m < length (run_index (?xs @ [t]))" using False by (simp add: run_index_def)
    show ?thesis unfolding l by (simp only: if_P [OF gt] filt)
  qed
  then have idx: "(if m < length (run_index (?xs @ [t]))
         then filter (\<lambda>(k, v). k \<in> set (map tr_run_id (last_n m (ts @ [t])))) (run_index (?xs @ [t]))
         else run_index (?xs @ [t])) = run_index (last_n m (ts @ [t]))"
    by (simp only: last_n_snoc [OF m0])
  have ih: "fold record_run ts (new_registry limit)
    = \<lparr>rg_maxlen = m, rg_runs = ?xs, rg_index = run_index ?xs, rg_recorded = rev (map tr_obj ts)\<rparr>"
    by (rule snoc.IH) (use snoc.prems in simp_all)
  have "record_run t
      \<lparr>rg_maxlen = m, rg_runs = ?xs, rg_index = run_index ?xs, rg_recorded = rev (map tr_obj ts)\<rparr>
    = \<lparr>rg_maxlen = m, rg_runs = last_n m (ts @ [t]), rg_index = run_index (last_n m (ts @ [t])),
       rg_recorded = rev (map tr_obj (ts @ [t]))\<rparr>"
    using fresh(2) idx by (simp add: record_run_def upd runs Let_def)
  then show ?case by (simp add: ih)
qed

lemma note_health_counts:
  "fold (\<lambda>(st, sec). note_health st sec) calls h =
     \<lparr>h_calls = h_calls h + length calls,
      h_ok = h_ok h + length (filter (\<lambda>(st, sec). st = u ''ok'') calls),
      h_errors = h_errors h + length (filter (\<lambda>(st, sec). st \<noteq> u ''ok'' \<and> st \<noteq> u ''timeout'') calls),
      h_timeouts = h_timeouts h + length (filter (\<lambda>(st, sec). st = u ''timeout'') calls),
      h_total_ms = h_total_ms h + sum_list (map (\<lambda>(st, sec). sec * 1000) calls)\<rparr>"
  by (induction calls arbitrary: h) (auto simp: note_health_def Let_def)

definition health_ok :: "health \<Rightarrow> bool" where
  "health_ok h \<longleftrightarrow> h_calls h = h_ok h + h_errors h + h_timeouts h"

interpretation health: step_machine "\<lambda>h (st, sec). note_health st sec h" health_ok
  by unfold_locales (auto simp: health_ok_def note_health_def Let_def)

section \<open>Properties\<close>

text \<open>
  The run registry keeps the latest runs: after recording any runs it holds the last \<open>limit\<close> of
  them (at least one), \<open>get\<close> finds exactly those by their id, \<open>recent\<close> gives their summaries newest
  first, and recording a run again changes nothing.
\<close>

theorem registry_keeps_latest:
  assumes "distinct (map tr_obj ts)" "distinct (map tr_run_id ts)"
  shows "let m = nat (max 1 limit); r = fold record_run ts (new_registry limit)
    in rg_runs r = drop (length ts - m) ts
    \<and> (\<forall>i. get_run i r = find (\<lambda>t. tr_run_id t = i) (drop (length ts - m) ts))
    \<and> recent_runs (int k) r = map trace_summary (take k (rev (drop (length ts - m) ts)))
    \<and> list_all (\<lambda>t. record_run t r = r) ts"
proof -
  define m where "m = nat (max 1 limit)"
  define r where "r = fold record_run ts (new_registry limit)"
  have r: "r = \<lparr>rg_maxlen = m, rg_runs = last_n m ts, rg_index = run_index (last_n m ts),
       rg_recorded = rev (map tr_obj ts)\<rparr>"
    unfolding r_def m_def by (rule record_runs [OF assms(1,2)])
  have get: "map_of (run_index xs) i = find (\<lambda>t. tr_run_id t = i) xs" for xs i
    by (induction xs) (auto simp: run_index_def)
  have rec: "rev (slice_from (- int k) xs) = take k (rev xs)" if "0 < k" for xs :: "trace list"
    using that by (simp add: slice_from_def take_rev)
  have "recent_runs (int k) r = map trace_summary (take k (rev (last_n m ts)))"
    using rec [of "last_n m ts"] by (cases k) (simp_all add: recent_runs_def r Let_def)
  then show ?thesis
    unfolding Let_def m_def [symmetric] r_def [symmetric]
    by (auto simp: r get_run_def get list_all_iff record_run_def last_n_def)
qed

definition sample_trace :: "nat \<Rightarrow> trace" where
  "sample_trace k = new_trace k [int k] [] 0 [] [] None"

theorem registry_keeps_latest_witness:
  "get_run [2] (fold record_run [sample_trace 1, sample_trace 2, sample_trace 3] (new_registry 2)) = Some (sample_trace 2)
   \<and> get_run [1] (fold record_run [sample_trace 1, sample_trace 2, sample_trace 3] (new_registry 2)) = None"
  using registry_keeps_latest [of "[sample_trace 1, sample_trace 2, sample_trace 3]" 2 0]
  by (simp add: sample_trace_def new_trace_def Let_def)

text \<open>
  The health counters count every call once: \<open>calls\<close> is the number of calls noted, and \<open>ok\<close>,
  \<open>timeouts\<close> and \<open>errors\<close> are the numbers with status ok, timeout and any other.
\<close>

theorem health_counts_calls:
  "case fold (\<lambda>(st, sec). note_health st sec) calls new_health of h \<Rightarrow>
     h_calls h = length calls \<and> h_calls h = h_ok h + h_errors h + h_timeouts h
     \<and> h_ok h = length (filter (\<lambda>(st, sec). st = u ''ok'') calls)
     \<and> h_timeouts h = length (filter (\<lambda>(st, sec). st = u ''timeout'') calls)"
proof -
  have "health_ok (fold (\<lambda>(st, sec). note_health st sec) calls new_health)"
    using health.run_inv [of new_health calls]
    by (simp add: foldl_conv_fold case_prod_unfold health_ok_def new_health_def)
  then show ?thesis by (simp add: note_health_counts health_ok_def new_health_def)
qed

text \<open>
  A trace is finished once: the first \<open>finish\<close> sets the end, the error and the status, later ones
  change nothing; the status is \<open>"ok"\<close> without an error, and also when the error text is empty.
\<close>

theorem trace_finishes_once:
  assumes "tr_finished_at t = None"
  shows "finish_trace stamp' error' (finish_trace stamp error t) = finish_trace stamp error t
    \<and> tr_finished_at (finish_trace stamp error t) = Some stamp
    \<and> (tr_status (finish_trace stamp error t) = u ''ok'' \<longleftrightarrow> error = None \<or> error = Some [])"
  using assms by (auto simp: finish_trace_def split: option.splits)

theorem trace_finishes_once_witness:
  "tr_status (finish_trace [] (Some []) (sample_trace 0)) = u ''ok''"
  using trace_finishes_once [of "sample_trace 0" "[]" None "[]" "Some []"]
  by (simp add: sample_trace_def new_trace_def)

end
