(* ===== verification/Calls.thy ===== *)
theory Calls
  imports Agents Budget Observability
begin

text \<open>
  The agent calls of \<open>strategies.py\<close>: one call with its budget reservation, health counter and span,
  the call under a time-out, and the parallel call of a team. \<open>rt\<close> is what a run sees: the
  coordinator, the traces and budgets that exist (shared objects, referred to by index), the three
  context variables of the thread and the world. The pool is the oracle \<open>pooling\<close>: whether a slot is
  free, whether a call answers before its time-out, and how parallel calls interleave. A call whose
  caller stopped waiting has reserved its slot; what it does later is no part of the run.
\<close>

section \<open>State\<close>

record 'w coord =
  co_agents :: "(pystr \<times> 'w agent) list"
  co_health :: "(pystr \<times> health) list"
  co_memory :: store
  co_timeout :: real
  co_policy :: "policy option"
  co_cache :: bool
  co_budget :: "limits option"
  co_runs :: registry

record 'w rt =
  rt_coord :: "'w coord"
  rt_traces :: "trace list"
  rt_budgets :: "budget list"
  rt_trace_var :: "nat cvar"
  rt_deadline_var :: "real cvar"
  rt_budget_var :: "nat cvar"
  rt_world :: 'w

text \<open>\<open>Begin i\<close> and \<open>End i\<close> of the \<open>i\<close>-th submitted call; the caller wakes up after each list of them.\<close>

datatype job_event = Begin nat | End nat

record 'w pooling =
  g_submit :: "'w \<Rightarrow> bool \<times> 'w"
  g_answers :: "real \<Rightarrow> 'w \<Rightarrow> bool \<times> 'w"
  g_rounds :: "nat \<Rightarrow> real option \<Rightarrow> 'w \<Rightarrow> job_event list list \<times> 'w"

section \<open>Bookkeeping\<close>

definition get_agent :: "pystr \<Rightarrow> 'w coord \<Rightarrow> 'w agent option" where
  "get_agent name c = map_of (co_agents c) name"

definition agents :: "'w coord \<Rightarrow> 'w agent list" where
  "agents c = map snd (co_agents c)"

definition agent_names :: "'w coord \<Rightarrow> pystr list" where
  "agent_names c = map fst (co_agents c)"

definition put_agent :: "pystr \<Rightarrow> 'w agent \<Rightarrow> 'w rt \<Rightarrow> 'w rt" where
  "put_agent name a s =
     s\<lparr>rt_coord := (rt_coord s)\<lparr>co_agents := AList.update name a (co_agents (rt_coord s))\<rparr>\<rparr>"

definition usage_counters :: "pystr \<Rightarrow> 'w rt \<Rightarrow> counters" where
  "usage_counters name s =
     (case get_agent name (rt_coord s) of None \<Rightarrow> [] | Some a \<Rightarrow> a_usage (base_of a))"

definition usage_delta :: "counters \<Rightarrow> counters \<Rightarrow> usage" where
  "usage_delta after before = map (\<lambda>(k, v). (k, IntV (v - counter before k))) after"

definition policy_chars :: "'w coord \<Rightarrow> int option" where
  "policy_chars c = (case co_policy c of None \<Rightarrow> None | Some p \<Rightarrow> p_max_chars p)"

definition health_of :: "pystr \<Rightarrow> 'w coord \<Rightarrow> health" where
  "health_of name c = (case map_of (co_health c) name of None \<Rightarrow> new_health | Some h \<Rightarrow> h)"

text \<open>No health is kept for an agent that is not registered: the object \<open>None\<close> takes no attribute.\<close>

definition known_agent :: "pystr \<Rightarrow> 'w rt \<Rightarrow> bool" where
  "known_agent name s \<longleftrightarrow> get_agent name (rt_coord s) \<noteq> None"

definition note_agent_call :: "pystr \<Rightarrow> pystr \<Rightarrow> real \<Rightarrow> 'w rt \<Rightarrow> 'w rt" where
  "note_agent_call name status seconds s =
     (if \<not> known_agent name s then s else
     s\<lparr>rt_coord := (rt_coord s)\<lparr>co_health :=
         AList.update name (note_health status seconds (health_of name (rt_coord s))) (co_health (rt_coord s))\<rparr>\<rparr>)"

definition on_trace :: "nat option \<Rightarrow> (trace \<Rightarrow> trace) \<Rightarrow> 'w rt \<Rightarrow> 'w rt" where
  "on_trace tr f s =
     (case tr of
        None \<Rightarrow> s
      | Some i \<Rightarrow> if i < length (rt_traces s) then s\<lparr>rt_traces := (rt_traces s)[i := f (rt_traces s ! i)]\<rparr> else s)"

text \<open>\<open>_note_call\<close>; multiplying the seconds \<open>None\<close> raises after the call was counted.\<close>

definition none_seconds :: exn where
  "none_seconds = Exn CTypeError (u ''unsupported operand type(s) for *: NoneType and float'')"

definition count_call :: "pystr \<Rightarrow> 'w rt \<Rightarrow> 'w rt" where
  "count_call name s =
     (if \<not> known_agent name s then s else
     s\<lparr>rt_coord := (rt_coord s)\<lparr>co_health :=
         (let h = health_of name (rt_coord s)
          in AList.update name (h\<lparr>h_calls := h_calls h + 1\<rparr>) (co_health (rt_coord s)))\<rparr>\<rparr>)"

definition note_call ::
    "'w ext \<Rightarrow> pystr \<Rightarrow> nat option \<Rightarrow> pystr \<Rightarrow> real option \<Rightarrow> pystr option \<Rightarrow> 'w rt \<Rightarrow> exn option \<times> 'w rt" where
  "note_call x name tr status seconds error s =
     (case seconds of
        None \<Rightarrow> (Some none_seconds, count_call name s)
      | Some sec \<Rightarrow>
          (None, on_trace tr (add_span (new_span (x_stamp x (rt_world s)) (if known_agent name s then name else u ''?'') status (sec * 1000) (u ''agent'') error))
                   (note_agent_call name status sec s)))"

section \<open>One call\<close>

text \<open>\<open>_run_agent_once\<close> up to the call: the reservation and the readings.\<close>

definition on_budget :: "nat option \<Rightarrow> (budget \<Rightarrow> exn + budget) \<Rightarrow> 'w rt \<Rightarrow> exn option \<times> 'w rt" where
  "on_budget br f s =
     (case br of
        None \<Rightarrow> (None, s)
      | Some i \<Rightarrow>
          if i < length (rt_budgets s)
          then (case f (rt_budgets s ! i) of
                  Inl e \<Rightarrow> (Some e, s)
                | Inr b \<Rightarrow> (None, s\<lparr>rt_budgets := (rt_budgets s)[i := b]\<rparr>))
          else (None, s))"

type_synonym started = "counters \<times> real"

definition begin_call :: "'w ext \<Rightarrow> pystr \<Rightarrow> nat option \<Rightarrow> 'w rt \<Rightarrow> (exn + started) \<times> 'w rt" where
  "begin_call x name br s =
     (case on_budget br reserve s of
        (Some e, s1) \<Rightarrow> (Inl e, s1)
      | (None, s1) \<Rightarrow> (Inr (usage_counters name s1, x_clock x (rt_world s1)), s1))"

definition ask_agent ::
    "'w ext \<Rightarrow> pystr \<Rightarrow> pyval \<Rightarrow> chat list \<Rightarrow> 'w rt \<Rightarrow> (exn + pyval) \<times> 'w rt" where
  "ask_agent x name message context s =
     (case get_agent name (rt_coord s) of
        None \<Rightarrow> (Inl (Exn CAttributeError (quoted (u ''NoneType'') @ u '' object has no attribute '' @ quoted (u ''handle''))), s)
      | Some a \<Rightarrow>
          (case handle x message context a (rt_world s) of
             (out, a1, w1) \<Rightarrow> (out, put_agent name a1 (s\<lparr>rt_world := w1\<rparr>))))"

text \<open>The \<open>try\<close>, and the \<open>finally\<close>: recorded unless the caller gave up, settled, and an exception of the
  settling wins over the outcome.\<close>

definition call_outcome :: "exn + pyval \<Rightarrow> (exn + pyval) \<times> pystr \<times> pystr option" where
  "call_outcome out =
     (case out of
        Inr v \<Rightarrow> (Inr v, u ''ok'', None)
      | Inl e \<Rightarrow>
          if catches CBudgetExceeded e \<or> \<not> catches CException e then (Inl e, u ''ok'', None)
          else (Inr (error_dict (exc_msg e)), u ''error'', Some (exc_msg e)))"

definition end_call ::
    "'w ext \<Rightarrow> pystr \<Rightarrow> pyval \<Rightarrow> chat list \<Rightarrow> nat option \<Rightarrow> bool \<Rightarrow> nat option \<Rightarrow> started \<Rightarrow> 'w rt
     \<Rightarrow> (exn + pyval) \<times> 'w rt" where
  "end_call x name message context tr quiet br st s =
     (case ask_agent x name message context s of
        (out, s1) \<Rightarrow>
          (case call_outcome out of
             (res, status, error) \<Rightarrow>
               (let seconds = x_clock x (rt_world s1) - snd st;
                    s2 = (if quiet then s1 else snd (note_call x name tr status (Some seconds) error s1))
                in case on_budget br (settle (Some (usage_delta (usage_counters name s2) (fst st)))) s2 of
                     (Some e, s3) \<Rightarrow> (Inl e, s3)
                   | (None, s3) \<Rightarrow> (res, s3))))"

definition run_agent_once ::
    "'w ext \<Rightarrow> pystr \<Rightarrow> pyval \<Rightarrow> chat list \<Rightarrow> nat option \<Rightarrow> bool \<Rightarrow> nat option \<Rightarrow> 'w rt
     \<Rightarrow> (exn + pyval) \<times> 'w rt" where
  "run_agent_once x name message context tr quiet br s =
     (case begin_call x name br s of
        (Inl e, s1) \<Rightarrow> (Inl e, s1)
      | (Inr st, s1) \<Rightarrow> end_call x name message context tr quiet br st s1)"

section \<open>A call under a time-out\<close>

definition timeout_value :: pyval where
  "timeout_value = error_dict (u ''timeout'')"

text \<open>The run deadline ends the wait, up to a microsecond.\<close>

definition run_binds :: "real option \<Rightarrow> real \<Rightarrow> bool" where
  "run_binds run_dl wait_end = (case run_dl of None \<Rightarrow> False | Some d \<Rightarrow> d \<le> wait_end + 1 / 10 ^ 6)"

definition give_up ::
    "'w ext \<Rightarrow> pystr \<Rightarrow> nat option \<Rightarrow> bool \<Rightarrow> real \<Rightarrow> pystr \<Rightarrow> 'w rt \<Rightarrow> (exn + pyval) \<times> 'w rt" where
  "give_up x name tr binds timeout why s =
     (if binds then (Inl deadline_exn, s)
      else (case note_call x name tr (u ''timeout'') (Some timeout) (Some why) s of
              (Some e, s1) \<Rightarrow> (Inl e, s1)
            | (None, s1) \<Rightarrow> (Inr timeout_value, s1)))"

definition call_agent ::
    "'w ext \<Rightarrow> 'w pooling \<Rightarrow> pystr \<Rightarrow> pyval \<Rightarrow> chat list \<Rightarrow> real option \<Rightarrow> 'w rt \<Rightarrow> (exn + pyval) \<times> 'w rt" where
  "call_agent x g name message context timeout s =
     (let active = current_trace (rt_trace_var s);
          br = current_budget (rt_budget_var s);
          run_dl = run_deadline (rt_deadline_var s);
          now = x_clock x (rt_world s)
      in case clamp_timeout run_dl now timeout of
           Inl e \<Rightarrow> (Inl e, s)
         | Inr None \<Rightarrow> run_agent_once x name message context active False br s
         | Inr (Some t) \<Rightarrow>
             (let binds = run_binds run_dl (now + t)
              in case g_submit g (rt_world s) of
                   (False, w1) \<Rightarrow> give_up x name active binds t (u ''pool saturated'') (s\<lparr>rt_world := w1\<rparr>)
                 | (True, w1) \<Rightarrow>
                     (case begin_call x name br (s\<lparr>rt_world := w1\<rparr>) of
                        (Inl e, s2) \<Rightarrow> (Inl e, s2)
                      | (Inr st, s2) \<Rightarrow>
                          (case g_answers g (max 0 t) (rt_world s2) of
                             (True, w3) \<Rightarrow> end_call x name message context active False br st (s2\<lparr>rt_world := w3\<rparr>)
                           | (False, w3) \<Rightarrow>
                               give_up x name active binds t (u ''timeout'') (s2\<lparr>rt_world := w3\<rparr>)))))"

section \<open>Parallel calls\<close>

datatype job_state = Queued | Running started | Done "exn + pyval"

record job =
  jb_name :: pystr
  jb_context :: "chat list"
  jb_state :: job_state

text \<open>The submissions: a saturated pool answers for the agent with a time-out.\<close>

fun submit_jobs ::
    "'w ext \<Rightarrow> 'w pooling \<Rightarrow> (pystr \<Rightarrow> chat list) \<Rightarrow> nat option \<Rightarrow> real option \<Rightarrow> pystr list \<Rightarrow> 'w rt
     \<Rightarrow> (exn + job list \<times> (pystr \<times> pyval) list) \<times> 'w rt" where
  "submit_jobs x g ctx tr timeout [] s = (Inr ([], []), s)"
| "submit_jobs x g ctx tr timeout (n # ns) s =
     (case g_submit g (rt_world s) of
        (True, w1) \<Rightarrow>
          (case submit_jobs x g ctx tr timeout ns (s\<lparr>rt_world := w1\<rparr>) of
             (Inl e, s2) \<Rightarrow> (Inl e, s2)
           | (Inr (jobs, results), s2) \<Rightarrow>
               (Inr (\<lparr>jb_name = n, jb_context = ctx n, jb_state = Queued\<rparr> # jobs, results), s2))
      | (False, w1) \<Rightarrow>
          (case note_call x n tr (u ''timeout'') timeout (Some (u ''pool saturated'')) (s\<lparr>rt_world := w1\<rparr>) of
             (Some e, s2) \<Rightarrow> (Inl e, s2)
           | (None, s2) \<Rightarrow>
               (case submit_jobs x g ctx tr timeout ns s2 of
                  (Inl e, s3) \<Rightarrow> (Inl e, s3)
                | (Inr (jobs, results), s3) \<Rightarrow> (Inr (jobs, (n, timeout_value) # results), s3))))"

definition job_step ::
    "'w ext \<Rightarrow> pyval \<Rightarrow> nat option \<Rightarrow> nat option \<Rightarrow> job_event \<Rightarrow> job list \<times> 'w rt \<Rightarrow> job list \<times> 'w rt" where
  "job_step x message tr br ev p =
     (case p of (jobs, s) \<Rightarrow>
        (case ev of
           Begin i \<Rightarrow>
             if i < length jobs \<and> jb_state (jobs ! i) = Queued
             then (case begin_call x (jb_name (jobs ! i)) br s of
                     (Inl e, s1) \<Rightarrow> (jobs[i := (jobs ! i)\<lparr>jb_state := Done (Inl e)\<rparr>], s1)
                   | (Inr st, s1) \<Rightarrow> (jobs[i := (jobs ! i)\<lparr>jb_state := Running st\<rparr>], s1))
             else p
         | End i \<Rightarrow>
             if i < length jobs
             then (case jb_state (jobs ! i) of
                     Running st \<Rightarrow>
                       (case end_call x (jb_name (jobs ! i)) message (jb_context (jobs ! i)) tr False br st s of
                          (out, s1) \<Rightarrow> (jobs[i := (jobs ! i)\<lparr>jb_state := Done out\<rparr>], s1))
                   | _ \<Rightarrow> p)
             else p))"

definition job_done :: "job list \<Rightarrow> nat \<Rightarrow> bool" where
  "job_done jobs i \<longleftrightarrow> (case jb_state (jobs ! i) of Done out \<Rightarrow> True | _ \<Rightarrow> False)"

text \<open>The futures reported done, in the order of \<open>list(pending)\<close>: what is left, and the results.\<close>

fun collect_jobs ::
    "job list \<Rightarrow> nat list \<Rightarrow> (pystr \<times> pyval) list \<Rightarrow> exn + nat list \<times> (pystr \<times> pyval) list" where
  "collect_jobs jobs [] results = Inr ([], results)"
| "collect_jobs jobs (i # is) results =
     (case jb_state (jobs ! i) of
        Done (Inl e) \<Rightarrow> Inl e
      | Done (Inr v) \<Rightarrow> collect_jobs jobs is (AList.update (jb_name (jobs ! i)) v results)
      | _ \<Rightarrow>
          (case collect_jobs jobs is results of
             Inl e \<Rightarrow> Inl e
           | Inr (left, res) \<Rightarrow> Inr (i # left, res)))"

text \<open>The \<open>while pending\<close> loop; a wake-up with no future done, or none at all, ends it.\<close>

fun wait_jobs ::
    "'w ext \<Rightarrow> pyval \<Rightarrow> nat option \<Rightarrow> nat option \<Rightarrow> job_event list list \<Rightarrow> job list \<Rightarrow> nat list
     \<Rightarrow> (pystr \<times> pyval) list \<Rightarrow> 'w rt \<Rightarrow> (exn + job list \<times> nat list \<times> (pystr \<times> pyval) list) \<times> 'w rt" where
  "wait_jobs x message tr br [] jobs pending results s = (Inr (jobs, pending, results), s)"
| "wait_jobs x message tr br (evs # rounds) jobs pending results s =
     (if pending = [] then (Inr (jobs, pending, results), s)
      else
        (case fold (job_step x message tr br) evs (jobs, s) of
           (jobs1, s1) \<Rightarrow>
             if \<not> list_ex (job_done jobs1) pending then (Inr (jobs1, pending, results), s1)
             else
               (case collect_jobs jobs1 pending results of
                  Inl e \<Rightarrow> (Inl e, s1)
                | Inr (pending1, results1) \<Rightarrow>
                    wait_jobs x message tr br rounds jobs1 pending1 results1 s1)))"

fun abandon_jobs ::
    "'w ext \<Rightarrow> nat option \<Rightarrow> real \<Rightarrow> job list \<Rightarrow> nat list \<Rightarrow> (pystr \<times> pyval) list \<Rightarrow> 'w rt
     \<Rightarrow> (pystr \<times> pyval) list \<times> 'w rt" where
  "abandon_jobs x tr seconds jobs [] results s = (results, s)"
| "abandon_jobs x tr seconds jobs (i # is) results s =
     (let n = jb_name (jobs ! i);
          results1 = (if map_of results n = None then AList.update n timeout_value results else results);
          s1 = snd (note_call x n tr (u ''timeout'') (Some seconds) (Some (u ''timeout'')) s)
      in abandon_jobs x tr seconds jobs is results1 s1)"

definition in_order :: "pystr list \<Rightarrow> (pystr \<times> pyval) list \<Rightarrow> (pystr \<times> pyval) list" where
  "in_order names results =
     fold (\<lambda>n d. case map_of results n of None \<Rightarrow> d | Some v \<Rightarrow> AList.update n v d) names []"

text \<open>\<open>_parallel\<close>; \<open>None\<close> is a wait without a deadline for a call that never answers.\<close>

definition parallel ::
    "'w ext \<Rightarrow> 'w pooling \<Rightarrow> pyval \<Rightarrow> pystr list \<Rightarrow> (pystr \<Rightarrow> chat list) \<Rightarrow> real option \<Rightarrow> 'w rt
     \<Rightarrow> ((exn + (pystr \<times> pyval) list) \<times> 'w rt) option" where
  "parallel x g message names ctx timeout0 s =
     (let run_dl = run_deadline (rt_deadline_var s)
      in case clamp_timeout run_dl (x_clock x (rt_world s)) timeout0 of
           Inl e \<Rightarrow> Some (Inl e, s)
         | Inr timeout \<Rightarrow>
             (let tr = current_trace (rt_trace_var s);
                  br = current_budget (rt_budget_var s)
              in case submit_jobs x g ctx tr timeout names s of
                   (Inl e, s1) \<Rightarrow> Some (Inl e, s1)
                 | (Inr (jobs, early), s1) \<Rightarrow>
                     (let wait_end = map_option (\<lambda>t. x_clock x (rt_world s1) + t) timeout;
                          binds = (run_dl \<noteq> None \<and> (case wait_end of None \<Rightarrow> True | Some d \<Rightarrow> run_binds run_dl d));
                          deadline = (if binds then run_dl else wait_end);
                          results0 = fold (\<lambda>(n, v). AList.update n v) early [];
                          (rounds, w2) = g_rounds g (length jobs) deadline (rt_world s1)
                      in case wait_jobs x message tr br rounds jobs [0..<length jobs] results0 (s1\<lparr>rt_world := w2\<rparr>) of
                           (Inl e, s3) \<Rightarrow> Some (Inl e, s3)
                         | (Inr (jobs1, pending, results), s3) \<Rightarrow>
                             if pending \<noteq> [] \<and> binds then Some (Inl deadline_exn, s3)
                             else if pending \<noteq> [] \<and> deadline = None then None
                             else
                               (case abandon_jobs x tr (case timeout of None \<Rightarrow> 0 | Some t \<Rightarrow> t) jobs1 pending results s3 of
                                  (results1, s4) \<Rightarrow> Some (Inr (in_order names results1), s4)))))"

section \<open>Texts, memory and metadata\<close>

definition blank2 :: pystr where
  "blank2 = [10, 10]"

definition join_answers :: "(pystr \<times> pyval) list \<Rightarrow> pystr \<Rightarrow> pystr" where
  "join_answers responses fallback =
     (let parts = map (\<lambda>(n, v). py_str v) (filter (\<lambda>(n, v). \<not> is_error_dict v) responses)
      in if parts = [] then fallback else py_join blank2 parts)"

definition format_statements :: "(pystr \<times> pyval) list \<Rightarrow> pystr" where
  "format_statements responses =
     py_join blank2
       (map (\<lambda>(n, v). u ''['' @ n @ u '']: '' @ py_str v) (filter (\<lambda>(n, v). \<not> is_error_dict v) responses))"

definition record_message :: "pystr \<Rightarrow> pyval \<Rightarrow> pystr option \<Rightarrow> 'w rt \<Rightarrow> 'w rt" where
  "record_message role content agent s =
     s\<lparr>rt_coord := (rt_coord s)\<lparr>co_memory :=
         add_message \<lparr>m_role = role, m_content = content, m_agent = agent, m_meta = []\<rparr> (co_memory (rt_coord s))\<rparr>\<rparr>"

text \<open>\<open>for name, resp in responses.items(): if not _is_error(resp): _record(...)\<close>.\<close>

definition record_answer :: "pystr \<Rightarrow> pyval \<Rightarrow> 'w rt \<Rightarrow> 'w rt" where
  "record_answer name v s =
     (if is_error_dict v then s else record_message (u ''assistant'') v (Some name) s)"

definition record_answers :: "(pystr \<times> pyval) list \<Rightarrow> 'w rt \<Rightarrow> 'w rt" where
  "record_answers responses s = fold (\<lambda>(n, v). record_answer n v) responses s"

record run_meta =
  mt_elapsed :: real
  mt_agents :: "pystr list"
  mt_strategy :: pystr
  mt_totals :: counters
  mt_usage :: "(pystr \<times> counters) list"
  mt_cache_hits :: int
  mt_run_id :: "pystr option"
  mt_budget :: "budget_stats option"

definition meta_totals :: "'w agent list \<Rightarrow> counters" where
  "meta_totals as =
     fold (\<lambda>a t. if counter (a_usage (base_of a)) (u ''total_tokens'') = 0 then t
                else map (\<lambda>(k, n). (k, n + counter (a_usage (base_of a)) k)) t) as zero_usage"

definition meta_usage :: "'w agent list \<Rightarrow> (pystr \<times> counters) list" where
  "meta_usage as =
     fold (\<lambda>a d. if counter (a_usage (base_of a)) (u ''total_tokens'') = 0 then d
                else AList.update (a_name (base_of a)) (a_usage (base_of a)) d) as []"

definition run_metadata :: "'w ext \<Rightarrow> 'w coord \<Rightarrow> real \<Rightarrow> pystr \<Rightarrow> 'w \<Rightarrow> run_meta" where
  "run_metadata x c start strategy w =
     \<lparr>mt_elapsed = py_round 3 (x_clock x w - start), mt_agents = map (\<lambda>a. a_name (base_of a)) (agents c),
      mt_strategy = strategy, mt_totals = meta_totals (agents c), mt_usage = meta_usage (agents c),
      mt_cache_hits = sum_list (map (\<lambda>a. a_hits (base_of a)) (agents c)), mt_run_id = None,
      mt_budget = None\<rparr>"

section \<open>What every step of a run keeps\<close>

text \<open>A step leaves the context variables, the configuration and the registry of runs alone, and the
  objects that exist stay what they are.\<close>

definition budget_terms :: "budget \<Rightarrow> int option \<times> pricer option" where
  "budget_terms b = (b_max_calls b, b_pricer b)"

text \<open>A trace but for what agents and tasks add to it.\<close>

definition trace_head :: "trace \<Rightarrow> trace" where
  "trace_head t = t\<lparr>tr_spans := [], tr_tasks := []\<rparr>"

lemma trace_head_add [simp]: "trace_head (add_span sp t) = trace_head t" "trace_head (add_task k t) = trace_head t"
  by (simp_all add: trace_head_def add_span_def add_task_def)

lemma trace_head_reads:
  "tr_obj (trace_head t) = tr_obj t" "tr_run_id (trace_head t) = tr_run_id t" "tr_prompt (trace_head t) = tr_prompt t"
  "tr_strategy (trace_head t) = tr_strategy t" "tr_session (trace_head t) = tr_session t"
  "tr_finished_at (trace_head t) = tr_finished_at t"
  by (simp_all add: trace_head_def)

definition frame :: "'w rt \<Rightarrow> 'w rt \<Rightarrow> bool" where
  "frame s s' \<longleftrightarrow>
     rt_trace_var s' = rt_trace_var s \<and> rt_deadline_var s' = rt_deadline_var s
     \<and> rt_budget_var s' = rt_budget_var s
     \<and> map trace_head (rt_traces s') = map trace_head (rt_traces s)
     \<and> map budget_terms (rt_budgets s') = map budget_terms (rt_budgets s)
     \<and> agent_names (rt_coord s') = agent_names (rt_coord s)
     \<and> co_timeout (rt_coord s') = co_timeout (rt_coord s) \<and> co_policy (rt_coord s') = co_policy (rt_coord s)
     \<and> co_cache (rt_coord s') = co_cache (rt_coord s) \<and> co_budget (rt_coord s') = co_budget (rt_coord s)
     \<and> co_runs (rt_coord s') = co_runs (rt_coord s)"

lemma frame_refl [simp]: "frame s s"
  by (simp add: frame_def)

lemma frame_trans: "frame s s' \<Longrightarrow> frame s' s'' \<Longrightarrow> frame s s''"
  by (simp add: frame_def)

lemma frame_world [simp]: "frame s (s\<lparr>rt_world := w\<rparr>)"
  by (simp add: frame_def)

text \<open>A budget with \<open>k\<close> of its reservations held by the calls at hand; the limit holds for the calls made
  and the ones in flight together.\<close>

definition slots_ok :: "nat \<Rightarrow> budget \<Rightarrow> bool" where
  "slots_ok k b \<longleftrightarrow>
     int k \<le> b_reserved b
     \<and> (case b_max_calls b of None \<Rightarrow> True | Some m \<Rightarrow> b_calls b + b_reserved b \<le> max 0 m)"

lemma slots_ok_less: "slots_ok k b \<Longrightarrow> j \<le> k \<Longrightarrow> slots_ok j b"
  by (auto simp: slots_ok_def)

lemma slots_reserve: "slots_ok k b \<Longrightarrow> reserve b = Inr b' \<Longrightarrow> slots_ok (Suc k) b' \<and> b_max_calls b' = b_max_calls b"
  by (auto simp: slots_ok_def reserve_def over_def split: if_splits option.splits)

lemma slots_settle: "slots_ok (Suc k) b \<Longrightarrow> settle us b = Inr b' \<Longrightarrow> slots_ok k b' \<and> b_max_calls b' = b_max_calls b"
  by (auto simp: slots_ok_def settle_def split: option.splits sum.splits if_splits)

text \<open>All budgets are in order, and budget \<open>br\<close> has \<open>k\<close> reservations at hand.\<close>

definition budgets_ok :: "nat option \<Rightarrow> nat \<Rightarrow> 'w rt \<Rightarrow> bool" where
  "budgets_ok br k s \<longleftrightarrow>
     (\<forall>i < length (rt_budgets s). slots_ok (if br = Some i then k else 0) (rt_budgets s ! i))"

lemma budgets_ok_less: "budgets_ok br k s \<Longrightarrow> j \<le> k \<Longrightarrow> budgets_ok br j s"
proof -
  assume a: "budgets_ok br k s" and j: "j \<le> k"
  have "slots_ok (if br = Some i then j else 0) (rt_budgets s ! i)" if "i < length (rt_budgets s)" for i
  proof -
    have "slots_ok (if br = Some i then k else 0) (rt_budgets s ! i)" using a that by (simp add: budgets_ok_def)
    then show ?thesis by (rule slots_ok_less) (simp add: j)
  qed
  then show "budgets_ok br j s" by (simp add: budgets_ok_def)
qed

lemma budgets_ok_zero: "budgets_ok br 0 s \<longleftrightarrow> budgets_ok None 0 s"
  by (simp add: budgets_ok_def)

lemma budgets_ok_same: "rt_budgets s' = rt_budgets s \<Longrightarrow> budgets_ok br k s' = budgets_ok br k s"
  by (simp add: budgets_ok_def)

lemma budgets_ok_world [simp]: "budgets_ok br k (s\<lparr>rt_world := w\<rparr>) = budgets_ok br k s"
  by (simp add: budgets_ok_def)

lemma note_call_keeps:
  "note_call x name tr status sec err s = (e, s') \<Longrightarrow> frame s s' \<and> rt_budgets s' = rt_budgets s
     \<and> rt_world s' = rt_world s \<and> co_agents (rt_coord s') = co_agents (rt_coord s)"
  by (auto simp: note_call_def count_call_def note_agent_call_def on_trace_def frame_def agent_names_def
      map_update list_update_same_conv split: option.splits if_splits)

lemma on_budget_keeps: "on_budget br f s = (e, s') \<Longrightarrow>
     (\<And>b b'. f b = Inr b' \<Longrightarrow> budget_terms b' = budget_terms b) \<Longrightarrow>
     frame s s' \<and> rt_coord s' = rt_coord s \<and> rt_world s' = rt_world s"
  by (auto simp: on_budget_def frame_def map_update list_update_same_conv
      split: option.splits if_splits sum.splits)

lemma reserve_terms: "reserve b = Inr b' \<Longrightarrow> budget_terms b' = budget_terms b"
  by (auto simp: reserve_def budget_terms_def split: if_splits)

lemma settle_terms: "settle us b = Inr b' \<Longrightarrow> budget_terms b' = budget_terms b"
  by (auto simp: settle_def budget_terms_def split: option.splits sum.splits if_splits)

lemma on_budget_ok:
  assumes "on_budget br f s = (e, s')" "budgets_ok br k s"
    "\<And>b b'. slots_ok k b \<Longrightarrow> f b = Inr b' \<Longrightarrow> slots_ok j b'"
  shows "e = None \<Longrightarrow> budgets_ok br j s'"
  using assms by (fastforce simp: on_budget_def budgets_ok_def nth_list_update split: option.splits if_splits sum.splits)

lemma on_budget_error: "on_budget br f s = (e, s') \<Longrightarrow> e \<noteq> None \<Longrightarrow> s' = s"
  by (auto simp: on_budget_def split: option.splits if_splits sum.splits)

lemma begin_call_keeps:
  assumes "begin_call x name br s = (r, s1)"
  shows "frame s s1" "rt_coord s1 = rt_coord s" "rt_world s1 = rt_world s"
    "budgets_ok br k s \<Longrightarrow> r = Inr st \<Longrightarrow> budgets_ok br (Suc k) s1"
    "budgets_ok br k s \<Longrightarrow> budgets_ok br k s1"
proof -
  obtain e s2 where b: "on_budget br reserve s = (e, s2)" by fastforce
  with assms have s1: "s1 = s2" and r: "(e \<noteq> None) = (\<exists>x. r = Inl x)" by (auto simp: begin_call_def split: option.splits)
  show "frame s s1" "rt_coord s1 = rt_coord s" "rt_world s1 = rt_world s"
    using on_budget_keeps [OF b] by (auto simp: s1 reserve_terms)
  have up: "budgets_ok br (Suc k) s1" if "budgets_ok br k s" "e = None"
    using on_budget_ok [OF b that(1), of "Suc k"] slots_reserve that(2) by (auto simp: s1)
  show "r = Inr st \<Longrightarrow> budgets_ok br (Suc k) s1" if "budgets_ok br k s" using up [OF that] r by auto
  show "budgets_ok br k s1" if "budgets_ok br k s"
  proof (cases "e = None")
    case True
    show ?thesis using up [OF that True] by (rule budgets_ok_less) simp
  next
    case False
    with on_budget_error [OF b] that show ?thesis by (simp add: s1)
  qed
qed

lemma agent_names_put: "get_agent name (rt_coord s) = Some a \<Longrightarrow> agent_names (rt_coord (put_agent name b s)) = agent_names (rt_coord s)"
proof -
  assume "get_agent name (rt_coord s) = Some a"
  then have "name \<in> set (dkeys (co_agents (rt_coord s)))" by (metis get_agent_def dict_get_None_iff option.distinct(1))
  then show ?thesis unfolding put_agent_def agent_names_def by (simp add: dkeys_update del: set_map)
qed

lemma ask_agent_keeps:
  assumes "ask_agent x name m ctx s = (out, s1)"
  shows "frame s s1" "rt_budgets s1 = rt_budgets s"
  using assms agent_names_put [of name "s\<lparr>rt_world := w\<rparr>" for w]
  by (auto simp: ask_agent_def frame_def put_agent_def split: option.splits prod.splits)

lemma end_call_keeps:
  assumes "end_call x name m ctx tr quiet br st s = (out, s')"
  shows "frame s s'" "budgets_ok br (Suc k) s \<Longrightarrow> budgets_ok br k s'"
proof -
  obtain o1 s1 where a: "ask_agent x name m ctx s = (o1, s1)" by fastforce
  obtain res status error where c: "call_outcome o1 = (res, status, error)" by (metis prod.collapse)
  define s2 where "s2 = (if quiet then s1 else snd (note_call x name tr status (Some (x_clock x (rt_world s1) - snd st)) error s1))"
  have n: "frame s1 s2" "rt_budgets s2 = rt_budgets s1"
    using note_call_keeps [of x name tr status "Some (x_clock x (rt_world s1) - snd st)" error s1]
    by (auto simp: s2_def prod_eq_iff)
  obtain e s3 where b: "on_budget br (settle (Some (usage_delta (usage_counters name s2) (fst st)))) s2 = (e, s3)" by fastforce
  have s': "s' = s3" using assms a c b by (auto simp: end_call_def Let_def s2_def split: option.splits)
  have f3: "frame s2 s3" using on_budget_keeps [OF b] settle_terms by blast
  show "frame s s'" using ask_agent_keeps(1) [OF a] n(1) f3 s' by (metis frame_trans)
  assume ok: "budgets_ok br (Suc k) s"
  have ok2: "budgets_ok br (Suc k) s2" using ok ask_agent_keeps(2) [OF a] n(2) by (simp add: budgets_ok_def)
  show "budgets_ok br k s'"
  proof (cases "e = None")
    case True
    show ?thesis unfolding s'
      by (rule on_budget_ok [OF b ok2 _ True]) (use slots_settle in blast)
  next
    case False
    have "s3 = s2" by (rule on_budget_error [OF b False])
    with ok2 show ?thesis unfolding s' by (auto elim: budgets_ok_less)
  qed
qed

text \<open>What any step of a strategy keeps.\<close>

definition keeps :: "'w rt \<Rightarrow> 'w rt \<Rightarrow> bool" where
  "keeps s s' \<longleftrightarrow> frame s s' \<and> (budgets_ok None 0 s \<longrightarrow> budgets_ok None 0 s')"

lemma keeps_refl [simp]: "keeps s s"
  by (simp add: keeps_def)

lemma keeps_trans: "keeps s s' \<Longrightarrow> keeps s' s'' \<Longrightarrow> keeps s s''"
  by (auto simp: keeps_def intro: frame_trans)

lemma keeps_world [simp]: "keeps s (s\<lparr>rt_world := w\<rparr>)"
  by (simp add: keeps_def)

lemma keeps_note: "note_call x name tr status sec err s = (e, s') \<Longrightarrow> keeps s s'"
  using note_call_keeps by (fastforce simp: keeps_def budgets_ok_def)

lemma keeps_record [simp]: "keeps s (record_message role content agent s)"
  by (simp add: keeps_def frame_def record_message_def budgets_ok_def agent_names_def)

lemma keeps_record_answer [simp]: "keeps s (record_answer n v s)"
  by (simp add: record_answer_def)

lemma keeps_record_answers [simp]: "keeps s (record_answers rs s)"
proof -
  have "keeps s (fold (\<lambda>(n, v). record_answer n v) rs s)"
  proof (induction rs arbitrary: s)
    case (Cons p rs)
    obtain n v where "p = (n, v)" by fastforce
    with Cons [of "record_answer n v s"] show ?case by (auto intro: keeps_trans [OF keeps_record_answer])
  qed simp
  then show ?thesis by (simp add: record_answers_def)
qed

lemma run_agent_once_keeps: "run_agent_once x name m ctx tr quiet br s = (out, s') \<Longrightarrow> keeps s s'"
proof -
  assume r: "run_agent_once x name m ctx tr quiet br s = (out, s')"
  obtain b s1 where b: "begin_call x name br s = (b, s1)" by fastforce
  show ?thesis
  proof (cases b)
    case (Inl e)
    with r b begin_call_keeps(1,5) [OF b] show ?thesis
      by (simp add: run_agent_once_def keeps_def budgets_ok_zero [of br, symmetric])
  next
    case (Inr st)
    with r b have e: "end_call x name m ctx tr quiet br st s1 = (out, s')" by (simp add: run_agent_once_def)
    have "budgets_ok br 0 s'" if "budgets_ok br 0 s"
      by (rule end_call_keeps(2) [OF e begin_call_keeps(4) [OF b that Inr]])
    with frame_trans [OF begin_call_keeps(1) [OF b] end_call_keeps(1) [OF e]] show ?thesis
      by (simp add: keeps_def budgets_ok_zero [of br, symmetric])
  qed
qed

lemma give_up_keeps: "give_up x name tr binds t why s = (out, s') \<Longrightarrow> keeps s s'"
  by (auto simp: give_up_def dest: keeps_note split: if_splits prod.splits option.splits)

lemma call_agent_keeps:
  assumes "call_agent x g name m ctx timeout s = (out, s')"
  shows "keeps s s'"
proof -
  let ?br = "current_budget (rt_budget_var s)" and ?tr = "current_trace (rt_trace_var s)"
  let ?dl = "run_deadline (rt_deadline_var s)" and ?now = "x_clock x (rt_world s)"
  show ?thesis
  proof (cases "clamp_timeout ?dl ?now timeout")
    case (Inl e)
    with assms show ?thesis by (simp add: call_agent_def Let_def)
  next
    case (Inr to)
    show ?thesis
    proof (cases to)
      case None
      with assms Inr show ?thesis by (simp add: call_agent_def Let_def run_agent_once_keeps)
    next
      case (Some t)
      obtain free w1 where f: "g_submit g (rt_world s) = (free, w1)" by fastforce
      let ?s1 = "s\<lparr>rt_world := w1\<rparr>"
      obtain b s2 where b: "begin_call x name ?br ?s1 = (b, s2)" by fastforce
      have k2: "frame s s2" "budgets_ok ?br 0 s \<Longrightarrow> budgets_ok ?br 0 s2"
        using begin_call_keeps(1,5) [OF b] frame_trans [OF frame_world] by auto
      show ?thesis
      proof (cases "free \<and> isl b")
        case True
        with assms Inr Some f b k2 show ?thesis
          by (auto simp: call_agent_def Let_def keeps_def budgets_ok_zero [of ?br, symmetric] isl_def)
      next
        case False
        show ?thesis
        proof (cases free)
          case fr: False
          with assms Inr Some f show ?thesis
            by (auto simp: call_agent_def Let_def intro: keeps_trans [OF keeps_world] give_up_keeps)
        next
          case fr: True
          with False obtain st where st: "b = Inr st" by (cases b) auto
          obtain ans w3 where a: "g_answers g (max 0 t) (rt_world s2) = (ans, w3)" by fastforce
          let ?s3 = "s2\<lparr>rt_world := w3\<rparr>"
          show ?thesis
          proof (cases ans)
            case True
            with assms Inr Some f fr b st a have e: "end_call x name m ctx ?tr False ?br st ?s3 = (out, s')"
              by (simp add: call_agent_def Let_def)
            have "budgets_ok ?br 0 s'" if "budgets_ok ?br 0 s"
            proof -
              have "budgets_ok ?br (Suc 0) s2" using begin_call_keeps(4) [OF b _ st] that by simp
              then show ?thesis using end_call_keeps(2) [OF e] by simp
            qed
            moreover have "frame s s'"
              using frame_trans [OF k2(1) frame_trans [OF frame_world end_call_keeps(1) [OF e]]] .
            ultimately show ?thesis by (simp add: keeps_def budgets_ok_zero [of ?br, symmetric])
          next
            case False
            with assms Inr Some f fr b st a have "keeps ?s3 s'"
              by (auto simp: call_agent_def Let_def intro: give_up_keeps)
            moreover have "keeps s ?s3" using k2 by (auto simp: keeps_def budgets_ok_zero [of ?br, symmetric] intro: frame_trans)
            ultimately show ?thesis by (rule keeps_trans [rotated])
          qed
        qed
      qed
    qed
  qed
qed

section \<open>Parallel calls: what is kept, and that every agent is accounted for\<close>

definition runs :: "job \<Rightarrow> nat" where
  "runs j = (case jb_state j of Running st \<Rightarrow> 1 | _ \<Rightarrow> 0)"

definition running_jobs :: "job list \<Rightarrow> nat" where
  "running_jobs jobs = sum_list (map runs jobs)"

lemma running_jobs_update:
  "i < length jobs \<Longrightarrow> running_jobs (jobs[i := j]) + runs (jobs ! i) = running_jobs jobs + runs j"
  using elem_le_sum_list [of i "map runs jobs"] by (simp add: running_jobs_def map_update sum_list_update)

lemma job_step_keeps:
  assumes "job_step x m tr br ev (jobs, s) = (jobs', s')"
  shows "map jb_name jobs' = map jb_name jobs" "frame s s'"
    "budgets_ok br (running_jobs jobs) s \<Longrightarrow> budgets_ok br (running_jobs jobs') s'"
    "list_all2 (\<lambda>j j'. \<forall>out. jb_state j = Done out \<longrightarrow> jb_state j' = Done out) jobs jobs'"
proof -
  have upd: "map jb_name (jobs[i := (jobs ! i)\<lparr>jb_state := st\<rparr>]) = map jb_name jobs" for i st
    by (cases "i < length jobs") (simp_all add: map_update list_update_same_conv list_update_beyond)
  have same: "list_all2 (\<lambda>j j'. \<forall>out. jb_state j = Done out \<longrightarrow> jb_state j' = Done out) jobs jobs"
    by (simp add: list_all2_conv_all_nth)
  have upd2: "list_all2 (\<lambda>j j'. \<forall>out. jb_state j = Done out \<longrightarrow> jb_state j' = Done out) jobs (jobs[i := j])"
    if "\<And>out. jb_state (jobs ! i) \<noteq> Done out" for i j
    using that by (auto simp: list_all2_conv_all_nth) (metis nth_list_update_neq)
  have "map jb_name jobs' = map jb_name jobs \<and> frame s s'
    \<and> (budgets_ok br (running_jobs jobs) s \<longrightarrow> budgets_ok br (running_jobs jobs') s')
    \<and> list_all2 (\<lambda>j j'. \<forall>out. jb_state j = Done out \<longrightarrow> jb_state j' = Done out) jobs jobs'"
  proof (cases ev)
    case (Begin i)
    show ?thesis
    proof (cases "i < length jobs \<and> jb_state (jobs ! i) = Queued")
      case False
      with assms Begin same show ?thesis by (auto simp: job_step_def)
    next
      case True
      obtain r s1 where b: "begin_call x (jb_name (jobs ! i)) br s = (r, s1)" by fastforce
      show ?thesis
      proof (cases r)
        case (Inl e)
        have "running_jobs (jobs[i := (jobs ! i)\<lparr>jb_state := Done (Inl e)\<rparr>]) = running_jobs jobs"
          using running_jobs_update [of i jobs "(jobs ! i)\<lparr>jb_state := Done (Inl e)\<rparr>"] True by (simp add: runs_def)
        with assms Begin True b Inl upd upd2 [of i] begin_call_keeps(1,5) [OF b] show ?thesis
          by (auto simp: job_step_def)
      next
        case (Inr st)
        have "running_jobs (jobs[i := (jobs ! i)\<lparr>jb_state := Running st\<rparr>]) = Suc (running_jobs jobs)"
          using running_jobs_update [of i jobs "(jobs ! i)\<lparr>jb_state := Running st\<rparr>"] True by (simp add: runs_def)
        with assms Begin True b Inr upd upd2 [of i] begin_call_keeps(1,4) [OF b] show ?thesis
          by (auto simp: job_step_def)
      qed
    qed
  next
    case (End i)
    show ?thesis
    proof (cases "i < length jobs \<and> (\<exists>st. jb_state (jobs ! i) = Running st)")
      case False
      with assms End same show ?thesis by (auto simp: job_step_def split: job_state.splits if_splits)
    next
      case True
      then obtain st where st: "jb_state (jobs ! i) = Running st" by blast
      obtain out s1 where e: "end_call x (jb_name (jobs ! i)) m (jb_context (jobs ! i)) tr False br st s = (out, s1)"
        by fastforce
      have "running_jobs jobs = Suc (running_jobs (jobs[i := (jobs ! i)\<lparr>jb_state := Done out\<rparr>]))"
        using running_jobs_update [of i jobs "(jobs ! i)\<lparr>jb_state := Done out\<rparr>"] True st by (simp add: runs_def)
      with assms End True st e upd upd2 [of i] end_call_keeps [OF e] show ?thesis
        by (auto simp: job_step_def)
    qed
  qed
  then show "map jb_name jobs' = map jb_name jobs" "frame s s'"
    "budgets_ok br (running_jobs jobs) s \<Longrightarrow> budgets_ok br (running_jobs jobs') s'"
    "list_all2 (\<lambda>j j'. \<forall>out. jb_state j = Done out \<longrightarrow> jb_state j' = Done out) jobs jobs'" by blast+
qed

lemma job_steps_keep:
  "fold (job_step x m tr br) evs (jobs, s) = (jobs', s') \<Longrightarrow>
     map jb_name jobs' = map jb_name jobs \<and> frame s s'
     \<and> (budgets_ok br (running_jobs jobs) s \<longrightarrow> budgets_ok br (running_jobs jobs') s')"
proof (induction evs arbitrary: jobs s)
  case (Cons ev evs)
  obtain jobs1 s1 where j: "job_step x m tr br ev (jobs, s) = (jobs1, s1)" by fastforce
  with Cons.prems have f: "fold (job_step x m tr br) evs (jobs1, s1) = (jobs', s')" by simp
  from Cons.IH [OF f] job_step_keeps(1-3) [OF j] show ?case by (auto intro: frame_trans)
qed simp

text \<open>Every submitted call is still waited for or has its result.\<close>

definition accounted :: "job list \<Rightarrow> nat list \<Rightarrow> (pystr \<times> pyval) list \<Rightarrow> bool" where
  "accounted jobs pending results \<longleftrightarrow>
     (\<forall>i < length jobs. i \<in> set pending \<or> jb_name (jobs ! i) \<in> set (dkeys results))
     \<and> (\<forall>i \<in> set pending. i < length jobs)"

lemma collect_jobs_keys:
  "collect_jobs jobs is results = Inr (left, res) \<Longrightarrow>
     set (dkeys results) \<subseteq> set (dkeys res) \<and> set left \<subseteq> set is
     \<and> (\<forall>i \<in> set is. i \<in> set left \<or> jb_name (jobs ! i) \<in> set (dkeys res))"
proof (induction jobs "is" results arbitrary: left res rule: collect_jobs.induct)
  case (2 jobs i "is" results)
  have keys: "set (dkeys (AList.update n v results)) = insert n (set (dkeys results))" for n :: pystr and v :: pyval
    unfolding dkeys_update by auto
  show ?case
  proof (cases "jb_state (jobs ! i)")
    case (Done out)
    show ?thesis
    proof (cases out)
      case (Inr v)
      with 2(4) Done have "collect_jobs jobs is (AList.update (jb_name (jobs ! i)) v results) = Inr (left, res)" by simp
      from 2(3) [OF Done Inr this] show ?thesis unfolding keys by auto
    qed (use 2(4) Done in simp)
  next
    case Queued
    with 2(4) obtain left1 where l: "collect_jobs jobs is results = Inr (left1, res)" "left = i # left1"
      by (auto split: sum.splits)
    from 2(1) [OF Queued l(1)] l(2) show ?thesis by auto
  next
    case (Running st)
    with 2(4) obtain left1 where l: "collect_jobs jobs is results = Inr (left1, res)" "left = i # left1"
      by (auto split: sum.splits)
    from 2(2) [OF Running l(1)] l(2) show ?thesis by auto
  qed
qed simp

lemma wait_jobs_keeps:
  "wait_jobs x m tr br rounds jobs pending results s = (r, s') \<Longrightarrow>
     frame s s' \<and> (budgets_ok br (running_jobs jobs) s \<longrightarrow> budgets_ok br 0 s')
     \<and> (\<forall>jobs' pending' results'. r = Inr (jobs', pending', results') \<longrightarrow>
          map jb_name jobs' = map jb_name jobs \<and> set (dkeys results) \<subseteq> set (dkeys results')
          \<and> (accounted jobs pending results \<longrightarrow> accounted jobs' pending' results'))"
proof (induction x m tr br rounds jobs pending results s rule: wait_jobs.induct)
  case (1 x m tr br jobs pending results s)
  then show ?case by (auto elim: budgets_ok_less)
next
  case (2 x m tr br evs rounds jobs pending results s)
  show ?case
  proof (cases "pending = []")
    case True
    with 2(2) show ?thesis by (auto elim: budgets_ok_less)
  next
    case False
    obtain jobs1 s1 where f: "fold (job_step x m tr br) evs (jobs, s) = (jobs1, s1)" by fastforce
    note k = job_steps_keep [OF f]
    have len: "length jobs1 = length jobs" using k map_eq_imp_length_eq by blast
    have name: "jb_name (jobs1 ! i) = jb_name (jobs ! i)" if "i < length jobs" for i
      using k that len by (metis nth_map)
    have acc1: "accounted jobs pending results \<Longrightarrow> accounted jobs1 pending results"
      using len name by (simp add: accounted_def)
    show ?thesis
    proof (cases "list_ex (job_done jobs1) pending")
      case no: False
      with 2(2) False f k acc1 show ?thesis by (auto elim: budgets_ok_less)
    next
      case yes: True
      show ?thesis
      proof (cases "collect_jobs jobs1 pending results")
        case (Inl e)
        with 2(2) False f k yes show ?thesis by (auto elim: budgets_ok_less)
      next
        case (Inr p)
        obtain pending1 results1 where p: "p = (pending1, results1)" by fastforce
        note c = collect_jobs_keys [OF Inr [unfolded p]]
        have w: "wait_jobs x m tr br rounds jobs1 pending1 results1 s1 = (r, s')"
          using 2(2) False f yes Inr p by simp
        have acc2: "accounted jobs pending results \<Longrightarrow> accounted jobs1 pending1 results1"
          using acc1 c unfolding accounted_def by blast
        from 2(1) [OF False f [symmetric] _ Inr [unfolded p] refl w] yes have ih: "frame s1 s'"
          "budgets_ok br (running_jobs jobs1) s1 \<longrightarrow> budgets_ok br 0 s'"
          "\<forall>jobs' pending' results'. r = Inr (jobs', pending', results') \<longrightarrow>
            map jb_name jobs' = map jb_name jobs1 \<and> set (dkeys results1) \<subseteq> set (dkeys results')
            \<and> (accounted jobs1 pending1 results1 \<longrightarrow> accounted jobs' pending' results')" by simp_all
        have "frame s s'" using k ih(1) frame_trans by blast
        moreover have "budgets_ok br (running_jobs jobs) s \<longrightarrow> budgets_ok br 0 s'" using k ih(2) by blast
        ultimately show ?thesis using ih(3) k c acc2 by (metis (no_types, lifting) subset_trans)
      qed
    qed
  qed
qed

lemma submit_jobs_keeps:
  "submit_jobs x g ctx tr timeout names s = (r, s') \<Longrightarrow>
     keeps s s' \<and> rt_budgets s' = rt_budgets s
     \<and> (\<forall>jobs early. r = Inr (jobs, early) \<longrightarrow>
          set names = set (map jb_name jobs) \<union> set (dkeys early) \<and> running_jobs jobs = 0)"
proof (induction names arbitrary: s r s')
  case (Cons n ns)
  obtain free w1 where f: "g_submit g (rt_world s) = (free, w1)" by fastforce
  show ?case
  proof (cases free)
    case True
    obtain r2 s2 where t: "submit_jobs x g ctx tr timeout ns (s\<lparr>rt_world := w1\<rparr>) = (r2, s2)" by fastforce
    from Cons.IH [OF t] Cons.prems f True t show ?thesis
      by (auto simp: running_jobs_def runs_def intro: keeps_trans [OF keeps_world] split: sum.splits prod.splits)
  next
    case False
    obtain e s1 where e: "note_call x n tr (u ''timeout'') timeout (Some (u ''pool saturated'')) (s\<lparr>rt_world := w1\<rparr>) = (e, s1)"
      by fastforce
    have k: "keeps s s1" "rt_budgets s1 = rt_budgets s"
      using keeps_trans [OF keeps_world keeps_note [OF e]] note_call_keeps [OF e] by auto
    show ?thesis
    proof (cases e)
      case (Some x)
      with Cons.prems f False e k show ?thesis by auto
    next
      case None
      obtain r2 s2 where t: "submit_jobs x g ctx tr timeout ns s1 = (r2, s2)" by fastforce
      from Cons.IH [OF t] Cons.prems f False e None t k show ?thesis
        by (auto intro: keeps_trans split: sum.splits prod.splits)
    qed
  qed
qed (simp add: running_jobs_def)

lemma abandon_jobs_keeps:
  "abandon_jobs x tr sec jobs is results s = (res, s') \<Longrightarrow>
     keeps s s' \<and> set (dkeys results) \<subseteq> set (dkeys res) \<and> (\<forall>i \<in> set is. jb_name (jobs ! i) \<in> set (dkeys res))"
proof (induction "is" arbitrary: results s)
  case (Cons i "is")
  let ?n = "jb_name (jobs ! i)"
  let ?r1 = "if map_of results ?n = None then AList.update ?n timeout_value results else results"
  obtain e s1 where e: "note_call x ?n tr (u ''timeout'') (Some sec) (Some (u ''timeout'')) s = (e, s1)" by fastforce
  with Cons.prems have a: "abandon_jobs x tr sec jobs is ?r1 s1 = (res, s')" by (simp add: Let_def)
  have keys: "set (dkeys (AList.update k v d)) = insert k (set (dkeys d))" for k :: pystr and v :: pyval and d
    unfolding dkeys_update by auto
  have "?n \<in> set (dkeys ?r1)" "set (dkeys results) \<subseteq> set (dkeys ?r1)"
    using keys by (auto simp: dict_get_None_iff)
  with Cons.IH [OF a] keeps_note [OF e] show ?case by (auto intro: keeps_trans)
qed simp

lemma in_order_eq:
  assumes "distinct names"
  shows "in_order names results
    = map (\<lambda>n. (n, the (map_of results n))) (filter (\<lambda>n. map_of results n \<noteq> None) names)"
proof -
  have "fold (\<lambda>n d. case map_of results n of None \<Rightarrow> d | Some v \<Rightarrow> AList.update n v d) names d
      = d @ map (\<lambda>n. (n, the (map_of results n))) (filter (\<lambda>n. map_of results n \<noteq> None) names)"
    if "set names \<inter> set (dkeys d) = {}" for d
    using assms that
  proof (induction names arbitrary: d)
    case (Cons n ns)
    show ?case
    proof (cases "map_of results n")
      case None
      with Cons show ?thesis by simp
    next
      case (Some v)
      have "AList.update n v d = d @ [(n, v)]" using Cons.prems by (intro update_fresh) simp
      with Cons Some show ?thesis by auto
    qed
  qed simp
  from this [of "[]"] show ?thesis by (simp add: in_order_def)
qed

lemma parallel_spec:
  assumes "parallel x g m names ctx timeout s = Some (r, s')"
  shows "keeps s s'" "distinct names \<Longrightarrow> r = Inr res \<Longrightarrow> dkeys res = names"
proof -
  let ?dl = "run_deadline (rt_deadline_var s)"
  let ?tr = "current_trace (rt_trace_var s)" and ?br = "current_budget (rt_budget_var s)"
  have "keeps s s' \<and> (distinct names \<longrightarrow> (\<forall>res. r = Inr res \<longrightarrow> dkeys res = names))"
  proof (cases "clamp_timeout ?dl (x_clock x (rt_world s)) timeout")
    case (Inl e)
    with assms show ?thesis by (auto simp: parallel_def Let_def)
  next
    case (Inr to)
    obtain sub s1 where sub: "submit_jobs x g ctx ?tr to names s = (sub, s1)" by fastforce
    note ks = submit_jobs_keeps [OF sub]
    show ?thesis
    proof (cases sub)
      case (Inl e)
      with assms Inr sub ks show ?thesis by (auto simp: parallel_def Let_def)
    next
      case sr: (Inr p)
      obtain jobs early where p: "p = (jobs, early)" by fastforce
      define wait_end where "wait_end = map_option (\<lambda>t. x_clock x (rt_world s1) + t) to"
      define binds where "binds = (?dl \<noteq> None \<and> (case wait_end of None \<Rightarrow> True | Some d \<Rightarrow> run_binds ?dl d))"
      define deadline where "deadline = (if binds then ?dl else wait_end)"
      define results0 where "results0 = fold (\<lambda>(n, v). AList.update n v) early []"
      obtain rounds w2 where rd: "g_rounds g (length jobs) deadline (rt_world s1) = (rounds, w2)" by fastforce
      obtain wr s3 where w: "wait_jobs x m ?tr ?br rounds jobs [0..<length jobs] results0 (s1\<lparr>rt_world := w2\<rparr>) = (wr, s3)"
        by fastforce
      have par: "parallel x g m names ctx timeout s =
          (case wr of
             Inl e \<Rightarrow> Some (Inl e, s3)
           | Inr (jobs1, pending, results) \<Rightarrow>
               if pending \<noteq> [] \<and> binds then Some (Inl deadline_exn, s3)
               else if pending \<noteq> [] \<and> deadline = None then None
               else
                 (case abandon_jobs x ?tr (case to of None \<Rightarrow> 0 | Some t \<Rightarrow> t) jobs1 pending results s3 of
                    (results1, s4) \<Rightarrow> Some (Inr (in_order names results1), s4)))"
        unfolding parallel_def Let_def Inr sum.case sub sr p prod.case wait_end_def [symmetric] binds_def [symmetric]
          deadline_def [symmetric] results0_def [symmetric] rd w by (cases wr) auto
      note kw = wait_jobs_keeps [OF w]
      have k3: "keeps s s3"
      proof -
        have "frame s s3" using ks kw frame_trans [OF frame_trans [OF _ frame_world]] by (auto simp: keeps_def)
        moreover have "budgets_ok ?br 0 s3" if "budgets_ok ?br 0 s"
        proof -
          have "budgets_ok ?br (running_jobs jobs) s1" using that ks sr p by (auto simp: budgets_ok_def)
          then show ?thesis using kw by auto
        qed
        ultimately show ?thesis by (simp add: keeps_def budgets_ok_zero [of ?br, symmetric])
      qed
      show ?thesis
      proof (cases wr)
        case (Inl e)
        with assms par k3 show ?thesis by auto
      next
        case wi: (Inr q)
        obtain jobs1 pending results where q: "q = (jobs1, pending, results)" by (metis prod.collapse)
        obtain results1 s4 where a: "abandon_jobs x ?tr (case to of None \<Rightarrow> 0 | Some t \<Rightarrow> t) jobs1 pending results s3 = (results1, s4)"
          by fastforce
        note ka = abandon_jobs_keeps [OF a]
        have out: "s' = s3 \<and> r = Inl deadline_exn \<or> s' = s4 \<and> r = Inr (in_order names results1)"
          using assms par wi q a by (auto split: if_splits)
        have "dkeys (in_order names results1) = names" if "distinct names"
        proof -
          have "accounted jobs [0..<length jobs] results0" by (simp add: accounted_def)
          with kw wi q have acc: "accounted jobs1 pending results" "map jb_name jobs1 = map jb_name jobs"
            "set (dkeys results0) \<subseteq> set (dkeys results)" by auto
          have r0: "set (dkeys (fold (\<lambda>(n, v). AList.update n v) es d)) = set (dkeys d) \<union> set (dkeys es)"
            for es d :: "(pystr \<times> pyval) list"
          proof (induction es arbitrary: d)
            case (Cons e es)
            obtain n v where "e = (n, v)" by fastforce
            with Cons [of "AList.update n v d"] show ?case by (simp add: dkeys_update del: set_map) auto
          qed simp
          have "n \<in> set (dkeys results1)" if "n \<in> set names" for n
          proof (cases "n \<in> set (dkeys early)")
            case True
            have "set (dkeys early) = set (dkeys results0)" using r0 [of early "[]"] by (simp add: results0_def)
            then show ?thesis using True acc(3) ka by blast
          next
            case False
            with that ks sr p have "n \<in> set (map jb_name jobs1)" using acc(2) by auto
            then obtain i where i: "i < length jobs1" "jb_name (jobs1 ! i) = n" by (auto simp: in_set_conv_nth)
            have "i \<in> set pending \<or> jb_name (jobs1 ! i) \<in> set (dkeys results)"
              using acc(1) i(1) unfolding accounted_def by blast
            with ka i(2) show ?thesis by blast
          qed
          then have "filter (\<lambda>n. map_of results1 n \<noteq> None) names = names"
            by (intro filter_True) (simp add: dict_get_None_iff)
          then show ?thesis using that by (simp add: in_order_eq o_def)
        qed
        with out k3 ka show ?thesis by (auto intro: keeps_trans)
      qed
    qed
  qed
  then show "keeps s s'" "distinct names \<Longrightarrow> r = Inr res \<Longrightarrow> dkeys res = names" by auto
qed

section \<open>Properties\<close>

text \<open>
  C18. A parallel call accounts for every agent: whatever the pool does and however the calls interleave,
  when it returns there is exactly one response per agent, in the order the agents were asked.
\<close>

theorem parallel_complete:
  assumes "parallel x g m names ctx timeout s = Some (Inr responses, s')" "distinct names"
  shows "map fst responses = names"
  using parallel_spec(2) [OF assms(1) assms(2) refl] .

text \<open>Exceptions a call may let through: the budget, and what no \<open>except Exception\<close> catches.\<close>

definition passes :: "exn \<Rightarrow> bool" where
  "passes e \<longleftrightarrow> catches CBudgetExceeded e \<or> \<not> catches CException e"

definition pricer_safe :: "pricer option \<Rightarrow> bool" where
  "pricer_safe p \<longleftrightarrow> (case p of None \<Rightarrow> True | Some f \<Rightarrow> \<forall>us. \<not> isl (f us))"

definition pricers_safe :: "'w rt \<Rightarrow> bool" where
  "pricers_safe s \<longleftrightarrow> (\<forall>(m, p) \<in> set (map budget_terms (rt_budgets s)). pricer_safe p)"

lemma pricers_safe_frame: "frame s s' \<Longrightarrow> pricers_safe s' = pricers_safe s"
  by (simp add: pricers_safe_def frame_def)

lemma usage_tokens_delta: "\<exists>n. usage_tokens (usage_delta after before) = Inr n"
proof -
  have "map_of (usage_delta after before) k = map_option (\<lambda>v. IntV (v - counter before k)) (map_of after k)" for k
    unfolding usage_delta_def by (induction after) auto
  then show ?thesis by (auto simp: usage_tokens_def split: option.splits)
qed

lemma settle_safe: "pricer_safe (b_pricer b) \<Longrightarrow> \<not> isl (settle (Some (usage_delta after before)) b)"
  using usage_tokens_delta [of after before]
  by (auto simp: settle_def pricer_safe_def isl_def split: option.splits sum.splits)

lemma end_call_passes:
  assumes "end_call x name m ctx tr quiet br st s = (Inl e, s')" "pricers_safe s"
  shows "passes e"
proof -
  obtain o1 s1 where a: "ask_agent x name m ctx s = (o1, s1)" by fastforce
  obtain res status error where c: "call_outcome o1 = (res, status, error)" by (metis prod.collapse)
  define s2 where "s2 = (if quiet then s1 else snd (note_call x name tr status (Some (x_clock x (rt_world s1) - snd st)) error s1))"
  have "frame s1 s2"
    using note_call_keeps [of x name tr status "Some (x_clock x (rt_world s1) - snd st)" error s1]
    by (auto simp: s2_def prod_eq_iff)
  then have "pricers_safe s2" using assms(2) pricers_safe_frame ask_agent_keeps(1) [OF a] by blast
  then have "pricer_safe (b_pricer (rt_budgets s2 ! i))" if "i < length (rt_budgets s2)" for i
    using that by (auto simp: pricers_safe_def budget_terms_def list_all_iff)
  then have "fst (on_budget br (settle (Some (usage_delta (usage_counters name s2) (fst st)))) s2) = None"
    using settle_safe by (auto simp: on_budget_def isl_def split: option.splits sum.splits)
  then have "res = Inl e"
    using assms(1) a c by (auto simp: end_call_def Let_def s2_def split: option.splits prod.splits)
  with c show ?thesis by (auto simp: call_outcome_def passes_def split: sum.splits if_splits)
qed

lemma begin_call_Inl: "begin_call x name br s = (Inl e, s') \<Longrightarrow> passes e"
  by (auto simp: begin_call_def on_budget_def passes_def catches_def dest: reserve_Inl
      split: option.splits if_splits sum.splits)

text \<open>
  C17. A failing agent does not fail the run: whatever its agent raises, a call either returns, an
  ordinary exception having become an error dictionary, or it raises \<open>RunTimeout\<close> for the deadline
  of the run, \<open>BudgetExceeded\<close>, or something that is no \<open>Exception\<close>; a pricer of the budget that
  raises is excluded.
\<close>

theorem call_contains_errors:
  assumes "call_agent x g name m ctx timeout s = (Inl e, s')" "pricers_safe s"
  shows "e = deadline_exn \<or> catches CBudgetExceeded e \<or> \<not> catches CException e"
proof -
  have safe: "pricers_safe (s\<lparr>rt_world := w\<rparr>) = pricers_safe s" for w
    by (simp add: pricers_safe_def)
  have gu: "e = deadline_exn" if "give_up x name tr binds t why s0 = (Inl e, s')" for tr binds t why s0
    using that by (auto simp: give_up_def note_call_def split: if_splits)
  have cl: "e = deadline_exn" if "clamp_timeout dl now timeout = Inl e" for dl now
    using that by (auto simp: clamp_timeout_def Let_def split: option.splits if_splits)
  have en: "passes e" if "begin_call x name br s0 = (Inr st, s2)"
      "end_call x name m ctx tr quiet br st (s2\<lparr>rt_world := w\<rparr>) = (Inl e, s')" "pricers_safe s0" for br st s0 s2 tr quiet w
  proof (rule end_call_passes [OF that(2)])
    show "pricers_safe (s2\<lparr>rt_world := w\<rparr>)"
      using that(3) pricers_safe_frame [OF begin_call_keeps(1) [OF that(1)]] by (simp add: pricers_safe_def)
  qed
  have en0: "passes e" if "begin_call x name br s0 = (Inr st, s2)"
      "end_call x name m ctx tr quiet br st s2 = (Inl e, s')" "pricers_safe s0" for br st s0 s2 tr quiet
    using end_call_passes [OF that(2)] that(3) pricers_safe_frame [OF begin_call_keeps(1) [OF that(1)]] by simp
  have once: "passes e" if "run_agent_once x name m ctx tr quiet br s = (Inl e, s')" for tr quiet br
    using that assms(2) begin_call_Inl en0
    by (auto simp: run_agent_once_def split: prod.splits sum.splits)
  have "e = deadline_exn \<or> passes e"
    using assms(1) gu cl once en safe assms(2)
    by (auto simp: call_agent_def Let_def dest: begin_call_Inl
        split: sum.splits option.splits prod.splits bool.splits)
  then show ?thesis by (simp add: passes_def)
qed


section \<open>Witnesses\<close>

text \<open>Two agents, the second one failing, on a pool that runs every call to its end.\<close>

definition sample_pool :: "unit pooling" where
  "sample_pool =
     \<lparr>g_submit = (\<lambda>w. (True, w)), g_answers = (\<lambda>t w. (True, w)),
      g_rounds = (\<lambda>n dl w. ([map Begin [0..<n] @ map End (rev [0..<n])], w))\<rparr>"

definition sample_coord :: "unit coord" where
  "sample_coord =
     \<lparr>co_agents = [(u ''a'', const_agent (u ''a'') (Inr (StrV (u ''hi'')))),
                   (u ''b'', const_agent (u ''b'') (Inl bad_json))],
      co_health = [], co_memory = new_store None None, co_timeout = 60, co_policy = None, co_cache = False,
      co_budget = None, co_runs = new_registry 10\<rparr>"

definition sample_rt :: "unit rt" where
  "sample_rt =
     \<lparr>rt_coord = sample_coord, rt_traces = [], rt_budgets = [], rt_trace_var = cvar_empty,
      rt_deadline_var = cvar_empty, rt_budget_var = cvar_empty, rt_world = ()\<rparr>"

definition returns :: "((exn + 'a) \<times> 's) option \<Rightarrow> bool" where
  "returns r \<longleftrightarrow> (case r of Some (Inr v, s) \<Rightarrow> True | _ \<Rightarrow> False)"

lemma returnsD: "returns r \<Longrightarrow> \<exists>v s. r = Some (Inr v, s)"
  by (auto simp: returns_def split: option.splits prod.splits sum.splits)

lemma sample_parallel:
  "returns (parallel idle sample_pool (StrV (u ''q'')) [u ''a'', u ''b''] (\<lambda>n. []) (Some 5) sample_rt)"
  by code_simp

theorem parallel_complete_witness:
  "\<exists>responses s'. parallel idle sample_pool (StrV (u ''q'')) [u ''a'', u ''b''] (\<lambda>n. []) (Some 5) sample_rt
      = Some (Inr responses, s') \<and> map fst responses = [u ''a'', u ''b'']"
proof -
  from returnsD [OF sample_parallel] obtain r s' where
    r: "parallel idle sample_pool (StrV (u ''q'')) [u ''a'', u ''b''] (\<lambda>n. []) (Some 5) sample_rt = Some (Inr r, s')"
    by blast
  from parallel_complete [OF r] have "map fst r = [u ''a'', u ''b'']" by simp
  then show ?thesis by (intro exI conjI) (rule r)
qed

text \<open>A run whose deadline has passed.\<close>

definition late_rt :: "unit rt" where
  "late_rt = sample_rt\<lparr>rt_deadline_var := snd (cv_set (Some (- 1)) cvar_empty)\<rparr>"

theorem call_contains_errors_witness:
  "\<exists>e s'. call_agent idle sample_pool (u ''a'') NoneV [] (Some 5) late_rt = (Inl e, s')
     \<and> (e = deadline_exn \<or> catches CBudgetExceeded e \<or> \<not> catches CException e)"
proof -
  have c: "call_agent idle sample_pool (u ''a'') NoneV [] (Some 5) late_rt = (Inl deadline_exn, late_rt)"
    by (simp add: call_agent_def late_rt_def sample_rt_def clamp_timeout_def run_deadline_def cv_set_def
        cvar_empty_def idle_def)
  have "pricers_safe late_rt" by (simp add: pricers_safe_def late_rt_def sample_rt_def)
  from call_contains_errors [OF c this] c show ?thesis by blast
qed

end
