(* ===== verification/Dependency.thy ===== *)
theory Dependency
  imports Errors
begin

text \<open>
  \<open>runtime/dependency.py\<close>: Kahn's algorithm over \<open>{id: [deps]}\<close>. Python iterates a \<open>set\<close> of
  strings in an order that depends on the process, so the iteration order is the argument
  \<open>enum\<close>, any function that lists the elements of a set once each (\<open>set_iteration\<close>). The
  lemmas show that the loop stops, that the order returned is a topological one, and that the
  function raises exactly when a dependency is unknown or the graph has a cycle.
\<close>

section \<open>Model\<close>

definition set_iteration :: "(pystr list \<Rightarrow> pystr list) \<Rightarrow> bool" where
  "set_iteration enum \<longleftrightarrow> (\<forall>xs. distinct (enum xs) \<and> set (enum xs) = set xs)"

type_synonym deps = "(pystr \<times> pystr list) list"

text \<open>\<open>depends_on.get(i, ())\<close>.\<close>

definition deps_of :: "deps \<Rightarrow> pystr \<Rightarrow> pystr list" where
  "deps_of d i = (case map_of d i of None \<Rightarrow> [] | Some ds \<Rightarrow> ds)"

fun unknown_dep :: "pystr list \<Rightarrow> (pystr \<times> pystr list) list \<Rightarrow> exn option" where
  "unknown_dep known [] = None"
| "unknown_dep known ((i, ds) # rest) =
     (let unknown = filter (\<lambda>d. d \<notin> set known) ds
      in if unknown \<noteq> []
         then Some (Exn CPlanValidationError
                (u ''task '' @ u [CHR 39] @ i @ u [CHR 39] @ u '' depends on unknown tasks: ''
                 @ py_repr_strs (py_sorted_set unknown)))
         else unknown_dep known rest)"

fun add_dependents :: "pystr \<Rightarrow> pystr list \<Rightarrow> (pystr \<Rightarrow> pystr list) \<Rightarrow> (pystr \<Rightarrow> pystr list)" where
  "add_dependents t [] m = m"
| "add_dependents t (d # ds) m = add_dependents t ds (m(d := m d @ [t]))"

fun build_dependents ::
    "(pystr \<times> pystr list) list \<Rightarrow> (pystr \<Rightarrow> pystr list) \<Rightarrow> (pystr \<Rightarrow> pystr list)" where
  "build_dependents [] m = m"
| "build_dependents ((t, ds) # rest) m = build_dependents rest (add_dependents t ds m)"

fun release_followers ::
    "pystr \<Rightarrow> pystr list \<Rightarrow> pystr list \<times> (pystr \<Rightarrow> pystr list) \<Rightarrow> pystr list \<times> (pystr \<Rightarrow> pystr list)"
where
  "release_followers t [] s = s"
| "release_followers t (f # fs) (ready, pend) =
     (let pend' = pend(f := removeAll t (pend f))
      in release_followers t fs (if pend' f = [] then ready @ [f] else ready, pend'))"

text \<open>The \<open>while ready\<close> loop; \<open>fuel\<close> bounds its iterations, and \<open>kahn_stops\<close> shows that the
  number of nodes is enough for every graph: the loop ends with \<open>ready\<close> empty.\<close>

fun kahn :: "nat \<Rightarrow> (pystr \<Rightarrow> pystr list) \<Rightarrow> pystr list \<Rightarrow> (pystr \<Rightarrow> pystr list) \<Rightarrow> pystr list
    \<Rightarrow> pystr list \<times> (pystr \<Rightarrow> pystr list) \<times> pystr list" where
  "kahn 0 dependents ready pend order = (ready, pend, order)"
| "kahn (Suc fuel) dependents ready pend order =
     (case ready of
        [] \<Rightarrow> (ready, pend, order)
      | t # rest \<Rightarrow>
          (let (ready', pend') = release_followers t (dependents t) (rest, pend)
           in kahn fuel dependents ready' pend' (order @ [t])))"

definition topological_order ::
    "(pystr list \<Rightarrow> pystr list) \<Rightarrow> pystr list \<Rightarrow> deps \<Rightarrow> exn + pystr list" where
  "topological_order enum ids depends_on =
     (let known = enum ids;
          pending = map (\<lambda>i. (i, enum (deps_of depends_on i))) known
      in case unknown_dep known pending of
           Some e \<Rightarrow> Inl e
         | None \<Rightarrow>
             (let dependents = build_dependents pending (\<lambda>_. []);
                  pend = (\<lambda>i. deps_of pending i);
                  ready = sort (map fst (filter (\<lambda>(i, ds). ds = []) pending));
                  (_, pend', order) = kahn (length known) dependents ready pend []
              in if length order \<noteq> length known
                 then Inl (Exn CPlanValidationError
                        (u ''dependency cycle detected involving tasks: ''
                         @ py_repr_strs (sort (filter (\<lambda>i. pend' i \<noteq> []) known))))
                 else Inr order))"

section \<open>Specification\<close>

text \<open>The edges of the graph, and what a topological order of it is.\<close>

definition dep_edges :: "pystr list \<Rightarrow> deps \<Rightarrow> (pystr \<times> pystr) set" where
  "dep_edges ids d = {(x, i). i \<in> set ids \<and> x \<in> set (deps_of d i)}"

definition deps_known :: "pystr list \<Rightarrow> deps \<Rightarrow> bool" where
  "deps_known ids d \<longleftrightarrow> (\<forall>i \<in> set ids. set (deps_of d i) \<subseteq> set ids)"

definition topo_sorted :: "(pystr \<Rightarrow> pystr set) \<Rightarrow> pystr list \<Rightarrow> bool" where
  "topo_sorted D xs \<longleftrightarrow> (\<forall>ys x zs. xs = ys @ x # zs \<longrightarrow> D x \<subseteq> set ys)"

section \<open>Lemmas on the steps\<close>

lemma unknown_dep_None_iff:
  "unknown_dep known items = None \<longleftrightarrow> (\<forall>(i, ds) \<in> set items. set ds \<subseteq> set known)"
  by (induction known items rule: unknown_dep.induct) (auto simp: Let_def filter_empty_conv)

lemma unknown_dep_class: "unknown_dep known items = Some e \<Longrightarrow> exc_of e = CPlanValidationError"
  by (induction known items rule: unknown_dep.induct) (auto simp: Let_def split: if_splits)

lemma add_dependents_eq:
  "distinct ds \<Longrightarrow> add_dependents t ds m x = (if x \<in> set ds then m x @ [t] else m x)"
  by (induction t ds m rule: add_dependents.induct) auto

lemma build_dependents_eq:
  "\<forall>(t, ds) \<in> set items. distinct ds \<Longrightarrow>
   build_dependents items m x = m x @ map fst (filter (\<lambda>(t, ds). x \<in> set ds) items)"
  by (induction items m rule: build_dependents.induct) (auto simp: add_dependents_eq)

lemma release_followers_eq:
  "distinct fs \<Longrightarrow>
   release_followers t fs (ready, pend) =
     (ready @ filter (\<lambda>f. removeAll t (pend f) = []) fs,
      \<lambda>f. if f \<in> set fs then removeAll t (pend f) else pend f)"
proof (induction t fs "(ready, pend)" arbitrary: ready pend rule: release_followers.induct)
  case (1 t)
  then show ?case by simp
next
  case (2 t f fs ready pend)
  let ?pend = "pend(f := removeAll t (pend f))"
  have f: "f \<notin> set fs" and fs: "distinct fs" using 2 by auto
  have flt: "filter (\<lambda>g. removeAll t (?pend g) = []) fs = filter (\<lambda>g. removeAll t (pend g) = []) fs"
    using f by (intro filter_cong) auto
  show ?case
    using 2(1)[OF refl fs, unfolded flt] f by (auto simp: Let_def fun_eq_iff)
qed

section \<open>The loop invariant\<close>

definition kahn_inv ::
    "pystr set \<Rightarrow> (pystr \<Rightarrow> pystr set) \<Rightarrow> pystr list \<Rightarrow> (pystr \<Rightarrow> pystr list) \<Rightarrow> pystr list \<Rightarrow> bool" where
  "kahn_inv K D ready pend order \<longleftrightarrow>
     distinct (order @ ready) \<and> set (order @ ready) \<subseteq> K
     \<and> (\<forall>i \<in> K. set (pend i) = D i - set order)
     \<and> (\<forall>i \<in> K. i \<in> set (order @ ready) \<longleftrightarrow> D i \<subseteq> set order)
     \<and> topo_sorted D order"

lemma topo_sorted_snoc: "topo_sorted D xs \<Longrightarrow> D x \<subseteq> set xs \<Longrightarrow> topo_sorted D (xs @ [x])"
  unfolding topo_sorted_def by (auto simp: append_eq_append_conv2 Cons_eq_append_conv append_eq_Cons_conv)

lemma kahn_step:
  assumes inv: "kahn_inv K D (t # rest) pend order"
    and dep: "set (dependents t) = {i \<in> K. t \<in> D i}" "distinct (dependents t)"
    and rel: "release_followers t (dependents t) (rest, pend) = (ready', pend')"
  shows "kahn_inv K D ready' pend' (order @ [t])"
proof -
  let ?new = "filter (\<lambda>f. removeAll t (pend f) = []) (dependents t)"
  have ready': "ready' = rest @ ?new"
    and pend': "pend' = (\<lambda>f. if f \<in> set (dependents t) then removeAll t (pend f) else pend f)"
    using rel by (simp_all add: release_followers_eq [OF dep(2)])
  have t: "t \<in> K" "t \<notin> set order" "t \<notin> set rest" "D t \<subseteq> set order"
    using inv by (auto simp: kahn_inv_def)
  have pend: "\<And>i. i \<in> K \<Longrightarrow> set (pend i) = D i - set order"
    and ready: "\<And>i. i \<in> K \<Longrightarrow> i \<in> set (order @ t # rest) \<longleftrightarrow> D i \<subseteq> set order"
    using inv by (auto simp: kahn_inv_def)
  have fresh: "i \<notin> set (order @ t # rest)" if "i \<in> set (dependents t)" for i
    using that dep(1) t(2) ready [of i] by auto
  have new: "set ?new = {i \<in> K. t \<in> D i \<and> D i \<subseteq> insert t (set order)}"
  proof -
    have "removeAll t (pend i) = [] \<longleftrightarrow> D i \<subseteq> insert t (set order)" if "i \<in> K" for i
    proof -
      have "removeAll t (pend i) = [] \<longleftrightarrow> set (removeAll t (pend i)) = {}" by (simp only: set_empty)
      also have "\<dots> \<longleftrightarrow> D i \<subseteq> insert t (set order)" using pend [OF that] by auto
      finally show ?thesis .
    qed
    then show ?thesis using dep(1) by auto
  qed
  show ?thesis
    unfolding kahn_inv_def
  proof (intro conjI ballI)
    show "distinct ((order @ [t]) @ ready')"
      using inv dep(2) fresh by (auto simp: kahn_inv_def ready')
    show "set ((order @ [t]) @ ready') \<subseteq> K"
      using inv dep(1) by (auto simp: kahn_inv_def ready')
    show "topo_sorted D (order @ [t])"
      using inv t(4) by (auto simp: kahn_inv_def intro: topo_sorted_snoc)
  next
    fix i assume i: "i \<in> K"
    show "set (pend' i) = D i - set (order @ [t])"
      using i dep(1) pend [OF i] by (auto simp: pend')
    have "i \<in> set ((order @ [t]) @ ready') \<longleftrightarrow> i \<in> set (order @ t # rest) \<or> i \<in> set ?new"
      by (auto simp: ready')
    also have "\<dots> \<longleftrightarrow> D i \<subseteq> insert t (set order)"
      using ready [OF i] new i by auto
    finally show "i \<in> set ((order @ [t]) @ ready') \<longleftrightarrow> D i \<subseteq> set (order @ [t])" by simp
  qed
qed

lemma kahn_preserves:
  assumes "kahn_inv K D ready pend order"
    and "\<And>t. set (dependents t) = {i \<in> K. t \<in> D i}" "\<And>t. distinct (dependents t)"
    and "kahn fuel dependents ready pend order = (ready', pend', order')"
  shows "kahn_inv K D ready' pend' order'"
  using assms
proof (induction fuel dependents ready pend order rule: kahn.induct)
  case (2 fuel dependents ready pend order)
  show ?case
  proof (cases ready)
    case Nil
    with 2 show ?thesis by simp
  next
    case (Cons t rest)
    obtain r p where rp: "release_followers t (dependents t) (rest, pend) = (r, p)" by fastforce
    have "kahn_inv K D r p (order @ [t])"
      by (rule kahn_step [where dependents = dependents and pend = pend and rest = rest])
        (use 2 Cons rp in auto)
    with 2 Cons rp show ?thesis by simp
  qed
qed simp

text \<open>Every iteration appends one node, so \<open>card K\<close> iterations empty \<open>ready\<close>.\<close>

lemma kahn_stops:
  assumes "kahn_inv K D ready pend order" and "finite K" and "card K \<le> length order + fuel"
    and "\<And>t. set (dependents t) = {i \<in> K. t \<in> D i}" "\<And>t. distinct (dependents t)"
    and "kahn fuel dependents ready pend order = (ready', pend', order')"
  shows "ready' = []"
  using assms
proof (induction fuel dependents ready pend order rule: kahn.induct)
  case (1 dependents ready pend order)
  have "length (order @ ready) = card (set (order @ ready))"
    using 1(1) by (metis distinct_card kahn_inv_def)
  also have "\<dots> \<le> card K"
    using 1(1,2) by (intro card_mono) (auto simp: kahn_inv_def)
  finally have "length ready = 0" using 1(3) unfolding length_append by linarith
  then show ?case using 1(6) by simp
next
  case (2 fuel dependents ready pend order)
  show ?case
  proof (cases ready)
    case Nil
    with 2 show ?thesis by simp
  next
    case (Cons t rest)
    obtain r p where rp: "release_followers t (dependents t) (rest, pend) = (r, p)" by fastforce
    have "kahn_inv K D r p (order @ [t])"
      by (rule kahn_step [where dependents = dependents and pend = pend and rest = rest])
        (use 2 Cons rp in auto)
    with 2 Cons rp show ?thesis by simp
  qed
qed

section \<open>Correctness\<close>

lemma topo_sorted_index:
  assumes "topo_sorted D xs" "distinct xs" "i \<in> set xs" "x \<in> D i"
  shows "\<exists>a b. a < b \<and> b < length xs \<and> xs ! a = x \<and> xs ! b = i"
proof -
  obtain ys zs where xs: "xs = ys @ i # zs" using assms(3) by (auto simp: in_set_conv_decomp)
  with assms(1,4) have "x \<in> set ys" by (auto simp: topo_sorted_def)
  then obtain a where "a < length ys" "ys ! a = x" by (auto simp: in_set_conv_nth)
  then show ?thesis
    by (intro exI [of _ a] exI [of _ "length ys"]) (auto simp: xs nth_append)
qed

text \<open>A list of all nodes in dependency order rules cycles out.\<close>

lemma topo_sorted_acyclic:
  assumes "topo_sorted D xs" "distinct xs" "r \<subseteq> {(x, i). i \<in> set xs \<and> x \<in> D i}"
  shows "acyclic r"
proof -
  define pos where "pos x = (THE a. a < length xs \<and> xs ! a = x)" for x
  have pos: "pos (xs ! a) = a" if "a < length xs" for a
    unfolding pos_def using that assms(2) by (intro the_equality) (auto simp: nth_eq_iff_index_eq)
  have "r \<subseteq> measure pos"
  proof
    fix p assume p: "p \<in> r"
    obtain x i where xi: "p = (x, i)" by fastforce
    with p assms(3) have "i \<in> set xs" "x \<in> D i" by auto
    from topo_sorted_index [OF assms(1,2) this] obtain a b where
      ab: "a < b" "b < length xs" "xs ! a = x" "xs ! b = i" by blast
    have "pos x = a" "pos i = b" using pos [of a] pos [of b] ab by auto
    then show "p \<in> measure pos" using ab(1) xi by simp
  qed
  then have "wf r" by (rule wf_subset [rotated]) simp
  then show ?thesis by (rule wf_acyclic)
qed

text \<open>A non-empty set of nodes, each with a dependency inside it, is a cycle.\<close>

lemma stuck_nodes_cycle:
  assumes "finite S" "S \<noteq> {}" "\<And>i. i \<in> S \<Longrightarrow> \<exists>x \<in> S. (x, i) \<in> r"
  shows "\<not> acyclic r"
proof
  assume "acyclic r"
  let ?r = "r \<inter> S \<times> S"
  have "acyclic ?r" using \<open>acyclic r\<close> by (rule acyclic_subset) simp
  then have wf: "wf ?r" using assms(1) by (intro finite_acyclic_wf) auto
  show False
  proof (rule wfE_min' [OF wf assms(2)])
    fix m assume m: "m \<in> S" and min: "\<And>y. (y, m) \<in> ?r \<Longrightarrow> y \<notin> S"
    from assms(3) [OF m] obtain x where "x \<in> S" "(x, m) \<in> r" by blast
    with m min [of x] show False by simp
  qed
qed

lemma map_fst_filter_pairs:
  "map fst (filter P (map (\<lambda>i. (i, f i)) xs)) = filter (\<lambda>i. P (i, f i)) xs"
  by (induction xs) auto

text \<open>The set-up of the loop and its final state, for any iteration order.\<close>

lemma topological_order_unfold:
  assumes enum: "set_iteration enum" and known: "deps_known ids d"
  shows "\<exists>pend order.
    kahn_inv (set ids) (\<lambda>i. set (deps_of d i)) [] pend order
    \<and> topological_order enum ids d =
        (if length order \<noteq> card (set ids)
         then Inl (Exn CPlanValidationError
                (u ''dependency cycle detected involving tasks: ''
                 @ py_repr_strs (sort (filter (\<lambda>i. pend i \<noteq> []) (enum ids)))))
         else Inr order)"
proof -
  let ?K = "set ids" and ?D = "\<lambda>i. set (deps_of d i)"
  let ?pending = "map (\<lambda>i. (i, enum (deps_of d i))) (enum ids)"
  let ?dep = "build_dependents ?pending (\<lambda>_. [])"
  let ?ready = "sort (map fst (filter (\<lambda>(i, ds). ds = []) ?pending))"
  have en: "distinct (enum xs)" "set (enum xs) = set xs" for xs
    using enum by (auto simp: set_iteration_def)
  have nil: "enum xs = [] \<longleftrightarrow> xs = []" for xs using en(2) [of xs] by (metis set_empty)
  have nounk: "unknown_dep (enum ids) ?pending = None"
    using known by (auto simp: unknown_dep_None_iff en deps_known_def)
  have dep: "set (?dep t) = {i \<in> ?K. t \<in> ?D i}" "distinct (?dep t)" for t
  proof -
    have "?dep t = map fst (filter (\<lambda>(i, ds). t \<in> set ds) ?pending)"
      by (subst build_dependents_eq) (auto simp: en)
    also have "\<dots> = filter (\<lambda>i. t \<in> ?D i) (enum ids)"
      by (simp add: map_fst_filter_pairs en)
    finally show "set (?dep t) = {i \<in> ?K. t \<in> ?D i}" "distinct (?dep t)" by (simp_all add: en)
  qed
  have ready: "?ready = sort (filter (\<lambda>i. deps_of d i = []) (enum ids))"
    by (simp add: map_fst_filter_pairs nil)
  have pend: "set (deps_of ?pending i) = ?D i" if "i \<in> ?K" for i
    using that by (simp add: deps_of_def [of ?pending] map_of_map_restrict en)
  have inv0: "kahn_inv ?K ?D ?ready (deps_of ?pending) []"
    unfolding kahn_inv_def by (auto simp: ready pend en topo_sorted_def)
  obtain r p ord where k:
    "kahn (length (enum ids)) ?dep ?ready (deps_of ?pending) [] = (r, p, ord)"
    by (rule prod_cases3)
  have len: "length (enum ids) = card ?K" using distinct_card [OF en(1) [of ids]] by (simp add: en)
  have "r = []" by (rule kahn_stops [OF inv0 _ _ dep k]) (simp_all add: len)
  moreover have "kahn_inv ?K ?D r p ord" by (rule kahn_preserves [OF inv0 dep k])
  moreover have "topological_order enum ids d =
        (if length ord \<noteq> card ?K
         then Inl (Exn CPlanValidationError
                (u ''dependency cycle detected involving tasks: ''
                 @ py_repr_strs (sort (filter (\<lambda>i. p i \<noteq> []) (enum ids)))))
         else Inr ord)"
    by (simp add: topological_order_def Let_def nounk k [unfolded len] len)
  ultimately show ?thesis by blast
qed

lemma kahn_inv_final:
  assumes "kahn_inv (set ids) D [] pend order"
  shows "length order = card (set ids) \<longleftrightarrow> set order = set ids"
proof -
  have "distinct order" "set order \<subseteq> set ids" using assms by (auto simp: kahn_inv_def)
  then show ?thesis by (metis List.finite_set card_subset_eq distinct_card)
qed

lemma topological_order_Inr:
  assumes "set_iteration enum" and "topological_order enum ids d = Inr order"
  shows "distinct order" "set order = set ids" "topo_sorted (\<lambda>i. set (deps_of d i)) order"
    "deps_known ids d"
proof -
  have known: "deps_known ids d"
  proof (rule ccontr)
    assume "\<not> deps_known ids d"
    then have "unknown_dep (enum ids) (map (\<lambda>i. (i, enum (deps_of d i))) (enum ids)) \<noteq> None"
      using assms(1) unfolding unknown_dep_None_iff deps_known_def set_iteration_def by simp
    then obtain e where "unknown_dep (enum ids) (map (\<lambda>i. (i, enum (deps_of d i))) (enum ids)) = Some e"
      by blast
    then have "topological_order enum ids d = Inl e"
      unfolding topological_order_def Let_def by simp
    with assms(2) show False by simp
  qed
  from topological_order_unfold [OF assms(1) known] obtain pend ord where
    inv: "kahn_inv (set ids) (\<lambda>i. set (deps_of d i)) [] pend ord"
    and "ord = order" "length ord = card (set ids)"
    using assms(2) by (auto split: if_splits)
  then show "distinct order" "set order = set ids" "topo_sorted (\<lambda>i. set (deps_of d i)) order"
    "deps_known ids d"
    using known kahn_inv_final [OF inv] by (auto simp: kahn_inv_def)
qed

lemma topological_order_acyclic:
  assumes "set_iteration enum" "deps_known ids d"
  shows "(\<exists>order. topological_order enum ids d = Inr order) \<longleftrightarrow> acyclic (dep_edges ids d)"
proof
  assume "\<exists>order. topological_order enum ids d = Inr order"
  then obtain order where o: "topological_order enum ids d = Inr order" ..
  note * = topological_order_Inr [OF assms(1) o]
  show "acyclic (dep_edges ids d)"
    by (rule topo_sorted_acyclic [OF *(3,1)]) (auto simp: dep_edges_def *(2))
next
  assume acyc: "acyclic (dep_edges ids d)"
  from topological_order_unfold [OF assms] obtain pend ord where
    inv: "kahn_inv (set ids) (\<lambda>i. set (deps_of d i)) [] pend ord"
    and res: "topological_order enum ids d = Inr ord \<or> length ord \<noteq> card (set ids)"
    by (auto split: if_splits)
  have "set ord = set ids"
  proof (rule ccontr)
    assume "set ord \<noteq> set ids"
    let ?S = "set ids - set ord"
    have "?S \<noteq> {}" using \<open>set ord \<noteq> set ids\<close> inv by (auto simp: kahn_inv_def)
    moreover have "\<exists>x \<in> ?S. (x, i) \<in> dep_edges ids d" if "i \<in> ?S" for i
    proof -
      have "\<not> set (deps_of d i) \<subseteq> set ord" using inv that by (auto simp: kahn_inv_def)
      then show ?thesis using that assms(2) by (auto simp: dep_edges_def deps_known_def)
    qed
    ultimately have "\<not> acyclic (dep_edges ids d)" by (intro stuck_nodes_cycle [of ?S]) auto
    with acyc show False by blast
  qed
  with res kahn_inv_final [OF inv] show "\<exists>order. topological_order enum ids d = Inr order" by auto
qed

lemma topological_order_total:
  assumes "set_iteration enum"
  shows "(\<exists>order. topological_order enum ids d = Inr order) \<longleftrightarrow>
         deps_known ids d \<and> acyclic (dep_edges ids d)"
  using topological_order_acyclic [OF assms] topological_order_Inr(4) [OF assms] by blast

lemma topological_order_Inl:
  assumes "set_iteration enum" "topological_order enum ids d = Inl e"
  shows "exc_of e = CPlanValidationError"
  using assms(2) by (auto simp: topological_order_def Let_def unknown_dep_class
    split: option.splits prod.splits if_splits)

lemma set_iteration_remdups [simp]: "set_iteration remdups"
  by (simp add: set_iteration_def)

text \<open>
  C23. \<open>topological_order\<close> is a topological sort, whatever order sets are iterated in: it succeeds
  exactly when every dependency is known and there is no cycle, and then lists every node once, each
  after all its dependencies; otherwise it raises \<open>PlanValidationError\<close>.
\<close>

theorem topological_order_correct:
  assumes "set_iteration enum"
  shows "case topological_order enum ids d of
      Inl e \<Rightarrow> exc_of e = CPlanValidationError \<and> \<not> (deps_known ids d \<and> acyclic (dep_edges ids d))
    | Inr order \<Rightarrow> distinct order \<and> set order = set ids
        \<and> topo_sorted (\<lambda>i. set (deps_of d i)) order \<and> deps_known ids d \<and> acyclic (dep_edges ids d)"
proof (cases "topological_order enum ids d")
  case (Inl e)
  then show ?thesis
    using topological_order_Inl [OF assms Inl] topological_order_total [OF assms, of ids d] by auto
next
  case (Inr order)
  then show ?thesis
    using topological_order_Inr [OF assms Inr] topological_order_total [OF assms, of ids d] by auto
qed

theorem topological_order_correct_witness:
  "\<exists>order. topological_order remdups [[1], [2]] [([2], [[1]])] = Inr order \<and> set order = {[1], [2]}"
proof -
  have "case topological_order remdups [[1], [2]] [([2], [[1]])] of Inl e \<Rightarrow> False | Inr x \<Rightarrow> True"
    by code_simp
  then obtain x where "topological_order remdups [[1], [2]] [([2], [[1]])] = Inr x"
    by (auto split: sum.splits)
  with topological_order_correct [OF set_iteration_remdups, of "[[1], [2]]" "[([2], [[1]])]"] show ?thesis
    by simp
qed

end
