(* ===== verification/TaskModel.thy ===== *)
theory TaskModel
  imports Dependency
begin

text \<open>
  \<open>runtime/task.py\<close>: statuses, tasks, task results and the strict validation of a \<open>TaskPlan\<close>. A plan
  is the list of its tasks; \<open>_by_id\<close> is the dictionary \<open>index_tasks\<close> builds. The lemmas show that a
  plan is accepted exactly when every check of the docstring holds (\<open>plan_valid\<close>).
\<close>

section \<open>Model\<close>

datatype task_status = PENDING | RUNNING | SUCCESS | FAILED | TIMEOUT | CANCELLED | SKIPPED

fun status_value :: "task_status \<Rightarrow> pystr" where
  "status_value PENDING = u ''pending''"
| "status_value RUNNING = u ''running''"
| "status_value SUCCESS = u ''success''"
| "status_value FAILED = u ''failed''"
| "status_value TIMEOUT = u ''timeout''"
| "status_value CANCELLED = u ''cancelled''"
| "status_value SKIPPED = u ''skipped''"

definition terminal :: "task_status \<Rightarrow> bool" where
  "terminal s \<longleftrightarrow> s \<in> set [SUCCESS, FAILED, TIMEOUT, CANCELLED, SKIPPED]"

record task =
  t_id :: pystr
  t_desc :: pystr
  t_agent :: "pystr option"
  t_deps :: "pystr list"
  t_caps :: "pystr list"
  t_timeout :: "real option"
  t_status :: task_status

definition mk_task :: "pystr \<Rightarrow> pystr \<Rightarrow> pystr option \<Rightarrow> pystr list \<Rightarrow> pystr list \<Rightarrow> task" where
  "mk_task i d a ds cs =
     \<lparr>t_id = i, t_desc = d, t_agent = a, t_deps = ds, t_caps = cs, t_timeout = None,
      t_status = PENDING\<rparr>"

definition opt_entry :: "pystr \<Rightarrow> ('a \<Rightarrow> field) \<Rightarrow> 'a option \<Rightarrow> (pystr \<times> field) list" where
  "opt_entry k f v = (case v of None \<Rightarrow> [] | Some x \<Rightarrow> [(k, f x)])"

definition strs_entry :: "pystr \<Rightarrow> pystr list \<Rightarrow> (pystr \<times> field) list" where
  "strs_entry k xs = (if xs = [] then [] else [(k, FVal (ListV (map StrV xs)))])"

definition task_as_dict :: "task \<Rightarrow> (pystr \<times> field) list" where
  "task_as_dict t =
     [(u ''id'', FVal (StrV (t_id t))), (u ''description'', FVal (StrV (t_desc t))),
      (u ''status'', FVal (StrV (status_value (t_status t))))]
     @ opt_entry (u ''agent'') (\<lambda>a. FVal (StrV a)) (t_agent t)
     @ strs_entry (u ''depends_on'') (t_deps t)
     @ strs_entry (u ''required_capabilities'') (t_caps t)
     @ opt_entry (u ''timeout'') FNum (t_timeout t)"

record task_result =
  r_task_id :: pystr
  r_status :: task_status
  r_output :: pyval
  r_error :: "pystr option"
  r_agent :: "pystr option"
  r_duration :: real

definition result_as_dict :: "task_result \<Rightarrow> (pystr \<times> field) list" where
  "result_as_dict r =
     [(u ''task_id'', FVal (StrV (r_task_id r))),
      (u ''status'', FVal (StrV (status_value (r_status r))))]
     @ opt_entry (u ''agent'') (\<lambda>a. FVal (StrV a)) (r_agent r)
     @ opt_entry (u ''error'') (\<lambda>e. FVal (StrV e)) (r_error r)
     @ (if r_output r = NoneV then [] else [(u ''output'', FVal (r_output r))])
     @ [(u ''duration_ms'', FNum (py_round 1 (r_duration r)))]"

text \<open>The constructor's loop over the ids.\<close>

fun index_tasks :: "task list \<Rightarrow> (pystr \<times> task) list \<Rightarrow> exn + (pystr \<times> task) list" where
  "index_tasks [] by_id = Inr by_id"
| "index_tasks (t # ts) by_id =
     (if t_id t = [] then Inl (Exn CPlanValidationError (u ''task id must be non-empty''))
      else if map_of by_id (t_id t) \<noteq> None
        then Inl (Exn CPlanValidationError (u ''duplicate task id: '' @ t_id t))
      else index_tasks ts (AList.update (t_id t) t by_id))"

fun check_descriptions :: "task list \<Rightarrow> exn + unit" where
  "check_descriptions [] = Inr ()"
| "check_descriptions (t # ts) =
     (if t_desc t = [] \<or> py_strip (t_desc t) = []
      then Inl (Exn CPlanValidationError
             (u ''task '' @ quoted (t_id t) @ u '' is malformed: missing description''))
      else check_descriptions ts)"

fun check_task_deps :: "(pystr \<times> task) list \<Rightarrow> pystr \<Rightarrow> pystr list \<Rightarrow> exn + unit" where
  "check_task_deps by_id i [] = Inr ()"
| "check_task_deps by_id i (d # ds) =
     (if map_of by_id d = None
      then Inl (Exn CPlanValidationError
             (u ''task '' @ quoted i @ u '' depends on unknown task '' @ quoted d))
      else if d = i
      then Inl (Exn CPlanValidationError (u ''task '' @ quoted i @ u '' depends on itself (self-cycle)''))
      else check_task_deps by_id i ds)"

fun check_deps :: "(pystr \<times> task) list \<Rightarrow> task list \<Rightarrow> exn + unit" where
  "check_deps by_id [] = Inr ()"
| "check_deps by_id (t # ts) =
     (case check_task_deps by_id (t_id t) (t_deps t) of
        Inl e \<Rightarrow> Inl e
      | Inr _ \<Rightarrow> check_deps by_id ts)"

fun check_agents :: "pystr list \<Rightarrow> task list \<Rightarrow> exn + unit" where
  "check_agents known [] = Inr ()"
| "check_agents known (t # ts) =
     (case t_agent t of
        None \<Rightarrow> check_agents known ts
      | Some a \<Rightarrow>
          if a \<notin> set known
          then Inl (Exn CPlanValidationError
                 (u ''task '' @ quoted (t_id t) @ u '' references unknown agent '' @ quoted a))
          else check_agents known ts)"

fun check_caps :: "pystr list \<Rightarrow> task list \<Rightarrow> exn + unit" where
  "check_caps known [] = Inr ()"
| "check_caps known (t # ts) =
     (case filter (\<lambda>c. c \<notin> set known) (t_caps t) of
        c # _ \<Rightarrow> Inl (Exn CPlanValidationError
                 (u ''task '' @ quoted (t_id t) @ u '' requires unsupported capability '' @ quoted c))
      | [] \<Rightarrow> check_caps known ts)"

definition task_deps :: "task list \<Rightarrow> deps" where
  "task_deps ts = map (\<lambda>t. (t_id t, t_deps t)) ts"

definition plan_order :: "(pystr list \<Rightarrow> pystr list) \<Rightarrow> task list \<Rightarrow> exn + pystr list" where
  "plan_order enum ts = topological_order enum (map t_id ts) (task_deps ts)"

definition validate_plan ::
    "(pystr list \<Rightarrow> pystr list) \<Rightarrow> (pystr \<times> task) list \<Rightarrow> task list
     \<Rightarrow> pystr list option \<Rightarrow> pystr list option \<Rightarrow> exn + unit" where
  "validate_plan enum by_id ts known_agents known_caps =
     (case check_descriptions ts of
        Inl e \<Rightarrow> Inl e
      | Inr _ \<Rightarrow>
     (case check_deps by_id ts of
        Inl e \<Rightarrow> Inl e
      | Inr _ \<Rightarrow>
     (case plan_order enum ts of
        Inl e \<Rightarrow> if catches CPlanError e then Inl (Exn CPlanValidationError (exc_msg e)) else Inl e
      | Inr _ \<Rightarrow>
     (case (case known_agents of None \<Rightarrow> Inr () | Some ka \<Rightarrow> check_agents ka ts) of
        Inl e \<Rightarrow> Inl e
      | Inr _ \<Rightarrow> (case known_caps of None \<Rightarrow> Inr () | Some kc \<Rightarrow> check_caps kc ts)))))"

definition plan_length :: "task list \<Rightarrow> nat" where
  "plan_length ts = length ts"

definition plan_as_dict :: "task list \<Rightarrow> (pystr \<times> field) list list" where
  "plan_as_dict ts = map task_as_dict ts"

text \<open>\<open>TaskPlan(tasks)\<close>: index, then validate without agents and capabilities.\<close>

definition task_plan :: "(pystr list \<Rightarrow> pystr list) \<Rightarrow> task list \<Rightarrow> exn + (pystr \<times> task) list" where
  "task_plan enum ts =
     (case index_tasks ts [] of
        Inl e \<Rightarrow> Inl e
      | Inr by_id \<Rightarrow>
          (case validate_plan enum by_id ts None None of
             Inl e \<Rightarrow> Inl e
           | Inr _ \<Rightarrow> Inr by_id))"

definition plan_get :: "(pystr \<times> task) list \<Rightarrow> pystr \<Rightarrow> task option" where
  "plan_get by_id i = map_of by_id i"

section \<open>Specification\<close>

definition plan_valid :: "task list \<Rightarrow> bool" where
  "plan_valid ts \<longleftrightarrow>
     distinct (map t_id ts)
     \<and> (\<forall>t \<in> set ts. t_id t \<noteq> [] \<and> py_strip (t_desc t) \<noteq> []
          \<and> set (t_deps t) \<subseteq> t_id ` set ts \<and> t_id t \<notin> set (t_deps t))
     \<and> acyclic (dep_edges (map t_id ts) (task_deps ts))"

definition refs_valid :: "pystr list option \<Rightarrow> pystr list option \<Rightarrow> task list \<Rightarrow> bool" where
  "refs_valid ka kc ts \<longleftrightarrow>
     (\<forall>k. ka = Some k \<longrightarrow> (\<forall>t \<in> set ts. \<forall>a. t_agent t = Some a \<longrightarrow> a \<in> set k))
     \<and> (\<forall>k. kc = Some k \<longrightarrow> (\<forall>t \<in> set ts. set (t_caps t) \<subseteq> set k))"

section \<open>Lemmas\<close>

lemma py_strip_Nil [simp]: "py_strip [] = []"
  by (simp add: py_strip_def strip_by_def)

lemma index_tasks_Inr:
  "index_tasks ts by_id = Inr d \<longleftrightarrow>
     distinct (map t_id ts) \<and> (\<forall>t \<in> set ts. t_id t \<noteq> []) \<and> set (map t_id ts) \<inter> set (dkeys by_id) = {}
     \<and> d = by_id @ map (\<lambda>t. (t_id t, t)) ts"
proof (induction ts by_id rule: index_tasks.induct)
  case (2 t ts by_id)
  have upd: "AList.update (t_id t) t by_id = by_id @ [(t_id t, t)]" if "t_id t \<notin> set (dkeys by_id)"
    using that by (induction by_id) auto
  show ?case
    using 2 by (auto simp: map_of_eq_None_iff upd dkeys_update)
qed auto

lemma check_descriptions_Inr:
  "check_descriptions ts = Inr () \<longleftrightarrow> (\<forall>t \<in> set ts. py_strip (t_desc t) \<noteq> [])"
  by (induction ts) auto

lemma check_task_deps_Inr:
  "check_task_deps by_id i ds = Inr () \<longleftrightarrow> set ds \<subseteq> set (dkeys by_id) \<and> i \<notin> set ds"
  by (induction by_id i ds rule: check_task_deps.induct) (auto simp: map_of_eq_None_iff)

lemma unit_sum_cases: "(x :: 'a + unit) = Inr () \<or> (\<exists>e. x = Inl e)"
  by (cases x) auto

lemma check_deps_Inr:
  "check_deps by_id ts = Inr () \<longleftrightarrow>
     (\<forall>t \<in> set ts. set (t_deps t) \<subseteq> set (dkeys by_id) \<and> t_id t \<notin> set (t_deps t))"
proof (induction ts)
  case (Cons t ts)
  have "check_deps by_id (t # ts) = Inr () \<longleftrightarrow>
      check_task_deps by_id (t_id t) (t_deps t) = Inr () \<and> check_deps by_id ts = Inr ()"
    by (auto split: sum.splits)
  then show ?case by (simp add: check_task_deps_Inr Cons)
qed simp

lemma check_agents_Inr:
  "check_agents known ts = Inr () \<longleftrightarrow> (\<forall>t \<in> set ts. \<forall>a. t_agent t = Some a \<longrightarrow> a \<in> set known)"
  by (induction known ts rule: check_agents.induct) (auto split: option.splits)

lemma check_caps_Inr:
  "check_caps known ts = Inr () \<longleftrightarrow> (\<forall>t \<in> set ts. set (t_caps t) \<subseteq> set known)"
proof (induction known ts rule: check_caps.induct)
  case (2 known t ts)
  have "set (t_caps t) \<subseteq> set known \<longleftrightarrow> filter (\<lambda>c. c \<notin> set known) (t_caps t) = []"
    by (auto simp: filter_empty_conv)
  with 2 show ?case by (auto split: list.splits)
qed simp

lemmas check_Inr = check_descriptions_Inr check_deps_Inr check_agents_Inr check_caps_Inr

lemma deps_of_task_deps:
  assumes "distinct (map t_id ts)" "t \<in> set ts"
  shows "deps_of (task_deps ts) (t_id t) = t_deps t"
proof -
  have "map_of (task_deps ts) (t_id t) = Some (t_deps t)"
    using assms by (intro map_of_is_SomeI) (auto simp: task_deps_def o_def)
  then show ?thesis by (simp add: deps_of_def)
qed

lemma deps_known_task_deps:
  assumes "distinct (map t_id ts)"
  shows "deps_known (map t_id ts) (task_deps ts) \<longleftrightarrow> (\<forall>t \<in> set ts. set (t_deps t) \<subseteq> t_id ` set ts)"
  using deps_of_task_deps [OF assms] by (auto simp: deps_known_def)

lemma dep_edges_task_deps:
  assumes "distinct (map t_id ts)"
  shows "dep_edges (map t_id ts) (task_deps ts) = {(x, t_id t) | x t. t \<in> set ts \<and> x \<in> set (t_deps t)}"
  using deps_of_task_deps [OF assms] by (auto simp: dep_edges_def)

lemma plan_order_Inl: "set_iteration enum \<Longrightarrow> plan_order enum ts = Inl e \<Longrightarrow> exc_of e = CPlanValidationError"
  unfolding plan_order_def by (rule topological_order_Inl)

lemma validate_plan_Inr:
  assumes "set_iteration enum" "distinct (map t_id ts)" "\<forall>t \<in> set ts. t_id t \<noteq> []"
    "set (dkeys by_id) = t_id ` set ts"
  shows "validate_plan enum by_id ts ka kc = Inr () \<longleftrightarrow> plan_valid ts \<and> refs_valid ka kc ts"
proof -
  have ord: "(\<exists>xs. plan_order enum ts = Inr xs) \<longleftrightarrow>
      (\<forall>t \<in> set ts. set (t_deps t) \<subseteq> t_id ` set ts) \<and> acyclic (dep_edges (map t_id ts) (task_deps ts))"
    unfolding plan_order_def
    using topological_order_total [OF assms(1), of "map t_id ts" "task_deps ts"]
    by (simp add: deps_known_task_deps [OF assms(2)])
  have "validate_plan enum by_id ts ka kc = Inr () \<longleftrightarrow>
      check_descriptions ts = Inr () \<and> check_deps by_id ts = Inr () \<and> (\<exists>xs. plan_order enum ts = Inr xs)
      \<and> (\<forall>k. ka = Some k \<longrightarrow> check_agents k ts = Inr ()) \<and> (\<forall>k. kc = Some k \<longrightarrow> check_caps k ts = Inr ())"
    unfolding validate_plan_def by (auto split: sum.splits option.splits if_splits)
  also have "\<dots> \<longleftrightarrow> plan_valid ts \<and> refs_valid ka kc ts"
    unfolding ord check_Inr plan_valid_def refs_valid_def using assms(2,3,4) by auto
  finally show ?thesis .
qed

lemma task_plan_Inr:
  assumes "set_iteration enum"
  shows "task_plan enum ts = Inr d \<longleftrightarrow> plan_valid ts \<and> d = map (\<lambda>t. (t_id t, t)) ts"
proof (cases "distinct (map t_id ts) \<and> (\<forall>t \<in> set ts. t_id t \<noteq> [])")
  case True
  let ?d = "map (\<lambda>t. (t_id t, t)) ts"
  have idx: "index_tasks ts [] = Inr ?d" using True by (simp add: index_tasks_Inr)
  have "validate_plan enum ?d ts None None = Inr () \<longleftrightarrow> plan_valid ts"
    using True by (subst validate_plan_Inr [OF assms]) (auto simp: refs_valid_def o_def)
  then show ?thesis
    using unit_sum_cases [of "validate_plan enum ?d ts None None"]
    by (auto simp: task_plan_def idx)
next
  case False
  then have "\<And>d. index_tasks ts [] \<noteq> Inr d" by (auto simp: index_tasks_Inr)
  then show ?thesis using False by (auto simp: task_plan_def plan_valid_def split: sum.splits)
qed

lemma check_Inl_class:
  "index_tasks ts b = Inl e \<Longrightarrow> exc_of e = CPlanValidationError"
  "check_descriptions ts = Inl e \<Longrightarrow> exc_of e = CPlanValidationError"
  "check_task_deps by_id i ds = Inl e \<Longrightarrow> exc_of e = CPlanValidationError"
  "check_deps by_id ts = Inl e \<Longrightarrow> exc_of e = CPlanValidationError"
  "check_agents ka ts = Inl e \<Longrightarrow> exc_of e = CPlanValidationError"
  "check_caps kc ts = Inl e \<Longrightarrow> exc_of e = CPlanValidationError"
proof -
  show 1: "check_task_deps by_id i ds = Inl e \<Longrightarrow> exc_of e = CPlanValidationError" for by_id i ds
    by (induction by_id i ds rule: check_task_deps.induct) (auto split: if_splits)
  show "index_tasks ts b = Inl e \<Longrightarrow> exc_of e = CPlanValidationError"
    by (induction ts b rule: index_tasks.induct) (auto split: if_splits)
  show "check_descriptions ts = Inl e \<Longrightarrow> exc_of e = CPlanValidationError"
    by (induction ts) (auto split: if_splits)
  show "check_deps by_id ts = Inl e \<Longrightarrow> exc_of e = CPlanValidationError"
    by (induction by_id ts rule: check_deps.induct) (auto split: sum.splits dest: 1)
  show "check_agents ka ts = Inl e \<Longrightarrow> exc_of e = CPlanValidationError"
    by (induction ka ts rule: check_agents.induct) (auto split: if_splits option.splits)
  show "check_caps kc ts = Inl e \<Longrightarrow> exc_of e = CPlanValidationError"
    by (induction kc ts rule: check_caps.induct) (auto split: list.splits)
qed

lemma validate_plan_Inl:
  assumes "set_iteration enum" "validate_plan enum by_id ts ka kc = Inl e"
  shows "exc_of e = CPlanValidationError"
  using assms(2) plan_order_Inl [OF assms(1)]
  by (auto simp: validate_plan_def dest: check_Inl_class split: sum.splits option.splits if_splits)

lemma task_plan_Inl:
  assumes "set_iteration enum" "task_plan enum ts = Inl e"
  shows "exc_of e = CPlanValidationError"
  using assms(2) validate_plan_Inl [OF assms(1)]
  by (auto simp: task_plan_def dest: check_Inl_class split: sum.splits)

section \<open>Properties\<close>

text \<open>
  C24. \<open>TaskPlan\<close> accepts exactly the valid plans: ids distinct and non-empty, descriptions not
  blank, every dependency a task of the plan other than itself, and no dependency cycle; anything else
  raises \<open>PlanValidationError\<close>. \<open>validate\<close> with agents and capabilities then accepts exactly the plans
  that name only those.
\<close>

theorem plan_accepted_iff:
  assumes "set_iteration enum"
  shows "(case task_plan enum ts of
            Inl e \<Rightarrow> exc_of e = CPlanValidationError \<and> \<not> plan_valid ts
          | Inr d \<Rightarrow> plan_valid ts \<and> (\<forall>t \<in> set ts. plan_get d (t_id t) = Some t)
              \<and> (validate_plan enum d ts ka kc = Inr () \<longleftrightarrow> refs_valid ka kc ts))"
proof (cases "task_plan enum ts")
  case (Inl e)
  then show ?thesis using task_plan_Inl [OF assms Inl] task_plan_Inr [OF assms, of ts] by auto
next
  case (Inr d)
  then have v: "plan_valid ts" and d: "d = map (\<lambda>t. (t_id t, t)) ts" using task_plan_Inr [OF assms] by auto
  have "dict_ok d" using v by (simp add: plan_valid_def d dict_ok_def o_def)
  then have "\<forall>t \<in> set ts. map_of d (t_id t) = Some t"
    using dict_get_in [of d] by (auto simp: d)
  moreover have "validate_plan enum d ts ka kc = Inr () \<longleftrightarrow> refs_valid ka kc ts"
    using v by (subst validate_plan_Inr [OF assms]) (auto simp: plan_valid_def d o_def)
  ultimately show ?thesis using v by (simp add: Inr plan_get_def)
qed

theorem plan_accepted_iff_witness:
  "\<not> plan_valid [mk_task (u ''a'') (u ''A'') None [u ''a''] []]"
proof -
  have "case task_plan remdups [mk_task (u ''a'') (u ''A'') None [u ''a''] []] of Inl e \<Rightarrow> True | Inr d \<Rightarrow> False"
    by code_simp
  then show ?thesis
    using plan_accepted_iff [OF set_iteration_remdups, of "[mk_task (u ''a'') (u ''A'') None [u ''a''] []]"]
    by (auto split: sum.splits)
qed

end
