(* ===== verification/Supervisor.thy ===== *)
theory Supervisor
  imports TaskModel ConfigValues
begin

text \<open>
  \<open>supervisor.py\<close>: from the supervisor's answer to a valid task plan. \<open>loads\<close> is \<open>json.loads\<close>,
  \<open>None\<close> for its \<open>ValueError\<close>; \<open>caps_of name\<close> are the capabilities of the agent \<open>agent_for(name)\<close>,
  \<open>None\<close> when there is none; \<open>enum\<close> is the iteration order of a set (see \<open>Dependency\<close>). The tasks
  are mutable objects shared with the plan: the functions return them updated.
\<close>

section \<open>Texts\<close>

definition nl :: pystr where
  "nl = [10]"

definition PLAN_INSTRUCTIONS :: pystr where
  "PLAN_INSTRUCTIONS =
     [35831, 25226, 19978, 38754, 30340, 20219, 21153, 20998, 35299, 20026, 19968, 20010]
     @ u '' JSON ''
     @ [20219, 21153, 35745, 21010, 65292, 26684, 24335, 22914, 19979, 65288, 21482, 36755, 20986]
     @ u '' JSON'' @ [65292, 19981, 35201, 20854, 20182, 25991, 23383, 65289, 65306, 10] @ u ''{''
     @ [10] @ u ''  '' @ [34] @ u ''tasks'' @ [34] @ u '': ['' @ [10] @ u ''    {'' @ [10]
     @ u ''      '' @ [34] @ u ''id'' @ [34] @ u '': '' @ [34] @ u ''task_1'' @ [34] @ u '',''
     @ [10] @ u ''      '' @ [34] @ u ''description'' @ [34] @ u '': ''
     @ [34, 23376, 20219, 21153, 25551, 36848, 34] @ u '','' @ [10] @ u ''      '' @ [34]
     @ u ''agent'' @ [34] @ u '': '' @ [34] @ u ''worker ''
     @ [21517, 31216, 65288, 21487, 30041, 31354, 65292, 30001, 31995, 32479, 33258, 21160,
        20998, 37197, 65289, 34]
     @ u '','' @ [10] @ u ''      '' @ [34] @ u ''depends_on'' @ [34] @ u '': [''
     @ [34, 21069, 32622, 20219, 21153, 30340] @ u '' id''
     @ [65292, 27809, 26377, 20381, 36182, 21017, 20026, 31354, 25968, 32452, 34] @ u ''],'' @ [10]
     @ u ''      '' @ [34] @ u ''required_capabilities'' @ [34] @ u '': [''
     @ [34, 35813, 23376, 20219, 21153, 38656, 35201, 30340, 33021, 21147, 65292, 22914]
     @ u '' research/coding/analysis'' @ [34] @ u '']'' @ [10] @ u ''    }'' @ [10] @ u ''  ]''
     @ [10] @ u ''}''
     @ [10, 23376, 20219, 21153, 24212, 24403, 25968, 37327, 36866, 20013, 65288, 36890, 24120]
     @ u '' 2-6 ''
     @ [20010, 65289, 65307, 21487, 20197, 24182, 34892, 30340, 24037, 20316, 19981, 35201,
        20154, 20026, 21046, 36896, 20381, 36182, 12290]"

definition PLACEHOLDER_DEPENDENCY :: pystr where
  "PLACEHOLDER_DEPENDENCY =
     [21069, 32622, 20219, 21153, 30340] @ u '' id''
     @ [65292, 27809, 26377, 20381, 36182, 21017, 20026, 31354, 25968, 32452]"

definition plan_prompt :: "pystr \<Rightarrow> pystr" where
  "plan_prompt prompt = prompt @ nl @ nl @ PLAN_INSTRUCTIONS"

section \<open>Worker routing\<close>

type_synonym caps_of = "pystr \<Rightarrow> pystr list option"

definition capabilities :: "caps_of \<Rightarrow> pystr \<Rightarrow> pystr list" where
  "capabilities caps_of name = (case caps_of name of None \<Rightarrow> [] | Some cs \<Rightarrow> cs)"

definition round_robin :: "pystr list \<Rightarrow> nat \<Rightarrow> exn + pystr \<times> nat" where
  "round_robin candidates cursor =
     (if candidates = []
      then Inl (Exn CZeroDivisionError (u ''integer modulo by zero''))
      else Inr (candidates ! (cursor mod length candidates), Suc cursor))"

text \<open>\<open>assign\<close>: explicit name, then capability match, then round robin; the state is the cursor.\<close>

definition assign ::
    "caps_of \<Rightarrow> pystr list \<Rightarrow> pystr option \<Rightarrow> pystr list \<Rightarrow> nat \<Rightarrow> exn + pystr \<times> nat" where
  "assign caps_of workers preferred required cursor =
     (let named = (case preferred of None \<Rightarrow> False | Some p \<Rightarrow> p \<noteq> [] \<and> p \<in> set workers);
          required_caps = stripped required;
          candidates = filter (\<lambda>w. list_all (\<lambda>c. c \<in> set (capabilities caps_of w)) required_caps) workers
      in if named then Inr (the preferred, cursor)
         else if required_caps \<noteq> [] \<and> candidates \<noteq> [] then round_robin candidates cursor
         else round_robin workers cursor)"

section \<open>Parsing\<close>

definition fence :: pystr where
  "fence = [96, 96, 96]"

text \<open>\<open>_FENCE_RE.finditer\<close>: the fence, an optional \<open>json\<close>, white space, and the shortest text up to the
  next fence; without one the search goes on a character later.\<close>

lemma find_sub_length: "find_sub s p = Some i \<Longrightarrow> i + length p \<le> length s"
  by (induction s p arbitrary: i rule: find_sub.induct) (auto split: if_splits simp: take_all_iff dest: arg_cong [where f = length])

function fence_groups :: "pystr \<Rightarrow> pystr list" where
  "fence_groups s =
     (case find_sub s fence of
        None \<Rightarrow> []
      | Some i \<Rightarrow>
          (let r = drop (i + 3) s;
               r1 = (if py_startswith r (u ''json'') then drop 4 r else r);
               r2 = dropWhile py_space r1
           in case find_sub r2 fence of
                None \<Rightarrow> fence_groups (drop (Suc i) s)
              | Some j \<Rightarrow> take j r2 # fence_groups (drop (j + 3) r2)))"
  by pat_completeness auto
termination
proof (relation "measure length", goal_cases)
  case 1
  show ?case by simp
next
  case (2 s i)
  from find_sub_length [OF 2(1)] show ?case by (simp add: fence_def)
next
  case (3 s i r r1 r2 j)
  have "length r < length s" using find_sub_length [OF 3(1)] 3(2) by (simp add: fence_def)
  moreover have "length r1 \<le> length r" "length r2 \<le> length r1"
    using 3(3,4) by (simp_all add: length_dropWhile_le)
  ultimately show ?case by simp
qed

text \<open>\<open>text.rfind(c)\<close>.\<close>

definition rfind_char :: "int \<Rightarrow> pystr \<Rightarrow> nat option" where
  "rfind_char c s = (if c \<in> set s then Some (length s - 1 - length (takeWhile (\<lambda>x. x \<noteq> c) (rev s))) else None)"

definition json_candidates :: "pystr \<Rightarrow> pystr list" where
  "json_candidates text =
     map py_strip (fence_groups text)
     @ (case (find_sub text (u ''{''), rfind_char 125 text) of
          (Some first, Some lst) \<Rightarrow> if first < lst then [take (lst + 1 - first) (drop first text)] else []
        | _ \<Rightarrow> [])
     @ [py_strip text]"

definition dict_entries :: "pyval list \<Rightarrow> (pystr \<times> pyval) list list" where
  "dict_entries vs = List.map_filter dict_of vs"

fun first_tasks :: "(pystr \<Rightarrow> pyval option) \<Rightarrow> pystr list \<Rightarrow> (pystr \<times> pyval) list list option" where
  "first_tasks loads [] = None"
| "first_tasks loads (c # cs) =
     (case loads c of
        None \<Rightarrow> first_tasks loads cs
      | Some data \<Rightarrow>
          (case data of
             DictV d \<Rightarrow> (case map_of d (u ''tasks'') of Some (ListV vs) \<Rightarrow> Some (dict_entries vs) | _ \<Rightarrow> None)
           | ListV vs \<Rightarrow> Some (dict_entries vs)
           | _ \<Rightarrow> first_tasks loads cs))"

definition parse_json_tasks :: "(pystr \<Rightarrow> pyval option) \<Rightarrow> pystr \<Rightarrow> (pystr \<times> pyval) list list option" where
  "parse_json_tasks loads text = first_tasks loads (json_candidates text)"

text \<open>\<open>entry.get(k)\<close>, and \<open>a or b\<close> on values.\<close>

definition val_get :: "(pystr \<times> pyval) list \<Rightarrow> string \<Rightarrow> pyval" where
  "val_get d k = (case map_of d (u k) of None \<Rightarrow> NoneV | Some v \<Rightarrow> v)"

definition val_or :: "pyval \<Rightarrow> pyval \<Rightarrow> pyval" where
  "val_or v w = (if truthy v then v else w)"

text \<open>\<open>while task_id in used_ids\<close>: each turn lengthens the id, and the ids in use are finitely many.\<close>

function fresh_id :: "pystr list \<Rightarrow> pystr \<Rightarrow> pystr" where
  "fresh_id used i =
     (if i \<in> set used then fresh_id used (i @ u ''_r'' @ py_int_str (int (length used))) else i)"
  by pat_completeness auto
termination
proof (relation "measure (\<lambda>(used, i). Suc (Max (insert 0 (length ` set used))) - length i)", goal_cases)
  case 1
  show ?case by simp
next
  case (2 used i)
  then have "length i \<le> Max (insert 0 (length ` set used))" by (intro Max_ge) auto
  then show ?case by simp
qed

declare fence_groups.simps [simp del] fresh_id.simps [simp del]

definition task_no :: "nat \<Rightarrow> pystr" where
  "task_no n = u ''task_'' @ py_int_str (int n)"

text \<open>The loop over the entries: \<open>n\<close> counts them from 1, \<open>used\<close> are the ids given out.\<close>

fun json_tasks :: "(pystr \<times> pyval) list list \<Rightarrow> nat \<Rightarrow> pystr list \<Rightarrow> exn + task list" where
  "json_tasks [] n used = Inr []"
| "json_tasks (entry # rest) n used =
     (let description = py_strip (py_str (val_or (val_or (val_get entry ''description'') (val_get entry ''task'')) (StrV [])))
      in if description = [] then json_tasks rest (Suc n) used
         else
           (let raw_id = py_strip (py_str (val_or (val_get entry ''id'') (StrV (task_no n))));
                task_id = fresh_id used (if raw_id = [] then task_no n else raw_id)
            in case py_iter (val_or (val_get entry ''depends_on'') (ListV [])) of
                 Inl e \<Rightarrow> Inl e
               | Inr ds \<Rightarrow>
                   (let deps = filter (\<lambda>d. d \<noteq> [] \<and> d \<noteq> PLACEHOLDER_DEPENDENCY)
                                 (map (\<lambda>d. py_strip (py_str d)) ds);
                        agent = (if truthy (val_get entry ''agent'')
                                 then Some (py_strip (py_str (val_get entry ''agent''))) else None)
                    in case as_capabilities (val_get entry ''required_capabilities'') of
                         Inl e \<Rightarrow> Inl e
                       | Inr caps \<Rightarrow>
                           (case json_tasks rest (Suc n) (used @ [task_id]) of
                              Inl e \<Rightarrow> Inl e
                            | Inr ts \<Rightarrow>
                                Inr (mk_task task_id description agent deps (py_sorted_set caps) # ts)))))"

definition tasks_from_json :: "(pystr \<times> pyval) list list \<Rightarrow> exn + task list" where
  "tasks_from_json raw = json_tasks raw 1 []"

text \<open>\<open>str.splitlines\<close>: a carriage return with its line feed ends one line, no empty line at the end.\<close>

definition line_break :: "int \<Rightarrow> bool" where
  "line_break c \<longleftrightarrow> 10 \<le> c \<and> c \<le> 13 \<or> 28 \<le> c \<and> c \<le> 30 \<or> c = 133 \<or> c = 8232 \<or> c = 8233"

function splitlines :: "pystr \<Rightarrow> pystr list" where
  "splitlines [] = []"
| "splitlines (c # s) =
     (if line_break c
      then [] # splitlines (if c = 13 \<and> s \<noteq> [] \<and> hd s = 10 then tl s else s)
      else (case splitlines s of [] \<Rightarrow> [[c]] | l # ls \<Rightarrow> (c # l) # ls))"
  by pat_completeness auto
termination
  by (relation "measure length") (auto simp: le_imp_less_Suc diff_le_self)

text \<open>The characters \<open>lstrip\<close> takes off a line: bullets and numbering.\<close>

definition line_marks :: pystr where
  "line_marks = u ''-*0123456789. ''"

definition plan_lines :: "pystr \<Rightarrow> pystr list" where
  "plan_lines text =
     filter (\<lambda>l. l \<noteq> [])
       (map (\<lambda>l. dropWhile (\<lambda>c. c \<in> set line_marks) (py_strip l)) (splitlines text))"

definition tasks_from_lines :: "pystr \<Rightarrow> pystr \<Rightarrow> task list" where
  "tasks_from_lines text prompt =
     (let ls = plan_lines text
      in if ls = [] then [mk_task (u ''task_1'') prompt None [] []]
         else map (\<lambda>(i, l). mk_task (task_no i) l None [] []) (zip [1..<Suc (length ls)] ls))"

section \<open>Repair\<close>

fun route_agents :: "caps_of \<Rightarrow> pystr list \<Rightarrow> task list \<Rightarrow> nat \<Rightarrow> exn + task list \<times> nat" where
  "route_agents caps_of workers [] cursor = Inr ([], cursor)"
| "route_agents caps_of workers (t # ts) cursor =
     (case assign caps_of workers (t_agent t) (t_caps t) cursor of
        Inl e \<Rightarrow> Inl e
      | Inr (a, cursor1) \<Rightarrow>
          (case route_agents caps_of workers ts cursor1 of
             Inl e \<Rightarrow> Inl e
           | Inr (ts', cursor2) \<Rightarrow> Inr (t\<lparr>t_agent := Some a\<rparr> # ts', cursor2)))"

text \<open>\<open>_repair_tasks\<close>: the tasks re-routed and without the capabilities nobody has, and the notes.\<close>

definition agent_note :: "pystr list \<Rightarrow> task \<Rightarrow> pystr \<Rightarrow> pystr list" where
  "agent_note known_agents t a =
     (case t_agent t of
        None \<Rightarrow> []
      | Some before \<Rightarrow>
          if before \<notin> set known_agents \<and> a \<noteq> before
          then [u ''task '' @ quoted (t_id t) @ u '': reassigned unknown agent '' @ quoted before
                @ u '' -> '' @ quoted a]
          else [])"

definition caps_note :: "pystr list \<Rightarrow> task \<Rightarrow> pystr list" where
  "caps_note known_caps t =
     (let bad = filter (\<lambda>c. c \<notin> set known_caps) (t_caps t)
      in if bad = [] then []
         else [u ''task '' @ quoted (t_id t) @ u '': dropped unsupported capabilities '' @ py_repr_strs bad])"

fun repair_tasks ::
    "caps_of \<Rightarrow> pystr list \<Rightarrow> pystr list \<Rightarrow> pystr list \<Rightarrow> task list \<Rightarrow> nat
     \<Rightarrow> exn + task list \<times> nat \<times> pystr list" where
  "repair_tasks caps_of workers known_agents known_caps [] cursor = Inr ([], cursor, [])"
| "repair_tasks caps_of workers known_agents known_caps (t # ts) cursor =
     (case assign caps_of workers (t_agent t) (t_caps t) cursor of
        Inl e \<Rightarrow> Inl e
      | Inr (a, cursor1) \<Rightarrow>
          (case repair_tasks caps_of workers known_agents known_caps ts cursor1 of
             Inl e \<Rightarrow> Inl e
           | Inr (ts', cursor2, notes) \<Rightarrow>
               Inr (t\<lparr>t_agent := Some a, t_caps := filter (\<lambda>c. c \<in> set known_caps) (t_caps t)\<rparr> # ts',
                    cursor2, agent_note known_agents t a @ caps_note known_caps t @ notes)))"

definition drop_edges :: "pystr list \<Rightarrow> task \<Rightarrow> task \<times> pystr list" where
  "drop_edges known_ids t =
     (let kept = filter (\<lambda>d. d \<in> set known_ids \<and> d \<noteq> t_id t) (t_deps t);
          dropped = filter (\<lambda>d. d \<notin> set kept) (t_deps t)
      in if dropped = [] then (t, [])
         else (t\<lparr>t_deps := kept\<rparr>,
               [u ''task '' @ quoted (t_id t) @ u '': dropped dependencies '' @ py_repr_strs dropped
                @ u '' (fallback)'']))"

definition clear_edges :: "task \<Rightarrow> task \<times> pystr list" where
  "clear_edges t =
     (if t_deps t = [] then (t, [])
      else (t\<lparr>t_deps := []\<rparr>, [u ''task '' @ quoted (t_id t) @ u '': cleared dependency cycle (fallback)'']))"

text \<open>\<open>_apply_dependency_fallback\<close>; an exception other than the cycle error would escape.\<close>

definition dependency_fallback ::
    "(pystr list \<Rightarrow> pystr list) \<Rightarrow> task list \<Rightarrow> exn + task list \<times> pystr list" where
  "dependency_fallback enum ts =
     (let known_ids = map t_id ts;
          cleaned = map (drop_edges known_ids) ts;
          ts1 = map fst cleaned;
          notes1 = concat (map snd cleaned)
      in case topological_order enum (map t_id ts1) (task_deps ts1) of
           Inr _ \<Rightarrow> Inr (ts1, notes1)
         | Inl e \<Rightarrow>
             if catches CPlanValidationError e
             then (let cleared = map clear_edges ts1
                   in Inr (map fst cleared, notes1 @ concat (map snd cleared)))
             else Inl e)"

text \<open>The \<open>try\<close> body: construct, validate, route.\<close>

definition try_plan ::
    "(pystr list \<Rightarrow> pystr list) \<Rightarrow> caps_of \<Rightarrow> pystr list \<Rightarrow> pystr list \<Rightarrow> pystr list \<Rightarrow> task list \<Rightarrow> nat
     \<Rightarrow> exn + task list \<times> nat" where
  "try_plan enum caps_of workers known_agents known_caps ts cursor =
     (case task_plan enum ts of
        Inl e \<Rightarrow> Inl e
      | Inr by_id \<Rightarrow>
          (case validate_plan enum by_id ts (Some known_agents) (Some known_caps) of
             Inl e \<Rightarrow> Inl e
           | Inr _ \<Rightarrow> route_agents caps_of workers ts cursor))"

text \<open>The attempts: \<open>n\<close> repairs are still allowed.\<close>

fun attempt_plan ::
    "(pystr list \<Rightarrow> pystr list) \<Rightarrow> caps_of \<Rightarrow> pystr list \<Rightarrow> pystr list \<Rightarrow> pystr list \<Rightarrow> bool
     \<Rightarrow> nat \<Rightarrow> task list \<Rightarrow> nat \<Rightarrow> pystr list \<Rightarrow> exn + task list \<times> pystr list" where
  "attempt_plan enum caps_of workers known_agents known_caps fallback n ts cursor notes =
     (case try_plan enum caps_of workers known_agents known_caps ts cursor of
        Inr (ts', _) \<Rightarrow> Inr (ts', notes)
      | Inl e \<Rightarrow>
          if \<not> catches CPlanValidationError e then Inl e
          else
            (case n of
               Suc m \<Rightarrow>
                 (case repair_tasks caps_of workers known_agents known_caps ts cursor of
                    Inl e' \<Rightarrow> Inl e'
                  | Inr (ts', cursor', notes') \<Rightarrow>
                      attempt_plan enum caps_of workers known_agents known_caps fallback m ts' cursor'
                        (notes @ notes'))
             | 0 \<Rightarrow>
                 if fallback
                 then
                   (case dependency_fallback enum ts of
                      Inl e' \<Rightarrow> Inl e'
                    | Inr (ts', notes') \<Rightarrow>
                        (case try_plan enum caps_of workers known_agents known_caps ts' cursor of
                           Inl e' \<Rightarrow> Inl e'
                         | Inr (ts'', _) \<Rightarrow> Inr (ts'', notes @ notes')))
                 else Inl e))"

definition validate_and_repair ::
    "(pystr list \<Rightarrow> pystr list) \<Rightarrow> caps_of \<Rightarrow> pystr list \<Rightarrow> pystr list \<Rightarrow> pystr list \<Rightarrow> bool
     \<Rightarrow> int \<Rightarrow> task list \<Rightarrow> exn + task list \<times> pystr list" where
  "validate_and_repair enum caps_of workers known_agents known_caps fallback max_repairs ts =
     attempt_plan enum caps_of workers known_agents known_caps fallback (nat (max 0 max_repairs)) ts 0 []"

record plan_info =
  pi_format :: pystr
  pi_notes :: "pystr list"

text \<open>The tasks of the answer, and the format it was read in.\<close>

definition read_tasks ::
    "(pystr \<Rightarrow> pyval option) \<Rightarrow> pystr \<Rightarrow> pystr \<Rightarrow> exn + task list \<times> pystr" where
  "read_tasks loads text prompt =
     (case parse_json_tasks loads text of
        Some raw \<Rightarrow>
          if raw = [] then Inr (tasks_from_lines text prompt, u ''lines'')
          else (case tasks_from_json raw of
                  Inl e \<Rightarrow> Inl e
                | Inr ts \<Rightarrow>
                    Inr (if ts = [] then (tasks_from_lines text prompt, u ''lines'') else (ts, u ''json'')))
      | None \<Rightarrow> Inr (tasks_from_lines text prompt, u ''lines''))"

definition parse_plan ::
    "(pystr \<Rightarrow> pyval option) \<Rightarrow> (pystr list \<Rightarrow> pystr list) \<Rightarrow> caps_of \<Rightarrow> pystr list \<Rightarrow> bool \<Rightarrow> int
     \<Rightarrow> pystr \<Rightarrow> pystr \<Rightarrow> exn + task list \<times> plan_info" where
  "parse_plan loads enum caps_of workers fallback max_repairs text prompt =
     (let known_caps = concat (map (capabilities caps_of) workers)
      in case read_tasks loads text prompt of
           Inl e \<Rightarrow> Inl e
         | Inr (ts, fmt) \<Rightarrow>
             (case validate_and_repair enum caps_of workers workers known_caps fallback max_repairs ts of
                Inl e \<Rightarrow> Inl e
              | Inr (ts', notes) \<Rightarrow> Inr (ts', \<lparr>pi_format = fmt, pi_notes = notes\<rparr>)))"

text \<open>\<open>str(x)\<close> of an optional string.\<close>

definition opt_text :: "pystr option \<Rightarrow> pystr" where
  "opt_text v = (case v of None \<Rightarrow> u ''None'' | Some s \<Rightarrow> s)"

definition format_task_results :: "(pystr \<times> task_result) list \<Rightarrow> task list \<Rightarrow> pystr" where
  "format_task_results results ts =
     py_join (nl @ nl)
       (concat (map (\<lambda>t.
          case map_of results (t_id t) of
            None \<Rightarrow> []
          | Some r \<Rightarrow>
              [u ''['' @ t_id t @ u ''][''  @ opt_text (r_agent r) @ u ''] ''
               @ (if r_status r = SUCCESS then py_str (r_output r)
                  else [26410, 23436, 25104, 65288] @ status_value (r_status r) @ u '': '' @ opt_text (r_error r)
                       @ [65289])]) ts))"

declare attempt_plan.simps [simp del] splitlines.simps(2) [simp del]

section \<open>Lemmas\<close>

text \<open>What repair and routing may not touch: ids, descriptions and dependencies.\<close>

definition shape :: "task list \<Rightarrow> (pystr \<times> pystr \<times> pystr list) list" where
  "shape ts = map (\<lambda>t. (t_id t, t_desc t, t_deps t)) ts"

lemma shape_ids:
  assumes "shape ts = shape ts'"
  shows "map t_id ts = map t_id ts'" "map t_desc ts = map t_desc ts'" "map t_deps ts = map t_deps ts'"
proof -
  have "map fst (shape xs) = map t_id xs" "map (fst \<circ> snd) (shape xs) = map t_desc xs"
    "map (snd \<circ> snd) (shape xs) = map t_deps xs" for xs
    by (simp_all add: shape_def)
  with assms show "map t_id ts = map t_id ts'" "map t_desc ts = map t_desc ts'" "map t_deps ts = map t_deps ts'"
    by metis+
qed

lemma plan_valid_shape:
  assumes "shape ts = shape ts'"
  shows "plan_valid ts = plan_valid ts'"
proof -
  have td: "task_deps xs = map (\<lambda>(i, d, ds). (i, ds)) (shape xs)" for xs
    by (simp add: task_deps_def shape_def)
  have "plan_valid xs \<longleftrightarrow>
      distinct (map fst (shape xs))
      \<and> (\<forall>(i, d, ds) \<in> set (shape xs). i \<noteq> [] \<and> py_strip d \<noteq> []
           \<and> set ds \<subseteq> set (map fst (shape xs)) \<and> i \<notin> set ds)
      \<and> acyclic (dep_edges (map fst (shape xs)) (task_deps xs))" for xs
    by (auto simp: plan_valid_def shape_def o_def)
  with assms show ?thesis by (simp add: td)
qed

lemma assign_total:
  assumes "workers \<noteq> []"
  shows "\<exists>a c. assign caps_of workers p req cur = Inr (a, c)"
  using assms by (auto simp: assign_def round_robin_def Let_def split: option.splits)

lemma assign_Inr:
  assumes "assign caps_of workers p req cur = Inr (a, c)"
  shows "a \<in> set workers" "\<And>b. p = Some b \<Longrightarrow> b \<noteq> [] \<Longrightarrow> b \<in> set workers \<Longrightarrow> a = b"
proof -
  have *: "xs \<noteq> [] \<Longrightarrow> xs ! (cur mod length xs) \<in> set xs" for xs :: "pystr list"
    by (intro nth_mem mod_less_divisor) simp
  show "a \<in> set workers"
    using assms * [of workers]
      * [of "filter (\<lambda>w. list_all (\<lambda>c. c \<in> set (capabilities caps_of w)) (stripped req)) workers"]
    by (auto simp: assign_def round_robin_def Let_def split: option.splits if_splits)
  show "a = b" if "p = Some b" "b \<noteq> []" "b \<in> set workers" for b
    using assms that by (simp add: assign_def Let_def)
qed

text \<open>How a task comes out of routing and of repair.\<close>

definition routed :: "pystr list \<Rightarrow> task \<Rightarrow> task \<Rightarrow> bool" where
  "routed workers t t' \<longleftrightarrow>
     t_id t' = t_id t \<and> t_desc t' = t_desc t \<and> t_deps t' = t_deps t
     \<and> (\<exists>a \<in> set workers. t_agent t' = Some a)
     \<and> (\<forall>a \<in> set workers. t_agent t = Some a \<longrightarrow> a \<noteq> [] \<longrightarrow> t_agent t' = Some a)"

lemma routed_trans: "routed w t t' \<Longrightarrow> routed w t' t'' \<Longrightarrow> routed w t t''"
  by (auto simp: routed_def)

lemma routed_shape: "list_all2 (routed w) ts ts' \<Longrightarrow> shape ts' = shape ts"
  by (induction rule: list_all2_induct) (auto simp: shape_def routed_def)

lemma route_agents_Inr:
  "route_agents caps_of workers ts cur = Inr (ts', c) \<Longrightarrow>
     list_all2 (\<lambda>t t'. routed workers t t' \<and> t_caps t' = t_caps t) ts ts'"
proof (induction ts arbitrary: cur ts' c)
  case (Cons t ts)
  then obtain a c1 ts1 where a: "assign caps_of workers (t_agent t) (t_caps t) cur = Inr (a, c1)"
    "route_agents caps_of workers ts c1 = Inr (ts1, c)" "ts' = t\<lparr>t_agent := Some a\<rparr> # ts1"
    by (auto split: sum.splits)
  then show ?case using Cons.IH [OF a(2)] assign_Inr [OF a(1)] by (auto simp: routed_def)
qed simp

lemma route_agents_total: "workers \<noteq> [] \<Longrightarrow> \<exists>ts' c. route_agents caps_of workers ts cur = Inr (ts', c)"
proof (induction ts arbitrary: cur)
  case (Cons t ts)
  obtain a c1 where a: "assign caps_of workers (t_agent t) (t_caps t) cur = Inr (a, c1)"
    using assign_total [OF Cons.prems] by blast
  obtain ts1 c where b: "route_agents caps_of workers ts c1 = Inr (ts1, c)"
    using Cons.IH [OF Cons.prems] by blast
  from a b show ?case by simp
qed simp

lemma repair_tasks_Inr:
  "repair_tasks caps_of workers ka kc ts cur = Inr (ts', c, ns) \<Longrightarrow>
     list_all2 (\<lambda>t t'. routed workers t t' \<and> t_caps t' = filter (\<lambda>x. x \<in> set kc) (t_caps t)) ts ts'"
proof (induction ts arbitrary: cur ts' c ns)
  case (Cons t ts)
  then obtain a c1 ts1 ns1 where a: "assign caps_of workers (t_agent t) (t_caps t) cur = Inr (a, c1)"
    "repair_tasks caps_of workers ka kc ts c1 = Inr (ts1, c, ns1)"
    "ts' = t\<lparr>t_agent := Some a, t_caps := filter (\<lambda>c. c \<in> set kc) (t_caps t)\<rparr> # ts1"
    by (auto split: sum.splits)
  then show ?case using Cons.IH [OF a(2)] assign_Inr [OF a(1)] by (auto simp: routed_def)
qed simp

lemma repair_tasks_total:
  "workers \<noteq> [] \<Longrightarrow> \<exists>ts' c ns. repair_tasks caps_of workers ka kc ts cur = Inr (ts', c, ns)"
proof (induction ts arbitrary: cur)
  case (Cons t ts)
  obtain a c1 where a: "assign caps_of workers (t_agent t) (t_caps t) cur = Inr (a, c1)"
    using assign_total [OF Cons.prems] by blast
  obtain ts1 c ns where b: "repair_tasks caps_of workers ka kc ts c1 = Inr (ts1, c, ns)"
    using Cons.IH [OF Cons.prems] by blast
  from a b show ?case by simp
qed simp

lemma repaired_refs:
  assumes "list_all2 (\<lambda>t t'. routed workers t t' \<and> t_caps t' = filter (\<lambda>x. x \<in> set kc) (t_caps t)) ts ts'"
  shows "refs_valid (Some workers) (Some kc) ts'"
  using assms by (induction rule: list_all2_induct) (auto simp: refs_valid_def routed_def)

lemma try_plan_cases:
  assumes "set_iteration enum"
  shows "try_plan enum caps_of workers ka kc ts cur =
      (if plan_valid ts \<and> refs_valid (Some ka) (Some kc) ts then route_agents caps_of workers ts cur
       else try_plan enum caps_of workers ka kc ts cur)"
    "\<not> (plan_valid ts \<and> refs_valid (Some ka) (Some kc) ts) \<Longrightarrow>
      \<exists>e. try_plan enum caps_of workers ka kc ts cur = Inl e \<and> exc_of e = CPlanValidationError"
proof -
  let ?d = "map (\<lambda>t. (t_id t, t)) ts"
  have v: "validate_plan enum ?d ts (Some ka) (Some kc) = Inr () \<longleftrightarrow>
      plan_valid ts \<and> refs_valid (Some ka) (Some kc) ts" if "plan_valid ts"
    using that by (intro validate_plan_Inr [OF assms]) (auto simp: plan_valid_def o_def)
  have p: "task_plan enum ts = Inr ?d" if "plan_valid ts" using that by (simp add: task_plan_Inr [OF assms])
  show "try_plan enum caps_of workers ka kc ts cur =
      (if plan_valid ts \<and> refs_valid (Some ka) (Some kc) ts then route_agents caps_of workers ts cur
       else try_plan enum caps_of workers ka kc ts cur)"
    using p v by (cases "plan_valid ts \<and> refs_valid (Some ka) (Some kc) ts") (auto simp: try_plan_def)
  assume n: "\<not> (plan_valid ts \<and> refs_valid (Some ka) (Some kc) ts)"
  show "\<exists>e. try_plan enum caps_of workers ka kc ts cur = Inl e \<and> exc_of e = CPlanValidationError"
  proof (cases "plan_valid ts")
    case True
    then have "validate_plan enum ?d ts (Some ka) (Some kc) \<noteq> Inr ()" using v n by blast
    then obtain e where e: "validate_plan enum ?d ts (Some ka) (Some kc) = Inl e"
      using unit_sum_cases [of "validate_plan enum ?d ts (Some ka) (Some kc)"] by blast
    with validate_plan_Inl [OF assms e] p [OF True] show ?thesis by (simp add: try_plan_def)
  next
    case False
    then obtain e where "task_plan enum ts = Inl e"
      using task_plan_Inr [OF assms, of ts] by (cases "task_plan enum ts") auto
    with task_plan_Inl [OF assms] show ?thesis by (auto simp: try_plan_def)
  qed
qed

lemma try_plan_Inr:
  assumes "set_iteration enum" "try_plan enum caps_of workers ka kc ts cur = Inr (ts', c)"
  shows "plan_valid ts" "refs_valid (Some ka) (Some kc) ts"
    "list_all2 (\<lambda>t t'. routed workers t t' \<and> t_caps t' = t_caps t) ts ts'"
proof -
  show v: "plan_valid ts" "refs_valid (Some ka) (Some kc) ts"
    using try_plan_cases(2) [OF assms(1), of ts ka kc caps_of workers cur] assms(2) by auto
  have "route_agents caps_of workers ts cur = Inr (ts', c)"
    using try_plan_cases(1) [OF assms(1), of caps_of workers ka kc ts cur] assms(2) v by simp
  then show "list_all2 (\<lambda>t t'. routed workers t t' \<and> t_caps t' = t_caps t) ts ts'"
    by (rule route_agents_Inr)
qed

lemma try_plan_total:
  assumes "set_iteration enum" "workers \<noteq> []" "plan_valid ts" "refs_valid (Some ka) (Some kc) ts"
  shows "\<exists>ts' c. try_plan enum caps_of workers ka kc ts cur = Inr (ts', c)"
  using try_plan_cases(1) [OF assms(1), of caps_of workers ka kc ts cur] route_agents_total [OF assms(2)]
    assms(3,4) by auto

text \<open>A plan as it leaves the pipeline.\<close>

definition plan_ready :: "pystr list \<Rightarrow> pystr list \<Rightarrow> task list \<Rightarrow> bool" where
  "plan_ready workers kc ts \<longleftrightarrow>
     plan_valid ts
     \<and> (\<forall>t \<in> set ts. (\<exists>a \<in> set workers. t_agent t = Some a) \<and> set (t_caps t) \<subseteq> set kc)"

lemma routed_ready:
  assumes "plan_valid ts" "refs_valid ka (Some kc) ts"
    "list_all2 (\<lambda>t t'. routed workers t t' \<and> t_caps t' = t_caps t) ts ts'"
  shows "plan_ready workers kc ts'"
proof -
  have r: "list_all2 (routed workers) ts ts'" using assms(3) by (rule list_all2_mono) simp
  have "plan_valid ts'" using assms(1) plan_valid_shape [OF routed_shape [OF r]] by simp
  moreover have "(\<exists>a \<in> set workers. t_agent t' = Some a) \<and> set (t_caps t') \<subseteq> set kc" if "t' \<in> set ts'" for t'
  proof -
    from that assms(3) obtain t where t: "t \<in> set ts" "routed workers t t'" "t_caps t' = t_caps t"
      by (auto simp: list_all2_conv_all_nth in_set_conv_nth) metis
    then show ?thesis using assms(2) by (auto simp: refs_valid_def routed_def)
  qed
  ultimately show ?thesis by (simp add: plan_ready_def)
qed

lemma try_plan_ready:
  assumes "set_iteration enum" "try_plan enum caps_of workers ka kc ts cur = Inr (ts', c)"
  shows "plan_ready workers kc ts'" "list_all2 (routed workers) ts ts'"
proof -
  note r = try_plan_Inr [OF assms]
  show "plan_ready workers kc ts'" by (rule routed_ready [OF r])
  show "list_all2 (routed workers) ts ts'" using r(3) by (rule list_all2_mono) simp
qed

lemma attempt_plan_strict:
  assumes "set_iteration enum"
    "attempt_plan enum caps_of workers ka kc False n ts cur ns = Inr (ts', ns')"
  shows "list_all2 (routed workers) ts ts' \<and> plan_ready workers kc ts'"
  using assms(2)
proof (induction n arbitrary: ts cur ns)
  case 0
  then obtain c where t: "try_plan enum caps_of workers ka kc ts cur = Inr (ts', c)"
    by (subst (asm) attempt_plan.simps) (auto split: sum.splits if_splits)
  show ?case using try_plan_ready [OF assms(1) t] by simp
next
  case (Suc n)
  show ?case
  proof (cases "try_plan enum caps_of workers ka kc ts cur")
    case (Inr p)
    then obtain c where t: "try_plan enum caps_of workers ka kc ts cur = Inr (ts', c)"
      using Suc.prems by (subst (asm) attempt_plan.simps) (auto split: prod.splits)
    show ?thesis using try_plan_ready [OF assms(1) t] by simp
  next
    case (Inl e)
    with Suc.prems obtain ts1 c1 ns1 where r: "repair_tasks caps_of workers ka kc ts cur = Inr (ts1, c1, ns1)"
      "attempt_plan enum caps_of workers ka kc False n ts1 c1 (ns @ ns1) = Inr (ts', ns')"
      by (subst (asm) attempt_plan.simps) (auto split: sum.splits if_splits)
    have "list_all2 (routed workers) ts ts1"
      using repair_tasks_Inr [OF r(1)] by (rule list_all2_mono) simp
    with Suc.IH [OF r(2)] show ?thesis
      by (blast intro: list_all2_trans [of "routed workers" "routed workers"] routed_trans)
  qed
qed

text \<open>A plan that is invalid stays so under repair, and the last error is raised.\<close>

lemma attempt_plan_invalid:
  assumes "set_iteration enum" "workers \<noteq> []" "\<not> plan_valid ts"
  shows "\<exists>e. attempt_plan enum caps_of workers ka kc False n ts cur ns = Inl e \<and> exc_of e = CPlanValidationError"
  using assms(3)
proof (induction n arbitrary: ts cur ns)
  case 0
  with try_plan_cases(2) [OF assms(1), of ts ka kc caps_of workers cur] obtain e where
    e: "try_plan enum caps_of workers ka kc ts cur = Inl e" "exc_of e = CPlanValidationError" by blast
  then show ?case by (subst attempt_plan.simps) (simp add: catches_def)
next
  case (Suc n)
  with try_plan_cases(2) [OF assms(1), of ts ka kc caps_of workers cur] obtain e where
    e: "try_plan enum caps_of workers ka kc ts cur = Inl e" "exc_of e = CPlanValidationError" by blast
  obtain ts1 c1 ns1 where r: "repair_tasks caps_of workers ka kc ts cur = Inr (ts1, c1, ns1)"
    using repair_tasks_total [OF assms(2)] by blast
  have "list_all2 (routed workers) ts ts1"
    using repair_tasks_Inr [OF r] by (rule list_all2_mono) simp
  then have "\<not> plan_valid ts1" using plan_valid_shape [OF routed_shape] Suc.prems by blast
  from Suc.IH [OF this] obtain e' where
    "attempt_plan enum caps_of workers ka kc False n ts1 c1 (ns @ ns1) = Inl e'" "exc_of e' = CPlanValidationError"
    by blast
  with e r show ?case by (subst attempt_plan.simps) (simp add: catches_def)
qed

lemma attempt_plan_valid:
  assumes "set_iteration enum" "workers \<noteq> []" "plan_valid ts"
  shows "\<exists>r. attempt_plan enum caps_of workers workers kc fb (Suc n) ts cur ns = Inr r"
proof (cases "refs_valid (Some workers) (Some kc) ts")
  case True
  obtain ts' c where "try_plan enum caps_of workers workers kc ts cur = Inr (ts', c)"
    using try_plan_total [OF assms True] by blast
  then show ?thesis by (subst attempt_plan.simps) simp
next
  case False
  with try_plan_cases(2) [OF assms(1), of ts workers kc caps_of workers cur] obtain e where
    e: "try_plan enum caps_of workers workers kc ts cur = Inl e" "exc_of e = CPlanValidationError" by blast
  obtain ts1 c1 ns1 where r: "repair_tasks caps_of workers workers kc ts cur = Inr (ts1, c1, ns1)"
    using repair_tasks_total [OF assms(2)] by blast
  note rr = repair_tasks_Inr [OF r]
  have "list_all2 (routed workers) ts ts1" using rr by (rule list_all2_mono) simp
  then have v: "plan_valid ts1" using plan_valid_shape [OF routed_shape] assms(3) by blast
  obtain ts2 c2 where "try_plan enum caps_of workers workers kc ts1 c1 = Inr (ts2, c2)"
    using try_plan_total [OF assms(1,2) v repaired_refs [OF rr]] by blast
  then have "attempt_plan enum caps_of workers workers kc fb n ts1 c1 (ns @ ns1) = Inr (ts2, ns @ ns1)"
    by (subst attempt_plan.simps) simp
  with e r show ?thesis by (subst attempt_plan.simps) (simp add: catches_def)
qed

lemma drop_edges_fst:
  "fst (drop_edges ids t) = t\<lparr>t_deps := filter (\<lambda>d. d \<in> set ids \<and> d \<noteq> t_id t) (t_deps t)\<rparr>"
proof -
  let ?kept = "filter (\<lambda>d. d \<in> set ids \<and> d \<noteq> t_id t) (t_deps t)"
  have "?kept = t_deps t" if "filter (\<lambda>d. d \<notin> set ?kept) (t_deps t) = []"
    using that by (simp add: filter_empty_conv)
  then show ?thesis
    by (cases "filter (\<lambda>d. d \<notin> set ?kept) (t_deps t) = []") (simp_all add: drop_edges_def Let_def del: set_filter)
qed

lemma clear_edges_fst: "fst (clear_edges t) = t\<lparr>t_deps := []\<rparr>"
  by (simp add: clear_edges_def)

text \<open>What reading guarantees of the tasks: distinct, non-empty ids and descriptions that are not blank.\<close>

definition tasks_named :: "task list \<Rightarrow> bool" where
  "tasks_named ts \<longleftrightarrow>
     distinct (map t_id ts) \<and> (\<forall>t \<in> set ts. t_id t \<noteq> [] \<and> py_strip (t_desc t) \<noteq> [])"

text \<open>Fewer edges, everything else as it was.\<close>

definition pruned :: "task \<Rightarrow> task \<Rightarrow> bool" where
  "pruned t t' \<longleftrightarrow> t' = t\<lparr>t_deps := t_deps t'\<rparr> \<and> set (t_deps t') \<subseteq> set (t_deps t)"

lemma dependency_fallback_valid:
  assumes "set_iteration enum" "tasks_named ts"
  shows "\<exists>ts' ns. dependency_fallback enum ts = Inr (ts', ns) \<and> plan_valid ts' \<and> list_all2 pruned ts ts'"
proof -
  let ?ids = "map t_id ts"
  let ?f = "\<lambda>t. t\<lparr>t_deps := filter (\<lambda>d. d \<in> set ?ids \<and> d \<noteq> t_id t) (t_deps t)\<rparr>"
  let ?ts1 = "map ?f ts"
  have ts1: "map fst (map (drop_edges ?ids) ts) = ?ts1"
    by (simp add: drop_edges_fst del: set_map)
  have ids: "map t_id ?ts1 = ?ids" by (simp add: o_def)
  have named: "tasks_named ?ts1" using assms(2) by (auto simp: tasks_named_def o_def)
  have p1: "list_all2 pruned ts ?ts1"
    by (auto simp: list_all2_conv_all_nth pruned_def)
  show ?thesis
  proof (cases "topological_order enum (map t_id ?ts1) (task_deps ?ts1)")
    case (Inr order)
    then have "acyclic (dep_edges (map t_id ?ts1) (task_deps ?ts1))"
      using topological_order_total [OF assms(1), of "map t_id ?ts1" "task_deps ?ts1"] by blast
    then have "plan_valid ?ts1" using named by (auto simp: plan_valid_def tasks_named_def o_def image_image)
    with p1 show ?thesis unfolding dependency_fallback_def Let_def ts1 Inr by auto
  next
    case (Inl e)
    then have e: "catches CPlanValidationError e"
      using topological_order_Inl [OF assms(1)] by (simp add: catches_def)
    let ?ts2 = "map (\<lambda>t. t\<lparr>t_deps := []\<rparr>) ?ts1"
    have ts2: "map fst (map clear_edges ?ts1) = ?ts2" by (simp add: clear_edges_fst)
    have d: "distinct (map t_id ?ts2)" using named by (simp add: tasks_named_def o_def)
    have "dep_edges (map t_id ?ts2) (task_deps ?ts2) = {}"
      unfolding dep_edges_task_deps [OF d] by auto
    then have "plan_valid ?ts2"
      using named d unfolding plan_valid_def tasks_named_def by (auto simp: acyclic_def)
    moreover have "list_all2 pruned ts ?ts2"
      by (auto simp: list_all2_conv_all_nth pruned_def)
    ultimately show ?thesis
      using e unfolding dependency_fallback_def Let_def ts1 ts2 Inl by auto
  qed
qed

lemma fresh_id_spec: "fresh_id used i \<notin> set used \<and> prefix i (fresh_id used i)"
proof (induction used i rule: fresh_id.induct)
  case (1 used i)
  show ?case
  proof (cases "i \<in> set used")
    case True
    with 1 show ?thesis by (subst (1 2) fresh_id.simps) (auto dest: append_prefixD)
  qed (subst (1 2) fresh_id.simps, simp)
qed

lemma task_no_inject [simp]: "task_no m = task_no n \<longleftrightarrow> m = n"
  by (simp add: task_no_def)

lemma task_no_ne [simp]: "task_no m \<noteq> []"
  by (simp add: task_no_def)

lemma json_tasks_named:
  "json_tasks raw n used = Inr ts \<Longrightarrow>
     tasks_named ts \<and> set (map t_id ts) \<inter> set used = {}"
proof (induction raw n used arbitrary: ts rule: json_tasks.induct)
  case (1 n used)
  then show ?case by (simp add: tasks_named_def)
next
  case (2 entry rest n used)
  let ?desc = "py_strip (py_str (val_or (val_or (val_get entry ''description'') (val_get entry ''task'')) (StrV [])))"
  show ?case
  proof (cases "?desc = []")
    case True
    with 2 show ?thesis by simp
  next
    case False
    let ?raw = "py_strip (py_str (val_or (val_get entry ''id'') (StrV (task_no n))))"
    let ?id = "fresh_id used (if ?raw = [] then task_no n else ?raw)"
    let ?agent = "if truthy (val_get entry ''agent'') then Some (py_strip (py_str (val_get entry ''agent''))) else None"
    from 2(3) False obtain ds caps ts1 where d:
      "py_iter (val_or (val_get entry ''depends_on'') (ListV [])) = Inr ds"
      "as_capabilities (val_get entry ''required_capabilities'') = Inr caps"
      "json_tasks rest (Suc n) (used @ [?id]) = Inr ts1"
      "ts = mk_task ?id ?desc ?agent
        (filter (\<lambda>d. d \<noteq> [] \<and> d \<noteq> PLACEHOLDER_DEPENDENCY) (map (\<lambda>d. py_strip (py_str d)) ds)) (py_sorted_set caps) # ts1"
      by (simp add: Let_def split: sum.splits)
    have ih: "tasks_named ts1 \<and> set (map t_id ts1) \<inter> set (used @ [?id]) = {}"
      by (rule 2(2) [OF refl False refl refl d(1) refl refl d(2) d(3)])
    have "?id \<notin> set used" "prefix (if ?raw = [] then task_no n else ?raw) ?id"
      using fresh_id_spec by blast+
    then have "?id \<notin> set used" "?id \<noteq> []" by (auto split: if_splits)
    moreover have "py_strip ?desc \<noteq> []" using False by (simp add: py_strip_def)
    ultimately show ?thesis
      using ih by (auto simp: d(4) tasks_named_def mk_task_def)
  qed
qed

lemma plan_lines_nonblank: "l \<in> set (plan_lines text) \<Longrightarrow> py_strip l \<noteq> []"
proof -
  assume "l \<in> set (plan_lines text)"
  then obtain x where l: "l = dropWhile (\<lambda>c. c \<in> set line_marks) (py_strip x)" "l \<noteq> []"
    by (auto simp: plan_lines_def)
  then have ne: "py_strip x \<noteq> []" by auto
  have "last l = last (py_strip x)"
    using l by (metis append_is_Nil_conv last_appendR takeWhile_dropWhile_id)
  moreover have "\<not> py_space (last (py_strip x))"
    using ne last_strip_by [of py_space x] by (simp add: py_strip_def)
  ultimately have "\<not> (\<forall>c \<in> set l. py_space c)" using l(2) last_in_set by metis
  then show ?thesis by (simp add: py_strip_def strip_by_Nil_iff)
qed

lemma tasks_from_lines_named: "py_strip prompt \<noteq> [] \<Longrightarrow> tasks_named (tasks_from_lines text prompt)"
proof -
  assume p: "py_strip prompt \<noteq> []"
  have "map t_id (map (\<lambda>(i, l). mk_task (task_no i) l None [] []) (zip xs ls)) = map task_no xs"
    if "length xs = length ls" for xs :: "nat list" and ls
    using that by (induction xs ls rule: list_induct2) (auto simp: mk_task_def)
  then have "map t_id (map (\<lambda>(i, l). mk_task (task_no i) l None [] []) (zip [1..<Suc (length ls)] ls))
      = map task_no [1..<Suc (length ls)]" for ls :: "pystr list"
    by (simp del: map_map upt_Suc)
  moreover have "distinct (map task_no [1..<Suc k])" for k by (simp add: distinct_map inj_on_def)
  ultimately show ?thesis
    using p by (auto simp: tasks_named_def tasks_from_lines_def Let_def mk_task_def
        plan_lines_nonblank [OF nth_mem] set_zip simp del: map_map upt_Suc)
qed

lemma read_tasks_named:
  "read_tasks loads text prompt = Inr (ts, fmt) \<Longrightarrow> py_strip prompt \<noteq> [] \<Longrightarrow> tasks_named ts"
  using tasks_from_lines_named
  by (auto simp: read_tasks_def tasks_from_json_def dest: json_tasks_named split: option.splits sum.splits if_splits)

lemma attempt_plan_ready:
  assumes "set_iteration enum"
    "attempt_plan enum caps_of workers ka kc fb n ts cur ns = Inr (ts', ns')"
  shows "plan_ready workers kc ts'"
  using assms(2)
proof (induction n arbitrary: ts cur ns)
  case 0
  then obtain ts0 cur0 c where "try_plan enum caps_of workers ka kc ts0 cur0 = Inr (ts', c)"
    by (subst (asm) attempt_plan.simps) (auto split: sum.splits if_splits)
  then show ?case by (rule try_plan_ready(1) [OF assms(1)])
next
  case (Suc n)
  show ?case
  proof (cases "try_plan enum caps_of workers ka kc ts cur")
    case (Inr p)
    then obtain c where "try_plan enum caps_of workers ka kc ts cur = Inr (ts', c)"
      using Suc.prems by (subst (asm) attempt_plan.simps) (auto split: prod.splits)
    then show ?thesis by (rule try_plan_ready(1) [OF assms(1)])
  next
    case (Inl e)
    with Suc.prems obtain ts1 c1 ns1 where
      "attempt_plan enum caps_of workers ka kc fb n ts1 c1 (ns @ ns1) = Inr (ts', ns')"
      by (subst (asm) attempt_plan.simps) (auto split: sum.splits if_splits)
    then show ?thesis by (rule Suc.IH)
  qed
qed

text \<open>Same task, perhaps with fewer edges.\<close>

definition weakened :: "task \<Rightarrow> task \<Rightarrow> bool" where
  "weakened t t' \<longleftrightarrow> t_id t' = t_id t \<and> t_desc t' = t_desc t \<and> set (t_deps t') \<subseteq> set (t_deps t)"

lemma weakened_trans: "weakened t t' \<Longrightarrow> weakened t' t'' \<Longrightarrow> weakened t t''"
  by (auto simp: weakened_def)

lemma weakened_trans_list:
  "list_all2 weakened xs ys \<Longrightarrow> list_all2 weakened ys zs \<Longrightarrow> list_all2 weakened xs zs"
  by (rule list_all2_trans [OF weakened_trans])

lemma pruned_weakened: "list_all2 pruned ts ts' \<Longrightarrow> list_all2 weakened ts ts'"
  by (erule list_all2_mono) (metis pruned_def weakened_def task.select_convs(1,2) task.surjective task.update_convs(4))

lemma routed_weakened: "list_all2 (routed w) ts ts' \<Longrightarrow> list_all2 weakened ts ts'"
  by (erule list_all2_mono) (simp add: routed_def weakened_def)

lemma pruned_refs:
  assumes "list_all2 pruned ts ts'" "refs_valid ka kc ts"
  shows "refs_valid ka kc ts'"
proof -
  have "\<exists>t \<in> set ts. t_agent t' = t_agent t \<and> t_caps t' = t_caps t" if "t' \<in> set ts'" for t'
  proof -
    from that assms(1) obtain t where t: "t \<in> set ts" "pruned t t'"
      by (auto simp: list_all2_conv_all_nth in_set_conv_nth) metis
    then have "t' = t\<lparr>t_deps := t_deps t'\<rparr>" by (simp add: pruned_def)
    then have "t_agent t' = t_agent t" "t_caps t' = t_caps t" by (metis task.select_convs task.surjective task.update_convs(4))+
    with t(1) show ?thesis by blast
  qed
  with assms(2) show ?thesis unfolding refs_valid_def by metis
qed

lemma tasks_named_shape: "shape ts = shape ts' \<Longrightarrow> tasks_named ts \<Longrightarrow> tasks_named ts'"
proof -
  assume s: "shape ts = shape ts'" and n: "tasks_named ts"
  have "tasks_named xs \<longleftrightarrow> distinct (map t_id xs) \<and> (\<forall>i \<in> set (map t_id xs). i \<noteq> [])
      \<and> (\<forall>d \<in> set (map t_desc xs). py_strip d \<noteq> [])" for xs
    by (auto simp: tasks_named_def)
  with n shape_ids [OF s] show ?thesis by simp
qed

text \<open>Once the references are valid, or with a repair to come, the fallback always ends in a plan.\<close>

lemma attempt_plan_fallback:
  assumes "set_iteration enum" "workers \<noteq> []" "tasks_named ts"
    "n = 0 \<Longrightarrow> refs_valid (Some workers) (Some kc) ts"
  shows "\<exists>ts' ns'. attempt_plan enum caps_of workers workers kc True n ts cur ns = Inr (ts', ns')
    \<and> list_all2 weakened ts ts'"
  using assms(3,4)
proof (induction n arbitrary: ts cur ns)
  case 0
  show ?case
  proof (cases "try_plan enum caps_of workers workers kc ts cur")
    case (Inr p)
    then obtain ts' c where t: "try_plan enum caps_of workers workers kc ts cur = Inr (ts', c)" by fastforce
    then show ?thesis
      using routed_weakened [OF try_plan_ready(2) [OF assms(1) t]] by (subst attempt_plan.simps) simp
  next
    case (Inl e)
    have e: "catches CPlanValidationError e"
      using Inl try_plan_cases(2) [OF assms(1), of ts workers kc caps_of workers cur]
        try_plan_total [OF assms(1,2), of ts workers kc caps_of cur] by (fastforce simp: catches_def)
    obtain ts1 ns1 where f: "dependency_fallback enum ts = Inr (ts1, ns1)" "plan_valid ts1" "list_all2 pruned ts ts1"
      using dependency_fallback_valid [OF assms(1) 0(1)] by blast
    have "refs_valid (Some workers) (Some kc) ts1" using pruned_refs [OF f(3)] 0(2) by simp
    then obtain ts2 c2 where t: "try_plan enum caps_of workers workers kc ts1 cur = Inr (ts2, c2)"
      using try_plan_total [OF assms(1,2) f(2)] by blast
    have "list_all2 weakened ts ts2"
      by (rule weakened_trans_list [OF pruned_weakened [OF f(3)] routed_weakened [OF try_plan_ready(2) [OF assms(1) t]]])
    with Inl e f(1) t show ?thesis by (subst attempt_plan.simps) simp
  qed
next
  case (Suc n)
  show ?case
  proof (cases "try_plan enum caps_of workers workers kc ts cur")
    case (Inr p)
    then obtain ts' c where t: "try_plan enum caps_of workers workers kc ts cur = Inr (ts', c)" by fastforce
    then show ?thesis
      using routed_weakened [OF try_plan_ready(2) [OF assms(1) t]] by (subst attempt_plan.simps) simp
  next
    case (Inl e)
    have e: "catches CPlanValidationError e"
      using Inl try_plan_cases(2) [OF assms(1), of ts workers kc caps_of workers cur]
        try_plan_total [OF assms(1,2), of ts workers kc caps_of cur] by (fastforce simp: catches_def)
    obtain ts1 c1 ns1 where r: "repair_tasks caps_of workers workers kc ts cur = Inr (ts1, c1, ns1)"
      using repair_tasks_total [OF assms(2)] by blast
    note rr = repair_tasks_Inr [OF r]
    have l: "list_all2 (routed workers) ts ts1" using rr by (rule list_all2_mono) simp
    have "tasks_named ts1" using tasks_named_shape [OF routed_shape [OF l, symmetric] Suc.prems(1)] .
    from Suc.IH [OF this repaired_refs [OF rr]] obtain ts' ns' where
      "attempt_plan enum caps_of workers workers kc True n ts1 c1 (ns @ ns1) = Inr (ts', ns')"
      "list_all2 weakened ts1 ts'" by blast
    with Inl e r weakened_trans_list [OF routed_weakened [OF l]] show ?thesis
      by (subst attempt_plan.simps) simp
  qed
qed

section \<open>Properties\<close>

text \<open>
  C31. Whatever the supervisor answers, a plan that leaves the pipeline is well-formed: the ids are
  distinct and non-empty, no description is blank, every dependency is another task of the plan and
  there is no cycle; every task is assigned to one of the workers and asks only for capabilities
  some worker has.
\<close>

theorem parse_plan_ready:
  assumes "set_iteration enum"
    "parse_plan loads enum caps_of workers fallback repairs text prompt = Inr (ts, info)"
  shows "plan_valid ts
    \<and> (\<forall>t \<in> set ts. (\<exists>a \<in> set workers. t_agent t = Some a)
         \<and> set (t_caps t) \<subseteq> (\<Union>w \<in> set workers. set (capabilities caps_of w)))"
proof -
  let ?kc = "concat (map (capabilities caps_of) workers)"
  obtain ts0 ns where "attempt_plan enum caps_of workers workers ?kc fallback (nat (max 0 repairs)) ts0 0 [] = Inr (ts, ns)"
    using assms(2) by (auto simp: parse_plan_def validate_and_repair_def split: sum.splits prod.splits)
  from attempt_plan_ready [OF assms(1) this] show ?thesis by (simp add: plan_ready_def)
qed

text \<open>
  C32. Without the opt-in fallback, and with at least one worker and one repair, planning is strict:
  it succeeds exactly when the tasks read from the answer form a valid plan, and then ids,
  descriptions and dependencies are the ones read and a task that names a worker keeps it;
  otherwise \<open>PlanValidationError\<close> is raised.
\<close>

theorem parse_plan_strict:
  assumes "set_iteration enum" "workers \<noteq> []" "1 \<le> repairs" "read_tasks loads text prompt = Inr (raw, fmt)"
  shows "case parse_plan loads enum caps_of workers False repairs text prompt of
      Inr (ts, info) \<Rightarrow> plan_valid raw \<and> list_all2 (routed workers) raw ts \<and> pi_format info = fmt
    | Inl e \<Rightarrow> \<not> plan_valid raw \<and> exc_of e = CPlanValidationError"
proof -
  let ?kc = "concat (map (capabilities caps_of) workers)"
  obtain n where n: "nat (max 0 repairs) = Suc n" using assms(3) by (cases "nat (max 0 repairs)") auto
  let ?a = "attempt_plan enum caps_of workers workers ?kc False (Suc n) raw 0 []"
  have p: "parse_plan loads enum caps_of workers False repairs text prompt =
      (case ?a of Inl e \<Rightarrow> Inl e | Inr (ts', ns) \<Rightarrow> Inr (ts', \<lparr>pi_format = fmt, pi_notes = ns\<rparr>))"
    by (simp add: parse_plan_def assms(4) validate_and_repair_def n)
  show ?thesis
  proof (cases "plan_valid raw")
    case True
    obtain ts ns where a: "?a = Inr (ts, ns)" using attempt_plan_valid [OF assms(1,2) True] by fastforce
    from attempt_plan_strict [OF assms(1) a] True show ?thesis by (simp add: p a)
  next
    case False
    obtain e where "?a = Inl e" "exc_of e = CPlanValidationError"
      using attempt_plan_invalid [OF assms(1,2) False] by blast
    with False show ?thesis by (simp add: p)
  qed
qed

text \<open>
  With the fallback, and at least one worker and one repair, planning always succeeds on what
  was read: every task is kept with its id and description, and the only change of the graph is that
  dependencies are dropped.
\<close>

theorem parse_plan_fallback:
  assumes "set_iteration enum" "workers \<noteq> []" "1 \<le> repairs" "py_strip prompt \<noteq> []"
    "read_tasks loads text prompt = Inr (raw, fmt)"
  shows "\<exists>ts info. parse_plan loads enum caps_of workers True repairs text prompt = Inr (ts, info)
    \<and> plan_valid ts \<and> list_all2 weakened raw ts"
proof -
  let ?kc = "concat (map (capabilities caps_of) workers)"
  obtain n where n: "nat (max 0 repairs) = Suc n" using assms(3) by (cases "nat (max 0 repairs)") auto
  obtain ts ns where a: "attempt_plan enum caps_of workers workers ?kc True (Suc n) raw 0 [] = Inr (ts, ns)"
    "list_all2 weakened raw ts"
    using attempt_plan_fallback [OF assms(1,2) read_tasks_named [OF assms(5,4)], of "Suc n" ?kc caps_of 0 "[]"]
    by auto
  then show ?thesis
    using attempt_plan_ready [OF assms(1) a(1)]
    by (auto simp: parse_plan_def assms(5) validate_and_repair_def n plan_ready_def)
qed

text \<open>An answer that plans two tasks for an unknown agent, the second behind the first.\<close>

definition sample_loads :: "pystr \<Rightarrow> pyval option" where
  "sample_loads s =
     (if s = u ''{}''
      then Some (DictV [(u ''tasks'', ListV
             [DictV [(u ''id'', StrV (u ''a'')), (u ''description'', StrV (u ''find'')), (u ''agent'', StrV (u ''nobody''))],
              DictV [(u ''id'', StrV (u ''a'')), (u ''task'', StrV (u ''write'')),
                     (u ''depends_on'', ListV [StrV (u ''a'')])]])])
      else None)"

definition sample_caps :: caps_of where
  "sample_caps name = Some []"

definition sample_plan :: "bool \<Rightarrow> exn + task list \<times> plan_info" where
  "sample_plan fb = parse_plan sample_loads remdups sample_caps [u ''w''] fb 2 (u ''{}'') (u ''go'')"

lemma sample_runs: "\<exists>raw fmt. read_tasks sample_loads (u ''{}'') (u ''go'') = Inr (raw, fmt)"
  "\<exists>ts info. sample_plan True = Inr (ts, info)" "\<exists>ts info. sample_plan False = Inr (ts, info)"
proof -
  have "case read_tasks sample_loads (u ''{}'') (u ''go'') of Inl e \<Rightarrow> False | Inr p \<Rightarrow> True" by code_simp
  then show "\<exists>raw fmt. read_tasks sample_loads (u ''{}'') (u ''go'') = Inr (raw, fmt)" by (auto split: sum.splits)
  have "case sample_plan True of Inl e \<Rightarrow> False | Inr p \<Rightarrow> True" by code_simp
  then show "\<exists>ts info. sample_plan True = Inr (ts, info)" by (auto split: sum.splits)
  have "case sample_plan False of Inl e \<Rightarrow> False | Inr p \<Rightarrow> True" by code_simp
  then show "\<exists>ts info. sample_plan False = Inr (ts, info)" by (auto split: sum.splits)
qed

theorem parse_plan_ready_witness:
  "\<exists>ts info. sample_plan True = Inr (ts, info) \<and> plan_valid ts \<and> (\<forall>t \<in> set ts. t_agent t = Some (u ''w''))"
proof -
  obtain ts info where r: "sample_plan True = Inr (ts, info)" using sample_runs(2) by blast
  from parse_plan_ready [OF set_iteration_remdups r [unfolded sample_plan_def]] r show ?thesis by auto
qed

theorem parse_plan_strict_witness:
  "\<exists>raw fmt ts info. read_tasks sample_loads (u ''{}'') (u ''go'') = Inr (raw, fmt)
     \<and> sample_plan False = Inr (ts, info) \<and> plan_valid raw \<and> list_all2 (routed [u ''w'']) raw ts"
proof -
  obtain raw fmt where r: "read_tasks sample_loads (u ''{}'') (u ''go'') = Inr (raw, fmt)" using sample_runs(1) by blast
  obtain ts info where p: "sample_plan False = Inr (ts, info)" using sample_runs(3) by blast
  from parse_plan_strict [OF set_iteration_remdups _ _ r, of "[u ''w'']" 2 sample_caps] r p show ?thesis
    by (auto simp: sample_plan_def)
qed

theorem parse_plan_fallback_witness:
  "\<exists>raw fmt ts info. read_tasks sample_loads (u ''{}'') (u ''go'') = Inr (raw, fmt)
     \<and> sample_plan True = Inr (ts, info) \<and> list_all2 weakened raw ts"
proof -
  obtain raw fmt where r: "read_tasks sample_loads (u ''{}'') (u ''go'') = Inr (raw, fmt)" using sample_runs(1) by blast
  have "py_strip (u ''go'') \<noteq> []" by code_simp
  from parse_plan_fallback [OF set_iteration_remdups _ _ this r, of "[u ''w'']" 2 sample_caps] r show ?thesis
    by (auto simp: sample_plan_def)
qed

end
