(* ===== verification/Scheduler.thy ===== *)
theory Scheduler
  imports TaskModel Context "HOL-Library.Multiset"
begin

text \<open>
  \<open>runtime/scheduler.py\<close>: the DAG scheduler. The state of a run is the record \<open>sched\<close> (the
  dictionaries \<open>pending\<close>, \<open>running\<close>, \<open>results\<close>, the mutable task statuses, the cancellation
  tokens, the calls of \<open>on_event\<close>); one function per method. What the scheduler does not decide is
  an argument: \<open>world\<close> says how each task ends and whether the pool accepts it, and a list of
  \<open>env_step\<close> gives, for every turn of the loop, the clock readings and the futures \<open>wait\<close> reports.
  The loop takes one \<open>env_step\<close> per turn, \<open>None\<close> being a loop that has not ended when the list is
  used up; \<open>run_loop_returns\<close> bounds the number of turns.
\<close>

section \<open>Model\<close>

datatype task_output = OutResult task_result | OutValue pyval

datatype outcome = Returned task_output | Raised exn

datatype submit_outcome = Accepted real | SubmitRaises exn

record world =
  w_outcome :: "pystr \<Rightarrow> outcome"
  w_submit :: "pystr \<Rightarrow> submit_outcome"

record env_step =
  e_now :: real
  e_done :: "(nat \<times> real) list"
  e_expire :: real

record config =
  max_concurrency :: "int option"
  default_timeout :: "real option"
  run_dl :: "real option"

record running =
  rn_task :: task
  rn_deadline :: "real option"
  rn_started :: real
  rn_token :: nat

record sched =
  s_pending :: "(pystr \<times> task) list"
  s_running :: "(nat \<times> running) list"
  s_results :: "(pystr \<times> task_result) list"
  s_status :: "pystr \<Rightarrow> task_status"
  s_tokens :: tokens
  s_events :: "(pystr \<times> task_result) list"
  s_next :: nat

definition unsuccessful :: "task_status \<Rightarrow> bool" where
  "unsuccessful s \<longleftrightarrow> s \<in> set [FAILED, TIMEOUT, CANCELLED, SKIPPED]"

definition finish :: "task \<Rightarrow> task_result \<Rightarrow> sched \<Rightarrow> sched" where
  "finish t r s =
     s\<lparr>s_status := (s_status s)(t_id t := r_status r),
       s_results := AList.update (r_task_id r) r (s_results s),
       s_events := s_events s @ [(t_id t, r)]\<rparr>"

definition mk_result ::
    "task \<Rightarrow> task_status \<Rightarrow> pyval \<Rightarrow> pystr option \<Rightarrow> real \<Rightarrow> task_result" where
  "mk_result t st out err d =
     \<lparr>r_task_id = t_id t, r_status = st, r_output = out, r_error = err, r_agent = t_agent t,
      r_duration = d\<rparr>"

fun blocking_dep :: "(pystr \<times> task_result) list \<Rightarrow> pystr list \<Rightarrow> (pystr \<times> task_result) option" where
  "blocking_dep results [] = None"
| "blocking_dep results (d # ds) =
     (case map_of results d of
        Some r \<Rightarrow> if unsuccessful (r_status r) then Some (d, r) else blocking_dep results ds
      | None \<Rightarrow> blocking_dep results ds)"

text \<open>The body of \<open>_skip_blocked\<close> for the keys of \<open>list(pending)\<close>; a listed key is still there.\<close>

fun skip_loop :: "pystr list \<Rightarrow> sched \<Rightarrow> sched" where
  "skip_loop [] s = s"
| "skip_loop (i # is) s =
     (case map_of (s_pending s) i of
        None \<Rightarrow> skip_loop is s
      | Some t \<Rightarrow>
          (case blocking_dep (s_results s) (t_deps t) of
             None \<Rightarrow> skip_loop is s
           | Some (d, dr) \<Rightarrow>
               (let r = mk_result t SKIPPED NoneV
                          (Some (u ''dependency '' @ quoted d @ u '' '' @ status_value (r_status dr))) 0;
                    s' = finish t r s
                in skip_loop is (s'\<lparr>s_pending := AList.delete i (s_pending s')\<rparr>))))"

definition skip_blocked :: "sched \<Rightarrow> sched" where
  "skip_blocked s = skip_loop (dkeys (s_pending s)) s"

definition deps_succeeded :: "(pystr \<times> task_result) list \<Rightarrow> task \<Rightarrow> bool" where
  "deps_succeeded results t \<longleftrightarrow>
     list_all (\<lambda>d. case map_of results d of None \<Rightarrow> False | Some r \<Rightarrow> r_status r = SUCCESS) (t_deps t)"

definition task_deadline :: "real \<Rightarrow> real option \<Rightarrow> real option \<Rightarrow> real option" where
  "task_deadline now timeout run_deadline =
     (case timeout of
        Some t \<Rightarrow> (case run_deadline of Some d \<Rightarrow> Some (min (now + t) d) | None \<Rightarrow> Some (now + t))
      | None \<Rightarrow> run_deadline)"

definition at_capacity :: "config \<Rightarrow> sched \<Rightarrow> bool" where
  "at_capacity c s =
     (case max_concurrency c of None \<Rightarrow> False | Some m \<Rightarrow> int (length (s_running s)) \<ge> m)"

fun launch_loop ::
    "config \<Rightarrow> world \<Rightarrow> real \<Rightarrow> pystr list \<Rightarrow> sched \<Rightarrow> sched \<times> exn option" where
  "launch_loop c w now [] s = (s, None)"
| "launch_loop c w now (i # is) s =
     (if at_capacity c s then (s, None)
      else
        (case map_of (s_pending s) i of
           None \<Rightarrow> launch_loop c w now is s
         | Some t \<Rightarrow>
             if \<not> deps_succeeded (s_results s) t then launch_loop c w now is s
             else
               (let timeout = (case t_timeout t of Some x \<Rightarrow> Some x | None \<Rightarrow> default_timeout c);
                    dl = task_deadline now timeout (run_dl c);
                    (tok, toks) = new_token (Some 0) (s_tokens s);
                    s1 = s\<lparr>s_tokens := toks, s_status := (s_status s)(t_id t := RUNNING)\<rparr>
                in case w_submit w i of
                     Accepted started \<Rightarrow>
                       launch_loop c w now is
                         (s1\<lparr>s_running := AList.update (s_next s1)
                               \<lparr>rn_task = t, rn_deadline = dl, rn_started = started, rn_token = tok\<rparr>
                               (s_running s1),
                             s_next := Suc (s_next s1),
                             s_pending := AList.delete i (s_pending s1)\<rparr>)
                   | SubmitRaises e \<Rightarrow>
                       if catches CPoolSaturated e
                       then
                         (let s2 = finish t (mk_result t TIMEOUT NoneV
                                     (Some (u ''shared pool saturated'')) 0) s1
                          in launch_loop c w now is (s2\<lparr>s_pending := AList.delete i (s_pending s2)\<rparr>))
                       else (s1, Some e))))"

definition run_timeout_exn :: exn where
  "run_timeout_exn = Exn CRunTimeout (u ''run deadline exceeded'')"

definition launch_ready :: "config \<Rightarrow> world \<Rightarrow> real \<Rightarrow> sched \<Rightarrow> sched \<times> exn option" where
  "launch_ready c w now s =
     (if (case run_dl c of None \<Rightarrow> False | Some d \<Rightarrow> d \<le> now)
      then (s\<lparr>s_tokens := cancel_token 0 (Some (u ''run deadline exceeded'')) (s_tokens s)\<rparr>,
            Some run_timeout_exn)
      else launch_loop c w now (dkeys (s_pending s)) s)"

definition nearest_deadline :: "config \<Rightarrow> sched \<Rightarrow> real \<Rightarrow> real option" where
  "nearest_deadline c s now =
     (let deadlines = concat (map (\<lambda>(f, r). case rn_deadline r of None \<Rightarrow> [] | Some d \<Rightarrow> [d]) (s_running s))
                      @ (case run_dl c of None \<Rightarrow> [] | Some d \<Rightarrow> [d])
      in if deadlines = [] then None else Some (max 0 (Min (set deadlines) - now)))"

fun expire_loop :: "real \<Rightarrow> (nat \<times> running) list \<Rightarrow> sched \<Rightarrow> sched" where
  "expire_loop now [] s = s"
| "expire_loop now ((f, r) # rest) s =
     (if (case rn_deadline r of None \<Rightarrow> False | Some d \<Rightarrow> d \<le> now)
      then
        (let s1 = s\<lparr>s_tokens := cancel_token (rn_token r) (Some (u ''task deadline exceeded'')) (s_tokens s)\<rparr>;
             s2 = finish (rn_task r)
                    (mk_result (rn_task r) TIMEOUT NoneV (Some (u ''task deadline exceeded''))
                       ((now - rn_started r) * 1000)) s1
         in expire_loop now rest (s2\<lparr>s_running := AList.delete f (s_running s2)\<rparr>))
      else expire_loop now rest s)"

definition expire :: "real \<Rightarrow> sched \<Rightarrow> sched" where
  "expire now s = expire_loop now (s_running s) s"

definition result_from_output :: "task \<Rightarrow> task_output \<Rightarrow> real \<Rightarrow> task_result" where
  "result_from_output t out elapsed =
     (case out of
        OutResult r \<Rightarrow> r
      | OutValue v \<Rightarrow>
          (case (case dict_of v of None \<Rightarrow> None | Some kvs \<Rightarrow> map_of kvs (u ''error'')) of
             Some err \<Rightarrow>
               mk_result t (if err = StrV (u ''timeout'') then TIMEOUT else FAILED) NoneV
                 (Some (py_str err)) elapsed
           | None \<Rightarrow> mk_result t SUCCESS v None elapsed))"

definition collect :: "world \<Rightarrow> nat \<Rightarrow> real \<Rightarrow> sched \<Rightarrow> sched \<times> exn option" where
  "collect w f now s =
     (case map_of (s_running s) f of
        None \<Rightarrow> (s, Some (Exn CKeyError (py_int_str (int f))))
      | Some r \<Rightarrow>
          (let s1 = s\<lparr>s_running := AList.delete f (s_running s)\<rparr>;
               t = rn_task r;
               elapsed = (now - rn_started r) * 1000
           in case w_outcome w (t_id t) of
                Raised e \<Rightarrow>
                  if catches CCancelledError e
                  then (finish t (mk_result t CANCELLED NoneV (Some (exc_msg e)) elapsed) s1, None)
                  else if catches CBudgetExceeded e then (s1, Some e)
                  else if catches CException e
                  then (finish t (mk_result t FAILED NoneV (Some (exc_msg e)) elapsed) s1, None)
                  else (s1, Some e)
              | Returned out \<Rightarrow> (finish t (result_from_output t out elapsed) s1, None)))"

fun collect_loop :: "world \<Rightarrow> (nat \<times> real) list \<Rightarrow> sched \<Rightarrow> sched \<times> exn option" where
  "collect_loop w [] s = (s, None)"
| "collect_loop w ((f, now) # rest) s =
     (case collect w f now s of
        (s', Some e) \<Rightarrow> (s', Some e)
      | (s', None) \<Rightarrow> collect_loop w rest s')"

text \<open>\<open>wait(running, ...)\<close> returns a set of futures it was given: of the futures the script names,
  those that are running, each once.\<close>

definition wait_done :: "env_step \<Rightarrow> sched \<Rightarrow> (nat \<times> real) list" where
  "wait_done e s = filter (\<lambda>(f, _). f \<in> set (dkeys (s_running s))) (AList.clearjunk (e_done e))"

definition wait_step :: "world \<Rightarrow> env_step \<Rightarrow> sched \<Rightarrow> sched \<times> exn option" where
  "wait_step w e s =
     (let dn = wait_done e s
      in if dn = [] then (expire (e_expire e) s, None) else collect_loop w dn s)"

definition deadlock_exn :: exn where
  "deadlock_exn = Exn CTaskError (u ''scheduler deadlock: unresolvable tasks remain'')"

text \<open>The \<open>while pending or running\<close> loop: the state it ends in and the exception it raises.\<close>

fun run_loop :: "config \<Rightarrow> world \<Rightarrow> env_step list \<Rightarrow> sched \<Rightarrow> (sched \<times> exn option) option" where
  "run_loop c w es s =
     (if s_pending s = [] \<and> s_running s = [] then Some (s, None)
      else
        (case es of
           [] \<Rightarrow> None
         | e # es' \<Rightarrow>
             (case launch_ready c w (e_now e) (skip_blocked s) of
                (s1, Some x) \<Rightarrow> Some (s1, Some x)
              | (s1, None) \<Rightarrow>
                  if s_running s1 = []
                  then Some (s1, if s_pending s1 \<noteq> [] then Some deadlock_exn else None)
                  else
                    (case wait_step w e s1 of
                       (s2, Some x) \<Rightarrow> Some (s2, Some x)
                     | (s2, None) \<Rightarrow> run_loop c w es' s2))))"

definition final_check :: "config \<Rightarrow> real \<Rightarrow> sched \<Rightarrow> sched \<times> exn option" where
  "final_check c now s =
     (if (case run_dl c of None \<Rightarrow> False | Some d \<Rightarrow> d \<le> now)
         \<and> list_ex (\<lambda>(i, r). r_status r = TIMEOUT) (s_results s)
      then (s\<lparr>s_tokens := cancel_token 0 (Some (u ''run deadline exceeded'')) (s_tokens s)\<rparr>,
            Some run_timeout_exn)
      else (s, None))"

definition cancel_result :: "task \<Rightarrow> task_result" where
  "cancel_result t = mk_result t CANCELLED NoneV (Some (u ''cancelled'')) 0"

definition abort :: "sched \<Rightarrow> sched" where
  "abort s =
     (let s1 = s\<lparr>s_tokens := cancel_token 0 (Some (u ''run aborted'')) (s_tokens s)\<rparr>;
          s2 = fold (\<lambda>(f, r). finish (rn_task r) (cancel_result (rn_task r))) (s_running s) s1
      in fold (\<lambda>(i, t). finish t (cancel_result t)) (s_pending s) s2)"

definition init_sched :: "task list \<Rightarrow> sched" where
  "init_sched ts =
     \<lparr>s_pending = fold (\<lambda>t. AList.update (t_id t) t) ts [], s_running = [], s_results = [],
      s_status = (\<lambda>i. case map_of (map (\<lambda>t. (t_id t, t)) ts) i of None \<Rightarrow> PENDING | Some t \<Rightarrow> t_status t),
      s_tokens = snd (new_token None []), s_events = [], s_next = 0\<rparr>"

text \<open>\<open>_run\<close> after \<open>plan.validate()\<close>: the exception or the results, and the state left behind, whose
  results are \<open>_last_results\<close>.\<close>

definition run_valid ::
    "config \<Rightarrow> world \<Rightarrow> env_step list \<Rightarrow> real \<Rightarrow> task list \<Rightarrow> (sched \<times> exn option) option" where
  "run_valid c w es final_now ts =
     (case run_loop c w es (init_sched ts) of
        None \<Rightarrow> None
      | Some (s, Some e) \<Rightarrow> Some (abort s, Some e)
      | Some (s, None) \<Rightarrow>
          (case final_check c final_now s of
             (s', Some e) \<Rightarrow> Some (abort s', Some e)
           | (s', None) \<Rightarrow> Some (s', None)))"

type_synonym results = "(pystr \<times> task_result) list"

definition execute ::
    "(pystr list \<Rightarrow> pystr list) \<Rightarrow> config \<Rightarrow> world \<Rightarrow> env_step list \<Rightarrow> real \<Rightarrow> task list
     \<Rightarrow> results \<Rightarrow> ((exn + results) \<times> results) option" where
  "execute enum c w es final_now ts prev =
     (case validate_plan enum (map (\<lambda>t. (t_id t, t)) ts) ts None None of
        Inl e \<Rightarrow> Some (Inl e, prev)
      | Inr _ \<Rightarrow>
          (case run_valid c w es final_now ts of
             None \<Rightarrow> None
           | Some (s, Some e) \<Rightarrow> Some (Inl e, s_results s)
           | Some (s, None) \<Rightarrow> Some (Inr (s_results s), s_results s)))"

datatype run_status = RunSuccess | RunFailed | RunTimedOut | RunCancelled

record run_result =
  rr_status :: run_status
  rr_results :: results
  rr_reason :: "pystr option"

fun run_status_value :: "run_status \<Rightarrow> pystr" where
  "run_status_value RunSuccess = u ''success''"
| "run_status_value RunFailed = u ''failed''"
| "run_status_value RunTimedOut = u ''timeout''"
| "run_status_value RunCancelled = u ''cancelled''"

definition timed_out :: "run_result \<Rightarrow> bool" where
  "timed_out r \<longleftrightarrow> run_status_value (rr_status r) = u ''timeout''"

text \<open>\<open>RunResult.as_dict\<close>: status, reason and the results by task.\<close>

definition run_result_as_dict :: "run_result \<Rightarrow> pystr \<times> pystr option \<times> (pystr \<times> (pystr \<times> field) list) list" where
  "run_result_as_dict r =
     (run_status_value (rr_status r), rr_reason r, map (\<lambda>(i, x). (i, result_as_dict x)) (rr_results r))"

text \<open>\<open>_accepts_context\<close> goes by the signature of the callable, \<open>None\<close> when it has none to inspect; a parameter
  \<open>*args\<close> decides at once, otherwise two positional ones are needed.\<close>

datatype param_kind = PositionalOnly | PositionalOrKeyword | VarPositional | KeywordOnly | VarKeyword

fun count_positional :: "nat \<Rightarrow> param_kind list \<Rightarrow> bool" where
  "count_positional n [] = (2 \<le> n)"
| "count_positional n (k # ks) =
     (if k = PositionalOnly \<or> k = PositionalOrKeyword then count_positional (n + 1) ks
      else if k = VarPositional then True else count_positional n ks)"

definition accepts_context :: "param_kind list option \<Rightarrow> bool" where
  "accepts_context sig = (case sig of None \<Rightarrow> False | Some ks \<Rightarrow> count_positional 0 ks)"

definition invoke_run_task :: "bool \<Rightarrow> (task \<Rightarrow> 'a) \<Rightarrow> (task \<Rightarrow> 'c \<Rightarrow> 'a) \<Rightarrow> task \<Rightarrow> 'c \<Rightarrow> 'a" where
  "invoke_run_task takes_context plain with_context t ctx = (if takes_context then with_context t ctx else plain t)"

lemma count_positional_iff:
  "count_positional n ks \<longleftrightarrow>
     VarPositional \<in> set ks \<or> 2 \<le> n + length (filter (\<lambda>k. k = PositionalOnly \<or> k = PositionalOrKeyword) ks)"
  by (induction n ks rule: count_positional.induct) auto

definition execute_run ::
    "(pystr list \<Rightarrow> pystr list) \<Rightarrow> config \<Rightarrow> world \<Rightarrow> env_step list \<Rightarrow> real \<Rightarrow> task list
     \<Rightarrow> results \<Rightarrow> (exn + run_result) option" where
  "execute_run enum c w es final_now ts prev =
     (case execute enum c w es final_now ts prev of
        None \<Rightarrow> None
      | Some (Inl e, res) \<Rightarrow>
          Some (if catches CRunTimeout e
                then Inr \<lparr>rr_status = RunTimedOut, rr_results = res, rr_reason = Some (exc_msg e)\<rparr>
                else if catches CBudgetExceeded e
                then Inr \<lparr>rr_status = RunCancelled, rr_results = res, rr_reason = Some (exc_msg e)\<rparr>
                else if catches CTaskError e
                then Inr \<lparr>rr_status = RunFailed, rr_results = res, rr_reason = Some (exc_msg e)\<rparr>
                else Inl e)
      | Some (Inr res, _) \<Rightarrow>
          Some (Inr \<lparr>rr_status =
                       (if list_ex (\<lambda>(i, r). r_status r = FAILED \<or> r_status r = TIMEOUT) res
                        then RunFailed else RunSuccess),
                     rr_results = res, rr_reason = None\<rparr>))"

end
