(* ===== verification/Actions.thy ===== *)
theory Actions
  imports Calls Supervisor Scheduler
begin

text \<open>
  The steps strategies are made of. An action takes the state of a run to a result or an exception and
  the state left behind; \<open>None\<close> is an action that never returns. \<open>host\<close> gathers what a run is given from
  outside: the world, the pool, \<open>json.loads\<close>, the iteration order of sets and the behaviour of the
  workers while a plan is executed. The locale \<open>run_contract\<close> states what every action of a strategy
  keeps, for any relation the primitive actions keep.
\<close>

section \<open>Actions\<close>

type_synonym ('a, 'w) act = "'w rt \<Rightarrow> ((exn + 'a) \<times> 'w rt) option"

definition ret :: "'a \<Rightarrow> ('a, 'w) act" where
  "ret v = (\<lambda>s. Some (Inr v, s))"

definition throw :: "exn \<Rightarrow> ('a, 'w) act" where
  "throw e = (\<lambda>s. Some (Inl e, s))"

definition andthen :: "('a, 'w) act \<Rightarrow> ('a \<Rightarrow> ('b, 'w) act) \<Rightarrow> ('b, 'w) act" where
  "andthen m f = (\<lambda>s.
     case m s of
       None \<Rightarrow> None
     | Some (Inl e, s1) \<Rightarrow> Some (Inl e, s1)
     | Some (Inr v, s1) \<Rightarrow> f v s1)"

definition reads :: "('w rt \<Rightarrow> 'a) \<Rightarrow> ('a, 'w) act" where
  "reads f = (\<lambda>s. Some (Inr (f s), s))"

definition does :: "('w rt \<Rightarrow> 'w rt) \<Rightarrow> (unit, 'w) act" where
  "does f = (\<lambda>s. Some (Inr (), f s))"

definition checked :: "exn + 'a \<Rightarrow> ('a, 'w) act" where
  "checked r = (case r of Inl e \<Rightarrow> throw e | Inr v \<Rightarrow> ret v)"

definition guarded :: "bool \<Rightarrow> exn \<Rightarrow> (unit, 'w) act" where
  "guarded bad e = (if bad then throw e else ret ())"

text \<open>What the workers do while a plan is executed: whether the pool takes each task, and per turn of the
  scheduler its clock readings and the calls that begin and end before it wakes up.\<close>

record work_script =
  ws_submit :: "pystr \<Rightarrow> submit_outcome"
  ws_turns :: "(env_step \<times> job_event list) list"
  ws_final :: real

record 'w host =
  ho_x :: "'w ext"
  ho_pool :: "'w pooling"
  ho_loads :: "pystr \<Rightarrow> pyval option"
  ho_enum :: "pystr list \<Rightarrow> pystr list"
  ho_work :: "task list \<Rightarrow> 'w \<Rightarrow> work_script \<times> 'w"

text \<open>Asking one agent, asking all of them, and recording in the memory.\<close>

definition ask_one :: "'w host \<Rightarrow> pystr \<Rightarrow> pystr \<Rightarrow> real option \<Rightarrow> (pyval, 'w) act" where
  "ask_one h name message timeout =
     (\<lambda>s. Some (call_agent (ho_x h) (ho_pool h) name (StrV message) [] timeout s))"

definition ask_all :: "'w host \<Rightarrow> pystr \<Rightarrow> (pystr \<Rightarrow> chat list) \<Rightarrow> real option \<Rightarrow> ((pystr \<times> pyval) list, 'w) act" where
  "ask_all h message ctx timeout =
     (\<lambda>s. parallel (ho_x h) (ho_pool h) (StrV message) (agent_names (rt_coord s)) ctx timeout s)"

definition note_user :: "pystr \<Rightarrow> (unit, 'w) act" where
  "note_user prompt = does (record_message (u ''user'') (StrV prompt) None)"

definition note_answer :: "pystr \<Rightarrow> pyval \<Rightarrow> (unit, 'w) act" where
  "note_answer name v = does (record_answer name v)"

definition note_answers :: "(pystr \<times> pyval) list \<Rightarrow> (unit, 'w) act" where
  "note_answers rs = does (record_answers rs)"

definition ask_noted :: "'w host \<Rightarrow> pystr \<Rightarrow> pystr \<Rightarrow> real option \<Rightarrow> (pyval, 'w) act" where
  "ask_noted h name message timeout =
     andthen (ask_one h name message timeout) (\<lambda>v. andthen (note_answer name v) (\<lambda>_. ret v))"

definition ask_all_noted ::
    "'w host \<Rightarrow> pystr \<Rightarrow> (pystr \<Rightarrow> chat list) \<Rightarrow> real option \<Rightarrow> ((pystr \<times> pyval) list, 'w) act" where
  "ask_all_noted h message ctx timeout =
     andthen (ask_all h message ctx timeout) (\<lambda>rs. andthen (note_answers rs) (\<lambda>_. ret rs))"

section \<open>Results\<close>

text \<open>A step record: its dictionary, and the list under \<open>"tasks"\<close> (its items hold real numbers).\<close>

record step_record =
  st_dict :: pydict
  st_tasks :: "(pystr \<times> field) list list"

definition plain_step :: "pydict \<Rightarrow> step_record" where
  "plain_step d = \<lparr>st_dict = d, st_tasks = []\<rparr>"

record strat_result =
  sr_strategy :: pystr
  sr_prompt :: pystr
  sr_rounds :: "step_record list"
  sr_final :: pystr
  sr_meta :: run_meta

definition conclude ::
    "'w host \<Rightarrow> pystr \<Rightarrow> real \<Rightarrow> pystr \<Rightarrow> step_record list \<Rightarrow> pystr \<Rightarrow> (strat_result, 'w) act" where
  "conclude h strategy start prompt records final =
     reads (\<lambda>s. \<lparr>sr_strategy = strategy, sr_prompt = prompt, sr_rounds = records, sr_final = final,
                 sr_meta = run_metadata (ho_x h) (rt_coord s) start strategy (rt_world s)\<rparr>)"

definition start_time :: "'w host \<Rightarrow> (real, 'w) act" where
  "start_time h = reads (\<lambda>s. x_clock (ho_x h) (rt_world s))"

section \<open>What actions keep\<close>

definition upholds :: "('w rt \<Rightarrow> 'w rt \<Rightarrow> bool) \<Rightarrow> ('a, 'w) act \<Rightarrow> bool" where
  "upholds R m \<longleftrightarrow> (\<forall>s r s'. m s = Some (r, s') \<longrightarrow> R s s')"

lemma upholdsD: "upholds R m \<Longrightarrow> m s = Some (r, s') \<Longrightarrow> R s s'"
  by (auto simp: upholds_def)

locale run_contract =
  fixes R :: "'w rt \<Rightarrow> 'w rt \<Rightarrow> bool"
  assumes same: "R s s"
    and trans: "R s s1 \<Longrightarrow> R s1 s2 \<Longrightarrow> R s s2"
    and call: "call_agent x g name m ctx timeout s = (out, s1) \<Longrightarrow> R s s1"
    and par: "parallel x g m names pctx timeout s = Some (res, s1) \<Longrightarrow> R s s1"
    and recorded: "R s (record_message role content agent s)"
    and world: "R s (s\<lparr>rt_world := w\<rparr>)"
begin

lemma ret [intro]: "upholds R (ret v)"
  by (simp add: upholds_def ret_def same)

lemma throw [intro]: "upholds R (throw e)"
  by (simp add: upholds_def throw_def same)

lemma reads [intro]: "upholds R (reads f)"
  by (simp add: upholds_def reads_def same)

lemma does: "(\<And>s. R s (f s)) \<Longrightarrow> upholds R (does f)"
  by (simp add: upholds_def does_def)

lemma checked [intro]: "upholds R (checked r)"
  by (cases r) (auto simp: checked_def)

lemma guarded [intro]: "upholds R (guarded bad e)"
  by (auto simp: guarded_def)

lemma andthen [intro]:
  assumes "upholds R m" "\<And>v. upholds R (f v)"
  shows "upholds R (andthen m f)"
  unfolding upholds_def
proof (intro allI impI)
  fix s r s'
  assume a: "andthen m f s = Some (r, s')"
  then obtain r1 s1 where m: "m s = Some (r1, s1)" by (auto simp: andthen_def split: option.splits)
  have first: "R s s1" using assms(1) m by (rule upholdsD)
  show "R s s'"
  proof (cases r1)
    case (Inl e)
    with a m first show ?thesis by (simp add: andthen_def)
  next
    case (Inr v)
    with a m have "f v s1 = Some (r, s')" by (simp add: andthen_def)
    from trans [OF first upholdsD [OF assms(2) this]] show ?thesis .
  qed
qed

lemma ask_one [intro]: "upholds R (ask_one h name msg timeout)"
  by (auto simp: upholds_def ask_one_def intro: call)

lemma ask_all [intro]: "upholds R (ask_all h msg pctx timeout)"
  by (auto simp: upholds_def ask_all_def intro: par)

lemma note_user [intro]: "upholds R (note_user p)"
  unfolding note_user_def by (rule does) (rule recorded)

lemma answer: "R s (record_answer n v s)"
  by (simp add: record_answer_def same recorded)

lemma answers: "R s (record_answers rs s)"
proof -
  have "R s (fold (\<lambda>(n, v). record_answer n v) rs s)"
  proof (induction rs arbitrary: s)
    case (Cons p rs)
    obtain n v where "p = (n, v)" by fastforce
    with trans [OF answer [where n = n and v = v and s = s] Cons] show ?case by simp
  qed (simp add: same)
  then show ?thesis by (simp add: record_answers_def)
qed

lemma note_answer [intro]: "upholds R (note_answer n v)"
  unfolding note_answer_def by (rule does) (rule answer)

lemma note_answers [intro]: "upholds R (note_answers rs)"
  unfolding note_answers_def by (rule does) (rule answers)

lemma ask_noted [intro]: "upholds R (ask_noted h n m t)"
  unfolding ask_noted_def by blast

lemma ask_all_noted [intro]: "upholds R (ask_all_noted h m pctx t)"
  unfolding ask_all_noted_def by blast

lemma conclude [intro]: "upholds R (conclude h st start p rs fin)"
  unfolding conclude_def by (rule reads)

lemma start_time [intro]: "upholds R (start_time h)"
  unfolding start_time_def by (rule reads)

end

interpretation kept: run_contract "keeps :: 'w rt \<Rightarrow> 'w rt \<Rightarrow> bool"
proof unfold_locales
  fix x :: "'w ext" and g m names pctx timeout s res s1
  assume "parallel x g m names pctx timeout s = Some (res, s1)"
  then show "keeps s s1" by (rule parallel_spec(1))
qed (auto intro: keeps_trans dest: call_agent_keeps)

end
