(* ===== verification/SchedulerInv.thy ===== *)
theory SchedulerInv
  imports Scheduler
begin

text \<open>
  The scheduler as a transition system: \<open>move\<close> has one rule for each way a task changes hands
  (skipped, marked, launched, refused by a saturated pool, completed). Every method of the
  scheduler is a sequence of moves, the invariant \<open>sched_inv\<close> is kept by every move, and the facts
  about runs follow.
\<close>

section \<open>Moves\<close>

text \<open>A task deadline never lies beyond the run deadline.\<close>

definition deadline_ok :: "config \<Rightarrow> running \<Rightarrow> bool" where
  "deadline_ok c rn \<longleftrightarrow>
     (case run_dl c of None \<Rightarrow> True
      | Some d \<Rightarrow> (case rn_deadline rn of None \<Rightarrow> False | Some x \<Rightarrow> x \<le> d))"

inductive move :: "config \<Rightarrow> sched \<Rightarrow> sched \<Rightarrow> bool" for c where
  skip: "map_of (s_pending s) i = Some t \<Longrightarrow> d \<in> set (t_deps t) \<Longrightarrow> map_of (s_results s) d = Some dr
    \<Longrightarrow> unsuccessful (r_status dr) \<Longrightarrow> r_task_id r = i \<Longrightarrow> r_status r = SKIPPED
    \<Longrightarrow> move c s ((finish t r s)\<lparr>s_pending := AList.delete i (s_pending s)\<rparr>)"
| mark: "map_of (s_pending s) i = Some t
    \<Longrightarrow> move c s (s\<lparr>s_tokens := snd (new_token (Some 0) (s_tokens s)),
                    s_status := (s_status s)(t_id t := RUNNING)\<rparr>)"
| launch: "map_of (s_pending s) i = Some t \<Longrightarrow> s_status s (t_id t) = RUNNING
    \<Longrightarrow> deps_succeeded (s_results s) t \<Longrightarrow> \<not> at_capacity c s \<Longrightarrow> rn_task rn = t
    \<Longrightarrow> rn_token rn < length (s_tokens s) \<Longrightarrow> tk_parent (s_tokens s ! rn_token rn) = Some 0
    \<Longrightarrow> deadline_ok c rn
    \<Longrightarrow> move c s (s\<lparr>s_running := AList.update (s_next s) rn (s_running s),
                    s_next := Suc (s_next s), s_pending := AList.delete i (s_pending s)\<rparr>)"
| saturate: "map_of (s_pending s) i = Some t \<Longrightarrow> deps_succeeded (s_results s) t
    \<Longrightarrow> r_task_id r = i \<Longrightarrow> r_status r = TIMEOUT
    \<Longrightarrow> move c s ((finish t r s)\<lparr>s_pending := AList.delete i (s_pending s)\<rparr>)"
| complete: "map_of (s_running s) f = Some rn \<Longrightarrow> r_task_id r = t_id (rn_task rn)
    \<Longrightarrow> terminal (r_status r) \<Longrightarrow> r_status r \<noteq> SKIPPED
    \<Longrightarrow> move c s (finish (rn_task rn) r (s\<lparr>s_running := AList.delete f (s_running s)\<rparr>))"
| cancel: "move c s (s\<lparr>s_tokens := cancel_token k reason (s_tokens s)\<rparr>)"

abbreviation moves :: "config \<Rightarrow> sched \<Rightarrow> sched \<Rightarrow> bool" where
  "moves c \<equiv> (move c)\<^sup>*\<^sup>*"

inductive_cases moveE: "move c s s'"

section \<open>Invariant\<close>

definition run_ids :: "sched \<Rightarrow> pystr list" where
  "run_ids s = map (\<lambda>(f, r). t_id (rn_task r)) (s_running s)"

text \<open>Every id of the plan is in exactly one of \<open>pending\<close>, \<open>running\<close>, \<open>results\<close> and the lost ids \<open>L\<close>.\<close>

definition partition_inv :: "task list \<Rightarrow> pystr multiset \<Rightarrow> sched \<Rightarrow> bool" where
  "partition_inv ts L s \<longleftrightarrow>
     mset (dkeys (s_pending s)) + mset (run_ids s) + mset (dkeys (s_results s)) + L = mset (map t_id ts)
     \<and> (\<forall>(i, t) \<in> set (s_pending s). t \<in> set ts \<and> t_id t = i)
     \<and> (\<forall>(f, r) \<in> set (s_running s). rn_task r \<in> set ts \<and> f < s_next s)
     \<and> dict_ok (s_running s)"

definition results_inv :: "sched \<Rightarrow> bool" where
  "results_inv s \<longleftrightarrow>
     (\<forall>(i, r) \<in> set (s_results s). r_task_id r = i \<and> terminal (r_status r) \<and> s_status s i = r_status r)
     \<and> s_events s = s_results s"

definition tokens_inv :: "sched \<Rightarrow> bool" where
  "tokens_inv s \<longleftrightarrow> wf_tokens (s_tokens s) \<and> s_tokens s \<noteq> []
     \<and> (\<forall>(f, r) \<in> set (s_running s).
          rn_token r < length (s_tokens s) \<and> tk_parent (s_tokens s ! rn_token r) = Some 0)"

text \<open>A task runs, and ends other than SKIPPED, only after all its dependencies succeeded; it is
  SKIPPED only when one of them did not.\<close>

definition deps_inv :: "task list \<Rightarrow> sched \<Rightarrow> bool" where
  "deps_inv ts s \<longleftrightarrow>
     (\<forall>(f, r) \<in> set (s_running s). deps_succeeded (s_results s) (rn_task r))
     \<and> (\<forall>t \<in> set ts. \<forall>r. map_of (s_results s) (t_id t) = Some r \<longrightarrow>
          (if r_status r = SKIPPED
           then \<exists>d \<in> set (t_deps t). \<exists>dr. map_of (s_results s) d = Some dr \<and> unsuccessful (r_status dr)
           else deps_succeeded (s_results s) t))"

definition capacity_inv :: "config \<Rightarrow> sched \<Rightarrow> bool" where
  "capacity_inv c s \<longleftrightarrow>
     (\<forall>m. max_concurrency c = Some m \<longrightarrow> int (length (s_running s)) \<le> max 0 m)
     \<and> (\<forall>(f, r) \<in> set (s_running s). deadline_ok c r)"

definition sched_inv :: "task list \<Rightarrow> config \<Rightarrow> sched \<Rightarrow> bool" where
  "sched_inv ts c s \<longleftrightarrow> partition_inv ts {#} s \<and> results_inv s \<and> tokens_inv s \<and> deps_inv ts s
     \<and> capacity_inv c s"

lemmas inv_defs = partition_inv_def results_inv_def tokens_inv_def deps_inv_def capacity_inv_def

section \<open>Facts about the partition\<close>

lemma partition_distinct:
  assumes "partition_inv ts L s" "distinct (map t_id ts)"
  shows "distinct (dkeys (s_pending s))" "distinct (run_ids s)" "distinct (dkeys (s_results s))"
    "set (dkeys (s_pending s)) \<inter> set (run_ids s) = {}"
    "set (dkeys (s_pending s)) \<inter> set (dkeys (s_results s)) = {}"
    "set (run_ids s) \<inter> set (dkeys (s_results s)) = {}"
    "set_mset L \<inter> set (dkeys (s_results s)) = {}"
    "set (dkeys (s_pending s)) \<union> set (run_ids s) \<union> set (dkeys (s_results s)) \<union> set_mset L = t_id ` set ts"
proof -
  let ?P = "dkeys (s_pending s)" and ?R = "run_ids s" and ?D = "dkeys (s_results s)"
  obtain l where l: "L = mset l" by (metis ex_mset)
  have m: "mset (?P @ ?R @ ?D @ l) = mset (map t_id ts)"
    using assms(1) by (simp add: partition_inv_def l add.assoc)
  then have "distinct (?P @ ?R @ ?D @ l)" using assms(2) by (metis mset_eq_imp_distinct_iff)
  then show "distinct ?P" "distinct ?R" "distinct ?D" "set ?P \<inter> set ?R = {}" "set ?P \<inter> set ?D = {}"
    "set ?R \<inter> set ?D = {}" "set_mset L \<inter> set ?D = {}"
    by (auto simp: l)
  show "set ?P \<union> set ?R \<union> set ?D \<union> set_mset L = t_id ` set ts"
    using mset_eq_setD [OF m] by (auto simp: l)
qed

lemma run_ids_member: "map_of (s_running s) f = Some rn \<Longrightarrow> t_id (rn_task rn) \<in> set (run_ids s)"
  by (force simp: run_ids_def dest: map_of_SomeD)

lemma pending_member:
  "map_of (s_pending s) i = Some t \<Longrightarrow> partition_inv ts L s \<Longrightarrow> t \<in> set ts \<and> t_id t = i \<and> i \<in> set (dkeys (s_pending s))"
  by (force simp: partition_inv_def dest: map_of_SomeD)

lemma mset_dkeys_delete:
  "distinct (dkeys d) \<Longrightarrow> k \<in> set (dkeys d) \<Longrightarrow> mset (dkeys d) = add_mset k (mset (dkeys (AList.delete k d)))"
proof (induction d)
  case (Cons p d)
  then show ?case
    by (cases "fst p = k") (auto simp: delete_keys removeAll_filter_not_eq filter_id_conv dkeys_delete)
qed simp

lemma mset_map_delete:
  assumes "distinct (dkeys d)" "map_of d k = Some v"
  shows "mset (map g d) = add_mset (g (k, v)) (mset (map g (AList.delete k d)))"
  using assms
proof (induction d)
  case (Cons p d)
  show ?case
  proof (cases "fst p = k")
    case True
    then have "k \<notin> set (dkeys d)" using Cons.prems by auto
    then have "AList.delete k d = d" by (simp add: AList.delete_id)
    with True Cons.prems show ?thesis by (cases p) auto
  next
    case False
    with Cons show ?thesis by (cases p) auto
  qed
qed simp

lemma mset_run_ids_delete:
  assumes "dict_ok (s_running s)" "map_of (s_running s) f = Some rn"
  shows "mset (run_ids s) =
    add_mset (t_id (rn_task rn)) (mset (run_ids (s\<lparr>s_running := AList.delete f (s_running s)\<rparr>)))"
  using mset_map_delete [of "s_running s" f rn "\<lambda>(f, r). t_id (rn_task r)"] assms
  by (simp add: run_ids_def dict_ok_def)

lemma finish_simps [simp]:
  "s_pending (finish t r s) = s_pending s" "s_running (finish t r s) = s_running s"
  "s_tokens (finish t r s) = s_tokens s" "s_next (finish t r s) = s_next s"
  "s_results (finish t r s) = AList.update (r_task_id r) r (s_results s)"
  "s_events (finish t r s) = s_events s @ [(t_id t, r)]"
  "s_status (finish t r s) = (s_status s)(t_id t := r_status r)"
  "finish t r (s\<lparr>s_running := R\<rparr>) = (finish t r s)\<lparr>s_running := R\<rparr>"
  by (simp_all add: finish_def)

lemma run_ids_simps [simp]:
  "run_ids (s\<lparr>s_pending := P\<rparr>) = run_ids s" "run_ids (s\<lparr>s_tokens := T\<rparr>) = run_ids s"
  "run_ids (s\<lparr>s_status := S\<rparr>) = run_ids s" "run_ids (finish t r s) = run_ids s"
  "run_ids (s\<lparr>s_next := n\<rparr>) = run_ids s"
  "run_ids (s\<lparr>s_running := R\<rparr>) = map (\<lambda>(f, r). t_id (rn_task r)) R"
  by (simp_all add: run_ids_def)

section \<open>The moves keep the invariant\<close>

lemma partition_pend_to_res:
  assumes "partition_inv ts L s" "distinct (map t_id ts)" "map_of (s_pending s) i = Some t"
    "r_task_id r = i"
  shows "partition_inv ts L ((finish t r s)\<lparr>s_pending := AList.delete i (s_pending s)\<rparr>)"
proof -
  note pd = partition_distinct [OF assms(1,2)]
  have i: "i \<in> set (dkeys (s_pending s))" using pending_member [OF assms(3,1)] by simp
  then have "i \<notin> set (dkeys (s_results s))" using pd(5) by blast
  then have res: "AList.update i r (s_results s) = s_results s @ [(i, r)]" by (rule update_fresh)
  have "mset (dkeys (s_pending s)) = add_mset i (mset (dkeys (AList.delete i (s_pending s))))"
    by (rule mset_dkeys_delete [OF pd(1) i])
  with assms(1,4) show ?thesis
    by (auto simp: partition_inv_def res set_delete)
qed

lemma partition_run_to_res:
  assumes "partition_inv ts L s" "distinct (map t_id ts)" "map_of (s_running s) f = Some rn"
    "r_task_id r = t_id (rn_task rn)"
  shows "partition_inv ts L ((finish (rn_task rn) r s)\<lparr>s_running := AList.delete f (s_running s)\<rparr>)"
proof -
  note pd = partition_distinct [OF assms(1,2)]
  have ok: "dict_ok (s_running s)" using assms(1) by (simp add: partition_inv_def)
  have "t_id (rn_task rn) \<notin> set (dkeys (s_results s))"
    using pd(6) run_ids_member [OF assms(3)] by blast
  then have res: "AList.update (t_id (rn_task rn)) r (s_results s) = s_results s @ [(t_id (rn_task rn), r)]"
    by (rule update_fresh)
  show ?thesis
    using assms(1) mset_run_ids_delete [OF ok assms(3)]
    by (auto simp: partition_inv_def res set_delete assms(4))
qed

lemma partition_launch:
  assumes "partition_inv ts L s" "distinct (map t_id ts)" "map_of (s_pending s) i = Some (rn_task rn)"
  shows "partition_inv ts L (s\<lparr>s_running := AList.update (s_next s) rn (s_running s),
           s_next := Suc (s_next s), s_pending := AList.delete i (s_pending s)\<rparr>)"
proof -
  note pd = partition_distinct [OF assms(1,2)]
  note mem = pending_member [OF assms(3,1)]
  have "s_next s \<notin> set (dkeys (s_running s))" using assms(1) by (auto simp: partition_inv_def)
  then have upd: "AList.update (s_next s) rn (s_running s) = s_running s @ [(s_next s, rn)]"
    and ok: "dict_ok (s_running s @ [(s_next s, rn)])"
    using assms(1) by (auto simp: update_fresh partition_inv_def dict_ok_def)
  have "mset (dkeys (s_pending s)) = add_mset i (mset (dkeys (AList.delete i (s_pending s))))"
    by (rule mset_dkeys_delete [OF pd(1)]) (use mem in simp)
  with assms(1) mem ok show ?thesis
    by (auto simp: partition_inv_def upd set_delete run_ids_def less_Suc_eq)
qed

lemma deps_succeeded_mono:
  assumes "deps_succeeded res t" "\<And>d r. map_of res d = Some r \<Longrightarrow> map_of res' d = Some r"
  shows "deps_succeeded res' t"
  using assms by (fastforce simp: deps_succeeded_def list_all_iff split: option.splits)

text \<open>Adding the result of a task that had none keeps every fact about the results there are.\<close>

lemma deps_inv_add:
  assumes inv: "deps_inv ts s" and fresh: "i \<notin> set (dkeys (s_results s))"
    and t: "t \<in> set ts" "t_id t = i" "distinct (map t_id ts)"
    and new: "if r_status r = SKIPPED
       then \<exists>d \<in> set (t_deps t). \<exists>dr. map_of (s_results s) d = Some dr \<and> unsuccessful (r_status dr)
       else deps_succeeded (s_results s) t"
    and s': "s_results s' = AList.update i r (s_results s)" "set (s_running s') \<subseteq> set (s_running s)"
  shows "deps_inv ts s'"
proof -
  let ?res = "s_results s" and ?res' = "AList.update i r (s_results s)"
  have none: "map_of ?res i = None" using fresh by (simp add: dict_get_None_iff)
  then have mono: "\<And>d x. map_of ?res d = Some x \<Longrightarrow> map_of ?res' d = Some x"
    by (auto simp: dict_get_update)
  have old: "if r_status x = SKIPPED
      then \<exists>d \<in> set (t_deps y). \<exists>dr. map_of ?res' d = Some dr \<and> unsuccessful (r_status dr)
      else deps_succeeded ?res' y"
    if "if r_status x = SKIPPED
      then \<exists>d \<in> set (t_deps y). \<exists>dr. map_of ?res d = Some dr \<and> unsuccessful (r_status dr)
      else deps_succeeded ?res y" for x y
    using that mono deps_succeeded_mono [of ?res y ?res'] by (auto split: if_splits)
  have same: "y = t" if "y \<in> set ts" "t_id y = i" for y
    using that t by (auto simp: distinct_map inj_on_def)
  show ?thesis
    unfolding deps_inv_def s'(1)
  proof (intro conjI ballI allI impI)
    fix p assume "p \<in> set (s_running s')"
    then show "case p of (f, rn) \<Rightarrow> deps_succeeded ?res' (rn_task rn)"
      using inv s'(2) deps_succeeded_mono [OF _ mono] by (fastforce simp: deps_inv_def)
  next
    fix y x assume y: "y \<in> set ts" "map_of ?res' (t_id y) = Some x"
    show "if r_status x = SKIPPED
      then \<exists>d \<in> set (t_deps y). \<exists>dr. map_of ?res' d = Some dr \<and> unsuccessful (r_status dr)
      else deps_succeeded ?res' y"
    proof (cases "t_id y = i")
      case True
      with y have "x = r" "y = t" using same by (auto simp: dict_get_update)
      with new show ?thesis by (intro old) simp
    next
      case False
      with y have "map_of ?res (t_id y) = Some x" by (simp add: dict_get_update)
      with y inv show ?thesis by (intro old) (simp add: deps_inv_def)
    qed
  qed
qed

lemma results_inv_add:
  assumes "results_inv s" "i \<notin> set (dkeys (s_results s))" "r_task_id r = i" "terminal (r_status r)"
    and "s_results s' = AList.update i r (s_results s)" "s_events s' = s_events s @ [(i, r)]"
    "s_status s' = (s_status s)(i := r_status r)"
  shows "results_inv s'"
proof -
  have "AList.update i r (s_results s) = s_results s @ [(i, r)]" using assms(2) by (rule update_fresh)
  with assms show ?thesis by (force simp: results_inv_def)
qed

lemma length_delete_le_running: "length (AList.delete f d) \<le> length d"
  by (rule AList.length_delete_le)

lemma move_inv:
  assumes "move c s s'" "sched_inv ts c s" "distinct (map t_id ts)"
  shows "sched_inv ts c s'"
proof -
  have p: "partition_inv ts {#} s" and rs: "results_inv s" and tk: "tokens_inv s"
    and dp: "deps_inv ts s" and cp: "capacity_inv c s"
    using assms(2) by (auto simp: sched_inv_def)
  note pd = partition_distinct [OF p assms(3)]
  have fresh_p: "i \<notin> set (dkeys (s_results s))" "t \<in> set ts" "t_id t = i"
    if "map_of (s_pending s) i = Some t" for i t
    using pending_member [OF that p] pd(5) by auto
  show ?thesis
    using assms(1)
  proof (cases rule: move.cases)
    case (skip i t d dr r)
    note f = fresh_p [OF skip(2)]
    have "partition_inv ts {#} s'"
      unfolding skip(1) by (rule partition_pend_to_res [OF p assms(3) skip(2,6)])
    moreover have "results_inv s'"
      by (rule results_inv_add [OF rs f(1) skip(6)]) (use skip f(3) in \<open>auto simp: terminal_def\<close>)
    moreover have "deps_inv ts s'"
      by (rule deps_inv_add [OF dp f assms(3), of r]) (use skip in auto)
    ultimately show ?thesis
      using tk cp by (auto simp: sched_inv_def skip(1) tokens_inv_def capacity_inv_def)
  next
    case (mark i t)
    have "t_id t \<notin> set (dkeys (s_results s))" using fresh_p [OF mark(2)] by simp
    then have "results_inv s'" using rs by (force simp: results_inv_def mark(1))
    moreover have "tokens_inv s'"
      using tk by (auto simp: tokens_inv_def mark(1) intro!: wf_tokens_new)
        (auto simp: new_token_def nth_append)
    ultimately show ?thesis
      using p dp cp by (auto simp: sched_inv_def mark(1) partition_inv_def deps_inv_def capacity_inv_def)
  next
    case (launch i t rn)
    have fr: "s_next s \<notin> set (dkeys (s_running s))" using p by (auto simp: partition_inv_def)
    have upd: "AList.update (s_next s) rn (s_running s) = s_running s @ [(s_next s, rn)]"
      by (rule update_fresh [OF fr])
    have "partition_inv ts {#} s'"
      unfolding launch(1) by (rule partition_launch [OF p assms(3)]) (use launch in simp)
    moreover have "capacity_inv c s'"
      using launch(5,9) cp by (auto simp: launch(1) upd capacity_inv_def at_capacity_def)
    ultimately show ?thesis
      using launch rs tk dp
      by (auto simp: sched_inv_def launch(1) upd results_inv_def tokens_inv_def deps_inv_def)
  next
    case (saturate i t r)
    note f = fresh_p [OF saturate(2)]
    have "partition_inv ts {#} s'"
      unfolding saturate(1) by (rule partition_pend_to_res [OF p assms(3) saturate(2,4)])
    moreover have "results_inv s'"
      by (rule results_inv_add [OF rs f(1) saturate(4)]) (use saturate f(3) in \<open>auto simp: terminal_def\<close>)
    moreover have "deps_inv ts s'"
      by (rule deps_inv_add [OF dp f assms(3), of r]) (use saturate in auto)
    ultimately show ?thesis
      using tk cp by (auto simp: sched_inv_def saturate(1) tokens_inv_def capacity_inv_def)
  next
    case (complete f rn r)
    have rn: "rn_task rn \<in> set ts" "deps_succeeded (s_results s) (rn_task rn)"
      using complete(2) p dp by (fastforce simp: partition_inv_def deps_inv_def dest: map_of_SomeD)+
    have fr: "t_id (rn_task rn) \<notin> set (dkeys (s_results s))"
      using pd(6) run_ids_member [OF complete(2)] by blast
    have "partition_inv ts {#} s'"
      using partition_run_to_res [OF p assms(3) complete(2,3)] by (simp add: complete(1))
    moreover have "results_inv s'"
      by (rule results_inv_add [OF rs fr complete(3,4)]) (use complete(1,3) in auto)
    moreover have "deps_inv ts s'"
      by (rule deps_inv_add [OF dp fr rn(1) refl assms(3), of r]) (use complete rn in \<open>auto simp: set_delete\<close>)
    moreover have "tokens_inv s'" using tk by (auto simp: tokens_inv_def complete(1) set_delete)
    moreover have "capacity_inv c s'"
      using cp length_delete_le_running [of f "s_running s"]
      by (force simp: capacity_inv_def complete(1) set_delete)
    ultimately show ?thesis by (simp add: sched_inv_def)
  next
    case (cancel k reason)
    have "cancel_token k reason (s_tokens s) \<noteq> []"
      using tk by (metis length_0_conv length_cancel_token tokens_inv_def)
    then have "tokens_inv s'" using tk by (simp add: tokens_inv_def cancel wf_tokens_cancel)
    then show ?thesis
      using p rs dp cp
      by (simp add: sched_inv_def cancel partition_inv_def results_inv_def deps_inv_def capacity_inv_def)
  qed
qed

lemma moves_inv:
  assumes "moves c s s'" "sched_inv ts c s" "distinct (map t_id ts)"
  shows "sched_inv ts c s'"
  using assms(1,2) by (induction rule: rtranclp_induct) (auto intro: move_inv [OF _ _ assms(3)])

end
