(* ===== verification/SchedulerProofs.thy ===== *)
theory SchedulerProofs
  imports SchedulerInv
begin

text \<open>
  Every method of the scheduler is a sequence of moves, so the loop keeps the invariant of
  \<open>SchedulerInv\<close>; what \<open>_abort\<close> adds; how long the loop runs; when it cannot report a deadlock.
\<close>

section \<open>The methods as moves\<close>

text \<open>What the scheduler relies on when it takes a returned \<open>TaskResult\<close> verbatim.\<close>

definition world_ok :: "task list \<Rightarrow> world \<Rightarrow> bool" where
  "world_ok ts w \<longleftrightarrow>
     list_all (\<lambda>t. case w_outcome w (t_id t) of
                     Returned (OutResult r) \<Rightarrow>
                       r_task_id r = t_id t \<and> terminal (r_status r) \<and> r_status r \<noteq> SKIPPED
                   | _ \<Rightarrow> True) ts"

lemma blocking_dep_Some:
  "blocking_dep res ds = Some (d, r) \<Longrightarrow> d \<in> set ds \<and> map_of res d = Some r \<and> unsuccessful (r_status r)"
  by (induction res ds rule: blocking_dep.induct) (auto split: option.splits if_splits)

lemma blocking_dep_None:
  "blocking_dep res ds = None \<Longrightarrow> d \<in> set ds \<Longrightarrow> map_of res d = Some r \<Longrightarrow> \<not> unsuccessful (r_status r)"
  by (induction res ds rule: blocking_dep.induct) (auto split: option.splits if_splits)

lemma terminal_cases: "terminal st \<Longrightarrow> \<not> unsuccessful st \<Longrightarrow> st = SUCCESS"
  by (auto simp: terminal_def unsuccessful_def)

lemma mk_result_simps [simp]:
  "r_task_id (mk_result t st out err d) = t_id t" "r_status (mk_result t st out err d) = st"
  by (simp_all add: mk_result_def)

lemma moves_trans2: "moves c s s1 \<Longrightarrow> moves c s1 s2 \<Longrightarrow> moves c s s2"
  by (rule rtranclp_trans)

lemma sched_inv_partition: "sched_inv ts c s \<Longrightarrow> partition_inv ts {#} s"
  by (simp add: sched_inv_def)

lemma skip_loop_moves:
  assumes "sched_inv ts c s" "distinct (map t_id ts)"
  shows "moves c s (skip_loop is s)"
  using assms(1)
proof (induction "is" s rule: skip_loop.induct)
  case (2 i "is" s)
  show ?case
  proof (cases "map_of (s_pending s) i")
    case None
    with 2 show ?thesis by simp
  next
    case (Some t)
    show ?thesis
    proof (cases "blocking_dep (s_results s) (t_deps t)")
      case None
      with 2 Some show ?thesis by simp
    next
      case (Some p)
      obtain d dr where p: "p = (d, dr)" by fastforce
      let ?r = "mk_result t SKIPPED NoneV
                  (Some (u ''dependency '' @ quoted d @ u '' '' @ status_value (r_status dr))) 0"
      let ?s = "(finish t ?r s)\<lparr>s_pending := AList.delete i (s_pending s)\<rparr>"
      have i: "t_id t = i" using pending_member [OF \<open>map_of (s_pending s) i = Some t\<close>]
        sched_inv_partition [OF 2(4)] by blast
      have m: "move c s ?s"
        using blocking_dep_Some [OF Some [unfolded p]] \<open>map_of (s_pending s) i = Some t\<close> i
        by (intro move.skip) auto
      have "moves c ?s (skip_loop is ?s)"
        by (rule 2(3) [OF \<open>map_of (s_pending s) i = Some t\<close> Some p [symmetric] refl refl, simplified])
          (rule move_inv [OF m 2(4) assms(2)])
      with m show ?thesis
        by (simp add: \<open>map_of (s_pending s) i = Some t\<close> Some p Let_def converse_rtranclp_into_rtranclp)
    qed
  qed
qed simp

lemma new_token_last:
  "new_token p h = (tok, h') \<Longrightarrow> tok < length h' \<and> tk_parent (h' ! tok) = p"
  by (auto simp: new_token_def)

lemma launch_loop_moves:
  assumes "sched_inv ts c s" "distinct (map t_id ts)" "launch_loop c w now is s = (s', eo)"
  shows "moves c s s'"
  using assms(1,3)
proof (induction "is" arbitrary: s)
  case (Cons i "is")
  show ?case
  proof (cases "at_capacity c s \<or> map_of (s_pending s) i = None
      \<or> \<not> deps_succeeded (s_results s) (the (map_of (s_pending s) i))")
    case True
    with Cons show ?thesis by (auto split: if_splits option.splits)
  next
    case False
    then obtain t where t: "map_of (s_pending s) i = Some t" "deps_succeeded (s_results s) t"
      "\<not> at_capacity c s" by auto
    obtain tok toks where nt: "new_token (Some 0) (s_tokens s) = (tok, toks)" by fastforce
    let ?s1 = "s\<lparr>s_tokens := toks, s_status := (s_status s)(t_id t := RUNNING)\<rparr>"
    have m1: "move c s ?s1" using move.mark [OF t(1), of c] nt by simp
    have inv1: "sched_inv ts c ?s1" by (rule move_inv [OF m1 Cons(2) assms(2)])
    have i: "t_id t = i" using pending_member [OF t(1)] sched_inv_partition [OF Cons(2)] by blast
    show ?thesis
    proof (cases "w_submit w i")
      case (Accepted st)
      let ?to = "case t_timeout t of Some x \<Rightarrow> Some x | None \<Rightarrow> default_timeout c"
      let ?rn = "\<lparr>rn_task = t, rn_deadline = task_deadline now ?to (run_dl c), rn_started = st, rn_token = tok\<rparr>"
      let ?s2 = "?s1\<lparr>s_running := AList.update (s_next ?s1) ?rn (s_running ?s1),
                     s_next := Suc (s_next ?s1), s_pending := AList.delete i (s_pending ?s1)\<rparr>"
      have m2: "move c ?s1 ?s2"
        by (rule move.launch [where t = t])
          (use t new_token_last [OF nt] in
            \<open>auto simp: at_capacity_def deadline_ok_def task_deadline_def split: option.splits\<close>)
      have "moves c ?s2 s'"
        by (rule Cons.IH [OF move_inv [OF m2 inv1 assms(2)]])
          (use Cons.prems(2) t nt Accepted in \<open>simp add: Let_def\<close>)
      with m1 m2 show ?thesis by (meson converse_rtranclp_into_rtranclp)
    next
      case (SubmitRaises e)
      show ?thesis
      proof (cases "catches CPoolSaturated e")
        case True
        let ?r = "mk_result t TIMEOUT NoneV (Some (u ''shared pool saturated'')) 0"
        let ?s2 = "(finish t ?r ?s1)\<lparr>s_pending := AList.delete i (s_pending ?s1)\<rparr>"
        have m2: "move c ?s1 ?s2"
          by (rule move.saturate) (use t i in auto)
        have "moves c ?s2 s'"
          by (rule Cons.IH [OF move_inv [OF m2 inv1 assms(2)]])
            (use Cons.prems(2) t nt SubmitRaises True in \<open>simp add: Let_def\<close>)
        with m1 m2 show ?thesis by (meson converse_rtranclp_into_rtranclp)
      next
        case False
        then have "s' = ?s1" using Cons.prems(2) t nt SubmitRaises by (simp add: Let_def)
        with m1 show ?thesis by blast
      qed
    qed
  qed
qed simp

lemma launch_ready_moves:
  assumes "sched_inv ts c s" "distinct (map t_id ts)" "launch_ready c w now s = (s', eo)"
  shows "moves c s s'"
  using assms(3) launch_loop_moves [OF assms(1,2)]
  by (auto simp: launch_ready_def intro: move.cancel split: if_splits)

lemma expire_loop_moves:
  assumes "sched_inv ts c s" "distinct (map t_id ts)" "distinct (dkeys rs)"
    "\<forall>(f, r) \<in> set rs. map_of (s_running s) f = Some r"
  shows "moves c s (expire_loop now rs s)"
  using assms(1,3,4)
proof (induction rs arbitrary: s)
  case (Cons p rs)
  obtain f r where p: "p = (f, r)" by fastforce
  show ?case
  proof (cases "case rn_deadline r of None \<Rightarrow> False | Some d \<Rightarrow> d \<le> now")
    case False
    with Cons p show ?thesis by simp
  next
    case True
    let ?s1 = "s\<lparr>s_tokens := cancel_token (rn_token r) (Some (u ''task deadline exceeded'')) (s_tokens s)\<rparr>"
    let ?r = "mk_result (rn_task r) TIMEOUT NoneV (Some (u ''task deadline exceeded''))
                ((now - rn_started r) * 1000)"
    let ?s2 = "finish (rn_task r) ?r (?s1\<lparr>s_running := AList.delete f (s_running ?s1)\<rparr>)"
    have m1: "move c s ?s1" by (rule move.cancel)
    have m2: "move c ?s1 ?s2"
      by (rule move.complete) (use Cons.prems(3) p in \<open>auto simp: terminal_def\<close>)
    have rest: "moves c ?s2 (expire_loop now rs ?s2)"
      by (rule Cons.IH [OF move_inv [OF m2 move_inv [OF m1 Cons.prems(1) assms(2)] assms(2)]])
        (use Cons.prems p in \<open>force simp: dict_get_delete\<close>)+
    have eq: "expire_loop now (p # rs) s = expire_loop now rs ?s2" using True p by simp
    show ?thesis
      unfolding eq
      by (rule converse_rtranclp_into_rtranclp [OF m1 converse_rtranclp_into_rtranclp [OF m2 rest]])
  qed
qed simp

lemma expire_moves:
  assumes "sched_inv ts c s" "distinct (map t_id ts)"
  shows "moves c s (expire now s)"
  unfolding expire_def
  by (rule expire_loop_moves [OF assms])
    (use assms(1) in \<open>auto simp: sched_inv_def partition_inv_def dict_ok_def\<close>)

text \<open>\<open>_collect\<close> either completes the task or, when it re-raises, forgets it.\<close>

definition loses :: "world \<Rightarrow> exn \<Rightarrow> pystr \<Rightarrow> bool" where
  "loses w e i \<longleftrightarrow> w_outcome w i = Raised e \<and> (catches CBudgetExceeded e \<or> \<not> catches CException e)"

lemma result_from_output_ok:
  assumes "world_ok ts w" "t \<in> set ts" "w_outcome w (t_id t) = Returned out"
  shows "r_task_id (result_from_output t out d) = t_id t"
    "terminal (r_status (result_from_output t out d))"
    "r_status (result_from_output t out d) \<noteq> SKIPPED"
proof -
  have *: "case out of OutResult r \<Rightarrow> r_task_id r = t_id t \<and> terminal (r_status r) \<and> r_status r \<noteq> SKIPPED
       | OutValue v \<Rightarrow> True"
    using assms by (auto simp: world_ok_def list_all_iff split: task_output.splits outcome.splits)
  then show "r_task_id (result_from_output t out d) = t_id t"
    "terminal (r_status (result_from_output t out d))"
    "r_status (result_from_output t out d) \<noteq> SKIPPED"
    by (auto simp: result_from_output_def terminal_def split: task_output.splits option.splits)
qed

lemma collect_cases:
  assumes "sched_inv ts c s" "world_ok ts w" "map_of (s_running s) f = Some rn"
    "collect w f now s = (s', eo)"
  shows "move c s s' \<and> eo = None
    \<or> (\<exists>e. s' = s\<lparr>s_running := AList.delete f (s_running s)\<rparr> \<and> eo = Some e
          \<and> loses w e (t_id (rn_task rn)))"
proof -
  have mem: "rn_task rn \<in> set ts"
    using assms(1,3) by (fastforce simp: sched_inv_def partition_inv_def dest: map_of_SomeD)
  let ?s1 = "s\<lparr>s_running := AList.delete f (s_running s)\<rparr>"
  have fin: "move c s (finish (rn_task rn) r ?s1)"
    if "r_task_id r = t_id (rn_task rn)" "terminal (r_status r)" "r_status r \<noteq> SKIPPED" for r
    using that assms(3) by (intro move.complete)
  show ?thesis
  proof (cases "w_outcome w (t_id (rn_task rn))")
    case (Returned out)
    note ok = result_from_output_ok [OF assms(2) mem Returned]
    have "move c s (finish (rn_task rn)
        (result_from_output (rn_task rn) out ((now - rn_started rn) * 1000)) ?s1)"
      by (rule fin) (rule ok)+
    with assms(3,4) Returned show ?thesis by (auto simp: collect_def Let_def)
  next
    case (Raised e)
    have ok: "move c s ((finish (rn_task rn) (mk_result (rn_task rn) st out err d) s)
        \<lparr>s_running := AList.delete f (s_running s)\<rparr>)"
      if "st = CANCELLED \<or> st = FAILED" for st out err d
      using fin [of "mk_result (rn_task rn) st out err d"] that by (auto simp: terminal_def)
    show ?thesis
    proof (cases "catches CCancelledError e \<or> \<not> catches CBudgetExceeded e \<and> catches CException e")
      case True
      with assms(3,4) Raised show ?thesis
        by (auto simp: collect_def Let_def intro!: ok split: if_splits)
    next
      case False
      with assms(3,4) Raised have "s' = ?s1" "eo = Some e"
        by (auto simp: collect_def Let_def split: if_splits)
      with False Raised show ?thesis by (auto simp: loses_def)
    qed
  qed
qed

text \<open>A state the loop can stop in: every id has its place, but for one that a raising
  \<open>_collect\<close> lost.\<close>

definition stopped :: "config \<Rightarrow> world \<Rightarrow> sched \<Rightarrow> sched \<Rightarrow> exn option \<Rightarrow> bool" where
  "stopped c w s s' eo \<longleftrightarrow>
     (\<exists>s0. moves c s s0 \<and>
        (s' = s0 \<or> (\<exists>f rn e. map_of (s_running s0) f = Some rn
                    \<and> s' = s0\<lparr>s_running := AList.delete f (s_running s0)\<rparr>
                    \<and> eo = Some e \<and> loses w e (t_id (rn_task rn)))))"

lemma stopped_moves: "moves c s s1 \<Longrightarrow> stopped c w s1 s' eo \<Longrightarrow> stopped c w s s' eo"
proof -
  assume m: "moves c s s1" and st: "stopped c w s1 s' eo"
  from st obtain s0 where s0: "moves c s1 s0" and
    "s' = s0 \<or> (\<exists>f rn e. map_of (s_running s0) f = Some rn
        \<and> s' = s0\<lparr>s_running := AList.delete f (s_running s0)\<rparr> \<and> eo = Some e \<and> loses w e (t_id (rn_task rn)))"
    unfolding stopped_def by blast
  with moves_trans2 [OF m s0] show ?thesis unfolding stopped_def by blast
qed

lemma moves_stopped: "moves c s s' \<Longrightarrow> stopped c w s s' eo"
  unfolding stopped_def by blast

lemma collect_loop_cases:
  assumes "sched_inv ts c s" "distinct (map t_id ts)" "world_ok ts w" "distinct (dkeys fs)"
    "set (dkeys fs) \<subseteq> set (dkeys (s_running s))" "collect_loop w fs s = (s', eo)"
  shows "stopped c w s s' eo \<and> (eo = None \<longrightarrow> moves c s s')"
  using assms(1,4,5,6)
proof (induction fs arbitrary: s)
  case (Cons p fs)
  obtain f now where p: "p = (f, now)" by fastforce
  obtain rn where rn: "map_of (s_running s) f = Some rn"
    using Cons.prems(3) p by (cases "map_of (s_running s) f") (auto simp: map_of_eq_None_iff)
  obtain s1 eo1 where c1: "collect w f now s = (s1, eo1)" by fastforce
  have run1: "s_running s1 = AList.delete f (s_running s)"
    using c1 rn by (auto simp: collect_def Let_def split: outcome.splits if_splits)
  from collect_cases [OF Cons.prems(1) assms(3) rn c1] show ?case
  proof
    assume m: "move c s s1 \<and> eo1 = None"
    then have m1: "moves c s s1" by blast
    have "stopped c w s1 s' eo \<and> (eo = None \<longrightarrow> moves c s1 s')"
    proof (rule Cons.IH)
      show "sched_inv ts c s1" using move_inv m Cons.prems(1) assms(2) by blast
      show "distinct (dkeys fs)" using Cons.prems(2) by simp
      show "set (dkeys fs) \<subseteq> set (dkeys (s_running s1))"
        using Cons.prems(2,3) p by (force simp: run1 dkeys_delete)
      show "collect_loop w fs s1 = (s', eo)" using Cons.prems(4) p c1 m by simp
    qed
    with stopped_moves [OF m1] moves_trans2 [OF m1] show ?thesis by blast
  next
    assume "\<exists>e. s1 = s\<lparr>s_running := AList.delete f (s_running s)\<rparr> \<and> eo1 = Some e
          \<and> loses w e (t_id (rn_task rn))"
    then have "eo = eo1 \<and> s' = s1" "eo1 \<noteq> None" using c1 Cons.prems(4) p by auto
    moreover have "stopped c w s s1 eo1"
      using \<open>\<exists>e. _\<close> rn unfolding stopped_def by blast
    ultimately show ?thesis by blast
  qed
qed (simp add: moves_stopped)

lemma wait_done_props:
  "distinct (dkeys (wait_done e s))" "set (dkeys (wait_done e s)) \<subseteq> set (dkeys (s_running s))"
  by (force simp: wait_done_def distinct_map_filter AList.distinct_clearjunk)+

lemma wait_step_cases:
  assumes "sched_inv ts c s" "distinct (map t_id ts)" "world_ok ts w" "wait_step w e s = (s', eo)"
  shows "stopped c w s s' eo" "eo = None \<Longrightarrow> moves c s s'"
proof -
  have "moves c s s' \<and> eo = None \<or> stopped c w s s' eo \<and> eo \<noteq> None"
  proof (cases "wait_done e s = []")
    case True
    with assms(4) expire_moves [OF assms(1,2)] show ?thesis
      by (auto simp: wait_step_def)
  next
    case False
    then have "collect_loop w (wait_done e s) s = (s', eo)"
      using assms(4) by (simp add: wait_step_def)
    from collect_loop_cases [OF assms(1-3) wait_done_props this] show ?thesis by blast
  qed
  then show "stopped c w s s' eo" "eo = None \<Longrightarrow> moves c s s'"
    by (auto intro: moves_stopped)
qed

declare run_loop.simps [simp del]

text \<open>One turn of the loop, as far as its \<open>_wait\<close>.\<close>

lemma skip_launch_moves:
  assumes "sched_inv ts c s" "distinct (map t_id ts)" "launch_ready c w now (skip_blocked s) = (s', eo)"
  shows "moves c s s'"
proof -
  have m: "moves c s (skip_blocked s)" unfolding skip_blocked_def by (rule skip_loop_moves [OF assms(1,2)])
  from launch_ready_moves [OF moves_inv [OF m assms(1,2)] assms(2,3)] m show ?thesis
    by (rule moves_trans2 [rotated])
qed

lemma run_loop_stopped:
  assumes "sched_inv ts c s" "distinct (map t_id ts)" "world_ok ts w" "run_loop c w es s = Some (s', eo)"
  shows "stopped c w s s' eo \<and> (eo = None \<longrightarrow> moves c s s' \<and> s_pending s' = [] \<and> s_running s' = [])"
  using assms(1,3,4)
proof (induction c w es s rule: run_loop.induct)
  case (1 c w es s)
  show ?case
  proof (cases "s_pending s = [] \<and> s_running s = []")
    case True
    with 1(4) show ?thesis by (subst (asm) run_loop.simps) (auto intro: moves_stopped)
  next
    case False
    then obtain e es' where es: "es = e # es'"
      using 1(4) by (subst (asm) run_loop.simps) (auto split: list.splits)
    obtain s1 eo1 where l: "launch_ready c w (e_now e) (skip_blocked s) = (s1, eo1)" by fastforce
    have m1: "moves c s s1" by (rule skip_launch_moves [OF 1(2) assms(2) l])
    show ?thesis
    proof (cases "eo1 = None \<and> s_running s1 \<noteq> []")
      case False
      then show ?thesis
        using 1(4) \<open>\<not> (s_pending s = [] \<and> s_running s = [])\<close> es l m1
        by (subst (asm) run_loop.simps) (auto intro: moves_stopped split: option.splits if_splits)
    next
      case True
      obtain s2 eo2 where w: "wait_step w e s1 = (s2, eo2)" by fastforce
      note ws = wait_step_cases [OF moves_inv [OF m1 1(2) assms(2)] assms(2) _ w]
      show ?thesis
      proof (cases eo2)
        case (Some x)
        have "s' = s2 \<and> eo = Some x"
          using 1(4) False es l True w Some by (subst (asm) run_loop.simps) auto
        with stopped_moves [OF m1 ws(1) [OF 1(3)]] Some show ?thesis by simp
      next
        case None
        have m2: "moves c s s2" using moves_trans2 [OF m1 ws(2)] 1(3) None by blast
        have "run_loop c w es' s2 = Some (s', eo)"
          using 1(4) False es l True w None by (subst (asm) run_loop.simps) auto
        then have "stopped c w s2 s' eo \<and> (eo = None \<longrightarrow> moves c s2 s' \<and> s_pending s' = [] \<and> s_running s' = [])"
          using 1(1) [OF False es l [symmetric]] 1(3) True w None moves_inv [OF m2 1(2) assms(2)]
          by auto
        with m2 stopped_moves [OF m2] moves_trans2 [OF m2] show ?thesis by blast
      qed
    qed
  qed
qed

section \<open>Abort\<close>

text \<open>The weaker invariant that survives a lost task.\<close>

definition store_inv :: "task list \<Rightarrow> pystr multiset \<Rightarrow> sched \<Rightarrow> bool" where
  "store_inv ts L s \<longleftrightarrow> partition_inv ts L s \<and> results_inv s \<and> tokens_inv s \<and> deps_inv ts s"

lemma lose_store_inv:
  assumes "sched_inv ts c s" "map_of (s_running s) f = Some rn"
  shows "store_inv ts {#t_id (rn_task rn)#} (s\<lparr>s_running := AList.delete f (s_running s)\<rparr>)"
proof -
  have ok: "dict_ok (s_running s)" using assms(1) by (simp add: sched_inv_def partition_inv_def)
  show ?thesis
    using assms(1) mset_run_ids_delete [OF ok assms(2)] ok
    by (auto simp: store_inv_def sched_inv_def partition_inv_def results_inv_def tokens_inv_def
        deps_inv_def set_delete)
qed

lemma stopped_store_inv:
  assumes "stopped c w s s' eo" "sched_inv ts c s" "distinct (map t_id ts)"
  shows "\<exists>L. store_inv ts L s' \<and> size L \<le> 1 \<and> (\<forall>i \<in># L. \<exists>e. eo = Some e \<and> loses w e i)"
proof -
  from assms(1) obtain s0 where s0: "moves c s s0" and
    alt: "s' = s0 \<or> (\<exists>f rn e. map_of (s_running s0) f = Some rn
        \<and> s' = s0\<lparr>s_running := AList.delete f (s_running s0)\<rparr> \<and> eo = Some e \<and> loses w e (t_id (rn_task rn)))"
    unfolding stopped_def by blast
  note inv = moves_inv [OF s0 assms(2,3)]
  from alt show ?thesis
  proof
    assume "s' = s0"
    then show ?thesis
      using inv by (intro exI [of _ "{#}"]) (simp add: store_inv_def sched_inv_def)
  next
    assume "\<exists>f rn e. map_of (s_running s0) f = Some rn
        \<and> s' = s0\<lparr>s_running := AList.delete f (s_running s0)\<rparr> \<and> eo = Some e \<and> loses w e (t_id (rn_task rn))"
    then obtain f rn e where *: "map_of (s_running s0) f = Some rn"
      "s' = s0\<lparr>s_running := AList.delete f (s_running s0)\<rparr>" "eo = Some e" "loses w e (t_id (rn_task rn))"
      by blast
    then show ?thesis
      using lose_store_inv [OF inv *(1)] by (intro exI [of _ "{#t_id (rn_task rn)#}"]) simp
  qed
qed

text \<open>\<open>_abort\<close> as one pass over the tasks that have no result.\<close>

definition live_tasks :: "sched \<Rightarrow> task list" where
  "live_tasks s = map (\<lambda>(f, r). rn_task r) (s_running s) @ map snd (s_pending s)"

lemma fold_finish_fields:
  "s_pending (fold (\<lambda>t. finish t (g t)) ts s) = s_pending s"
  "s_running (fold (\<lambda>t. finish t (g t)) ts s) = s_running s"
  "s_tokens (fold (\<lambda>t. finish t (g t)) ts s) = s_tokens s"
  by (induction ts arbitrary: s) auto

lemma abort_alt:
  "abort s = fold (\<lambda>t. finish t (cancel_result t)) (live_tasks s)
     (s\<lparr>s_tokens := cancel_token 0 (Some (u ''run aborted'')) (s_tokens s)\<rparr>)"
  by (simp add: abort_def live_tasks_def Let_def fold_map o_def case_prod_unfold)

lemma cancel_result_simps [simp]:
  "r_task_id (cancel_result t) = t_id t" "r_status (cancel_result t) = CANCELLED"
  by (simp_all add: cancel_result_def)

lemma fold_cancel_results:
  assumes "distinct (map t_id ts)" "t_id ` set ts \<inter> set (dkeys (s_results s)) = {}" "results_inv s"
  defines "s' \<equiv> fold (\<lambda>t. finish t (cancel_result t)) ts s"
  shows "s_results s' = s_results s @ map (\<lambda>t. (t_id t, cancel_result t)) ts \<and> results_inv s'"
  using assms(1-3) unfolding s'_def
proof (induction ts arbitrary: s)
  case (Cons t ts)
  have fr: "t_id t \<notin> set (dkeys (s_results s))" using Cons.prems(2) by auto
  then have upd: "AList.update (t_id t) (cancel_result t) (s_results s)
      = s_results s @ [(t_id t, cancel_result t)]" by (rule update_fresh)
  have "results_inv (finish t (cancel_result t) s)"
    by (rule results_inv_add [OF Cons.prems(3) fr, of "cancel_result t"]) (simp_all add: terminal_def)
  then show ?case
    using Cons.IH [of "finish t (cancel_result t) s"] Cons.prems by (auto simp: upd)
qed simp

lemma abort_results:
  assumes "store_inv ts L s" "distinct (map t_id ts)"
  shows "s_results (abort s) = s_results s @ map (\<lambda>t. (t_id t, cancel_result t)) (live_tasks s)"
    "results_inv (abort s)"
    "mset (dkeys (s_results (abort s))) + L = mset (map t_id ts)"
proof -
  have p: "partition_inv ts L s" and r: "results_inv s" using assms(1) by (auto simp: store_inv_def)
  note pd = partition_distinct [OF p assms(2)]
  have ids: "map t_id (live_tasks s) = run_ids s @ dkeys (s_pending s)"
    using p by (auto simp: live_tasks_def run_ids_def partition_inv_def case_prod_unfold)
  have d: "distinct (map t_id (live_tasks s))" unfolding ids using pd(1,2,4) by auto
  have "t_id ` set (live_tasks s) = set (run_ids s @ dkeys (s_pending s))"
    by (metis ids list.set_map)
  then have dis: "t_id ` set (live_tasks s) \<inter> set (dkeys (s_results s)) = {}" using pd(5,6) by auto
  have r': "results_inv (s\<lparr>s_tokens := T\<rparr>)" for T using r by (simp add: results_inv_def)
  have res: "s_results (abort s) = s_results s @ map (\<lambda>t. (t_id t, cancel_result t)) (live_tasks s)
      \<and> results_inv (abort s)"
    unfolding abort_alt using fold_cancel_results [OF d, of "s\<lparr>s_tokens := _\<rparr>"] dis r' by simp
  then show "s_results (abort s) = s_results s @ map (\<lambda>t. (t_id t, cancel_result t)) (live_tasks s)"
    "results_inv (abort s)" by auto
  have "dkeys (s_results (abort s)) = dkeys (s_results s) @ map t_id (live_tasks s)"
    using res by (simp add: o_def)
  then show "mset (dkeys (s_results (abort s))) + L = mset (map t_id ts)"
    unfolding ids using p by (simp add: partition_inv_def add_ac)
qed

lemma abort_cancels:
  assumes "tokens_inv s" "(f, rn) \<in> set (s_running (abort s))"
  shows "is_cancelled (s_tokens (abort s)) (rn_token rn)"
proof -
  let ?h = "s_tokens s"
  have f: "(f, rn) \<in> set (s_running s)" and t: "s_tokens (abort s) = cancel_token 0 (Some (u ''run aborted'')) ?h"
    using assms(2) by (simp_all add: abort_alt fold_finish_fields)
  have wf: "wf_tokens ?h" "?h \<noteq> []" "rn_token rn < length ?h" "tk_parent (?h ! rn_token rn) = Some 0"
    using assms(1) f by (auto simp: tokens_inv_def)
  then have "0 < rn_token rn" by (auto simp: wf_tokens_def)
  with wf(3,4) have "ancestor ?h (rn_token rn) 0" by (blast intro: ancestor.intros)
  with wf(2) show ?thesis by (simp add: t is_cancelled_cancel_token)
qed

section \<open>The start of a run\<close>

lemma init_pending:
  assumes "distinct (map t_id ts)"
  shows "s_pending (init_sched ts) = map (\<lambda>t. (t_id t, t)) ts"
proof -
  have "fold (\<lambda>t. AList.update (t_id t) t) ts d = d @ map (\<lambda>t. (t_id t, t)) ts"
    if "distinct (map t_id ts)" "t_id ` set ts \<inter> set (dkeys d) = {}" for d
    using that by (induction ts arbitrary: d) (auto simp: update_fresh)
  from this [of "[]"] assms show ?thesis by (simp add: init_sched_def)
qed

lemma init_inv:
  assumes "distinct (map t_id ts)"
  shows "sched_inv ts c (init_sched ts)"
  using init_pending [OF assms]
  by (auto simp: sched_inv_def inv_defs run_ids_def init_sched_def new_token_def wf_tokens_def o_def
      max_def)

end
