(* ===== verification/SchedulerRuns.thy ===== *)
theory SchedulerRuns
  imports SchedulerProofs
begin

text \<open>
  What a run of the scheduler gives: the state \<open>run_valid\<close> leaves, on a normal return and on an
  abort; the number of turns of the loop; the plans for which it never reports a deadlock.
\<close>

section \<open>How a run ends\<close>

lemma final_check_moves: "final_check c now s = (s', eo) \<Longrightarrow> moves c s s' \<and> (eo = None \<longrightarrow> s' = s)"
  by (auto simp: final_check_def intro: move.cancel split: if_splits)

lemma run_valid_return:
  assumes "distinct (map t_id ts)" "world_ok ts w" "run_valid c w es now ts = Some (s, None)"
  shows "sched_inv ts c s" "s_pending s = []" "s_running s = []"
proof -
  obtain s1 eo1 where r: "run_loop c w es (init_sched ts) = Some (s1, eo1)"
    using assms(3) by (auto simp: run_valid_def split: option.splits)
  note st = run_loop_stopped [OF init_inv [OF assms(1)] assms(1,2) r]
  have e: "eo1 = None" using assms(3) r by (auto simp: run_valid_def split: option.splits)
  obtain s2 eo2 where f: "final_check c now s1 = (s2, eo2)" by fastforce
  have "eo2 = None" "s2 = s" using assms(3) r e f by (auto simp: run_valid_def split: option.splits)
  then have "s = s1" using final_check_moves [OF f] by simp
  with st e moves_inv [OF _ init_inv [OF assms(1)] assms(1)]
  show "sched_inv ts c s" "s_pending s = []" "s_running s = []" by auto
qed

text \<open>After a raise: \<open>_abort\<close> ran on a state \<open>s1\<close> with at most one lost id.\<close>

lemma run_valid_raise:
  assumes "distinct (map t_id ts)" "world_ok ts w" "run_valid c w es now ts = Some (s, Some e)"
  shows "\<exists>s1 L. s = abort s1 \<and> store_inv ts L s1 \<and> size L \<le> 1 \<and> (\<forall>i \<in># L. loses w e i)"
proof -
  obtain s1 eo1 where r: "run_loop c w es (init_sched ts) = Some (s1, eo1)"
    using assms(3) by (auto simp: run_valid_def split: option.splits)
  note st = run_loop_stopped [OF init_inv [OF assms(1)] assms(1,2) r]
  obtain s2 eo2 where f: "final_check c now s1 = (s2, eo2)" by fastforce
  have "\<exists>s3. s = abort s3 \<and> stopped c w (init_sched ts) s3 (Some e)"
  proof (cases eo1)
    case None
    then have "s = abort s2" "eo2 = Some e"
      using assms(3) r f by (auto simp: run_valid_def split: option.splits)
    moreover have "moves c (init_sched ts) s2"
      using moves_trans2 [of c "init_sched ts" s1 s2] st None final_check_moves [OF f] by blast
    ultimately show ?thesis by (blast intro: moves_stopped)
  next
    case (Some x)
    with assms(3) r st show ?thesis by (auto simp: run_valid_def)
  qed
  then obtain s3 where s3: "s = abort s3" "stopped c w (init_sched ts) s3 (Some e)" by blast
  from stopped_store_inv [OF s3(2) init_inv [OF assms(1)] assms(1)] s3(1) show ?thesis
    by auto
qed

lemma execute_valid:
  assumes "set_iteration enum" "plan_valid ts"
  shows "execute enum c w es now ts prev =
     (case run_valid c w es now ts of
        None \<Rightarrow> None
      | Some (s, Some e) \<Rightarrow> Some (Inl e, s_results s)
      | Some (s, None) \<Rightarrow> Some (Inr (s_results s), s_results s))"
proof -
  have "validate_plan enum (map (\<lambda>t. (t_id t, t)) ts) ts None None = Inr ()"
    using assms(2)
    by (subst validate_plan_Inr [OF assms(1)]) (auto simp: plan_valid_def refs_valid_def o_def)
  then show ?thesis by (simp add: execute_def)
qed

lemma plan_valid_distinct: "plan_valid ts \<Longrightarrow> distinct (map t_id ts)"
  by (simp add: plan_valid_def)

lemma results_inv_get:
  "results_inv s \<Longrightarrow> map_of (s_results s) i = Some r \<Longrightarrow> r_task_id r = i \<and> terminal (r_status r)"
  by (fastforce simp: results_inv_def dest: map_of_SomeD)

section \<open>How long the loop runs\<close>

definition live :: "sched \<Rightarrow> nat" where
  "live s = length (s_pending s) + length (s_running s)"

lemma length_delete_less: "k \<in> set (dkeys d) \<Longrightarrow> length (AList.delete k d) < length d"
proof (induction d)
  case (Cons p d)
  have "length (AList.delete k d) \<le> length d" by (rule AList.length_delete_le)
  with Cons show ?case by (cases "fst p = k") auto
qed simp

lemma length_update_le: "length (AList.update k v d) \<le> Suc (length d)"
  by (simp add: length_update)

lemma map_of_key: "map_of d k = Some v \<Longrightarrow> k \<in> set (dkeys d)"
  by (force dest: map_of_SomeD)

lemma live_move:
  assumes "move c s s'"
  shows "live s' \<le> live s"
  using assms
proof (cases rule: move.cases)
  case (launch i t rn)
  show ?thesis
    using length_delete_less [OF map_of_key [OF launch(2)]]
      length_update_le [of "s_next s" rn "s_running s"]
    by (simp add: live_def launch(1))
qed (use AList.length_delete_le in \<open>auto simp: live_def\<close>)

lemma live_moves: "moves c s s' \<Longrightarrow> live s' \<le> live s"
  by (induction rule: rtranclp_induct) (auto dest: live_move)

lemma expire_loop_live:
  assumes "sched_inv ts c s" "distinct (map t_id ts)" "distinct (dkeys rs)"
    "\<forall>(f, r) \<in> set rs. map_of (s_running s) f = Some r"
    "(f, r) \<in> set rs" "rn_deadline r = Some d" "d \<le> now"
  shows "live (expire_loop now rs s) < live s"
  using assms
proof (induction rs arbitrary: s)
  case (Cons p rs)
  obtain f' r' where p: "p = (f', r')" by fastforce
  show ?case
  proof (cases "case rn_deadline r' of None \<Rightarrow> False | Some d \<Rightarrow> d \<le> now")
    case False
    then show ?thesis using Cons p by auto
  next
    case True
    let ?s1 = "s\<lparr>s_tokens := cancel_token (rn_token r') (Some (u ''task deadline exceeded'')) (s_tokens s)\<rparr>"
    let ?r = "mk_result (rn_task r') TIMEOUT NoneV (Some (u ''task deadline exceeded''))
                ((now - rn_started r') * 1000)"
    let ?s2 = "finish (rn_task r') ?r (?s1\<lparr>s_running := AList.delete f' (s_running ?s1)\<rparr>)"
    have m1: "move c s ?s1" by (rule move.cancel)
    have m2: "move c ?s1 ?s2"
      by (rule move.complete) (use Cons.prems(4) p in \<open>auto simp: terminal_def\<close>)
    have inv2: "sched_inv ts c ?s2"
      by (rule move_inv [OF m2 move_inv [OF m1 Cons.prems(1) assms(2)] assms(2)])
    have "moves c ?s2 (expire_loop now rs ?s2)"
      by (rule expire_loop_moves [OF inv2 assms(2)])
        (use Cons.prems p in \<open>force simp: dict_get_delete\<close>)+
    then have "live (expire_loop now rs ?s2) \<le> live ?s2" by (rule live_moves)
    moreover have "live ?s2 < live s"
      using length_delete_less [OF map_of_key, of "s_running s" f' r'] Cons.prems(4) p
      by (simp add: live_def)
    moreover have "expire_loop now (p # rs) s = expire_loop now rs ?s2" using True p by simp
    ultimately show ?thesis by simp
  qed
qed simp

text \<open>What \<open>wait(running, timeout)\<close> gives: a finished future, or the time-out has passed.\<close>

definition fair_wait :: "config \<Rightarrow> env_step \<Rightarrow> sched \<Rightarrow> bool" where
  "fair_wait c e s \<longleftrightarrow>
     wait_done e s \<noteq> []
     \<or> list_ex (\<lambda>(f, r). case rn_deadline r of None \<Rightarrow> False | Some d \<Rightarrow> d \<le> e_expire e) (s_running s)
     \<or> (case run_dl c of None \<Rightarrow> False | Some d \<Rightarrow> d \<le> e_expire e)"

lemma expire_live:
  assumes "sched_inv ts c s" "distinct (map t_id ts)" "wait_done e s = []" "fair_wait c e s"
    "s_running s \<noteq> []"
  shows "live (expire (e_expire e) s) < live s"
proof -
  have "\<exists>f r d. (f, r) \<in> set (s_running s) \<and> rn_deadline r = Some d \<and> d \<le> e_expire e"
  proof (cases "list_ex (\<lambda>(f, r). case rn_deadline r of None \<Rightarrow> False | Some d \<Rightarrow> d \<le> e_expire e) (s_running s)")
    case True
    then show ?thesis by (fastforce simp: list_ex_iff split: option.splits)
  next
    case False
    then obtain d where d: "run_dl c = Some d" "d \<le> e_expire e"
      using assms(3,4) by (auto simp: fair_wait_def split: option.splits)
    obtain f r where fr: "(f, r) \<in> set (s_running s)" using assms(5) by (cases "s_running s") auto
    then have "deadline_ok c r" using assms(1) by (auto simp: sched_inv_def capacity_inv_def)
    then show ?thesis using fr d by (fastforce simp: deadline_ok_def split: option.splits)
  qed
  then obtain f r d where *: "(f, r) \<in> set (s_running s)" "rn_deadline r = Some d" "d \<le> e_expire e"
    by blast
  show ?thesis
    unfolding expire_def
    by (rule expire_loop_live [OF assms(1,2) _ _ *])
      (use assms(1) in \<open>auto simp: sched_inv_def partition_inv_def dict_ok_def\<close>)
qed

lemma wait_step_live:
  assumes "sched_inv ts c s" "distinct (map t_id ts)" "world_ok ts w" "s_running s \<noteq> []"
    "fair_wait c e s" "wait_step w e s = (s', None)"
  shows "live s' < live s"
proof (cases "wait_done e s")
  case Nil
  then show ?thesis using expire_live [OF assms(1,2) _ assms(5,4)] assms(6) by (simp add: wait_step_def)
next
  case (Cons p fs)
  obtain f now where p: "p = (f, now)" by fastforce
  have keys: "f \<in> set (dkeys (s_running s))" "set (dkeys fs) \<subseteq> set (dkeys (s_running s))"
    "distinct (f # dkeys fs)"
    using wait_done_props [of e s] by (auto simp: Cons p)
  then obtain rn where rn: "map_of (s_running s) f = Some rn"
    by (cases "map_of (s_running s) f") (auto simp: map_of_eq_None_iff)
  obtain s1 eo1 where c1: "collect w f now s = (s1, eo1)" by fastforce
  have eo1: "eo1 = None" and rest: "collect_loop w fs s1 = (s', None)"
    using assms(6) Cons p c1 by (auto simp: wait_step_def Let_def split: option.splits)
  then have m: "move c s s1" using collect_cases [OF assms(1,3) rn c1] by auto
  have run1: "s_running s1 = AList.delete f (s_running s)" "s_pending s1 = s_pending s"
    using c1 rn eo1 by (auto simp: collect_def Let_def split: outcome.splits if_splits)
  have sub: "set (dkeys fs) \<subseteq> set (dkeys (s_running s1))"
    using keys by (force simp: run1 dkeys_delete)
  have d: "distinct (dkeys fs)" using keys by simp
  have "moves c s1 s'"
    using collect_loop_cases [OF move_inv [OF m assms(1,2)] assms(2,3) d sub rest] by blast
  then have "live s' \<le> live s1" by (rule live_moves)
  also have "live s1 < live s" using length_delete_less [OF keys(1)] by (simp add: live_def run1)
  finally show ?thesis .
qed

text \<open>A script of fair waits along the run it drives.\<close>

fun fair_run :: "config \<Rightarrow> world \<Rightarrow> env_step list \<Rightarrow> sched \<Rightarrow> bool" where
  "fair_run c w [] s = True"
| "fair_run c w (e # es) s =
     (let s1 = fst (launch_ready c w (e_now e) (skip_blocked s))
      in fair_wait c e s1 \<and> fair_run c w es (fst (wait_step w e s1)))"

lemma run_loop_returns:
  assumes "sched_inv ts c s" "distinct (map t_id ts)" "world_ok ts w" "fair_run c w es s"
    "live s \<le> length es"
  shows "\<exists>s' eo. run_loop c w es s = Some (s', eo)"
  using assms(1,4,5)
proof (induction es arbitrary: s)
  case Nil
  then show ?case by (subst run_loop.simps) (simp add: live_def)
next
  case (Cons e es)
  obtain s1 eo1 where l: "launch_ready c w (e_now e) (skip_blocked s) = (s1, eo1)" by fastforce
  obtain s2 eo2 where w: "wait_step w e s1 = (s2, eo2)" by fastforce
  have m1: "moves c s s1" by (rule skip_launch_moves [OF Cons.prems(1) assms(2) l])
  note inv1 = moves_inv [OF m1 Cons.prems(1) assms(2)]
  show ?case
  proof (cases "eo1 = None \<and> s_running s1 \<noteq> [] \<and> eo2 = None")
    case False
    then show ?thesis
      using l w by (subst run_loop.simps) (auto split: option.splits)
  next
    case True
    have "live s2 < live s1"
      by (rule wait_step_live [OF inv1 assms(2,3)]) (use True w Cons.prems(2) l in \<open>auto simp: Let_def\<close>)
    then have "live s2 \<le> length es" using live_moves [OF m1] Cons.prems(3) by simp
    moreover have "sched_inv ts c s2"
      using wait_step_cases(2) [OF inv1 assms(2,3) w] True moves_inv [OF _ inv1 assms(2)] by blast
    moreover have "fair_run c w es s2" using Cons.prems(2) l w by (simp add: Let_def)
    ultimately have "\<exists>s' eo. run_loop c w es s2 = Some (s', eo)" by (intro Cons.IH)
    then show ?thesis using l w True by (subst run_loop.simps) auto
  qed
qed

end
