(* ===== verification/SchedulerOrder.thy ===== *)
theory SchedulerOrder
  imports SchedulerRuns
begin

text \<open>
  When the scheduler cannot report a deadlock: \<open>_skip_blocked\<close> is a single pass in plan order, so a
  plan that lists every task after its dependencies always makes progress.
\<close>

section \<open>The skip pass\<close>

lemma skip_loop_append: "skip_loop (xs @ ys) s = skip_loop ys (skip_loop xs s)"
  by (induction xs s rule: skip_loop.induct) (auto simp: Let_def split: option.splits)

definition keyed :: "sched \<Rightarrow> bool" where
  "keyed s \<longleftrightarrow> (\<forall>i t. map_of (s_pending s) i = Some t \<longrightarrow> t_id t = i)"

lemma keyed_delete: "keyed s \<Longrightarrow> s_pending s' = AList.delete i (s_pending s) \<Longrightarrow> keyed s'"
  by (auto simp: keyed_def dict_get_delete)

lemma skip_loop_fields:
  assumes "keyed s"
  shows "keyed (skip_loop is s)" "s_running (skip_loop is s) = s_running s"
    "map_of (s_pending (skip_loop is s)) i = Some t \<Longrightarrow> map_of (s_pending s) i = Some t"
    "d \<notin> set is \<Longrightarrow> map_of (s_results (skip_loop is s)) d = map_of (s_results s) d"
proof -
  let ?P = "\<lambda>s s'. keyed s' \<and> s_running s' = s_running s
    \<and> (\<forall>i t. map_of (s_pending s') i = Some t \<longrightarrow> map_of (s_pending s) i = Some t)
    \<and> (\<forall>d. d \<notin> set is \<longrightarrow> map_of (s_results s') d = map_of (s_results s) d)"
  have "?P s (skip_loop is s)"
    using assms
  proof (induction "is" s rule: skip_loop.induct)
    case (2 i "is" s)
    show ?case
    proof (cases "map_of (s_pending s) i")
      case None
      with 2(1) [OF None 2(4)] show ?thesis by simp
    next
      case (Some t)
      note t = Some
      show ?thesis
      proof (cases "blocking_dep (s_results s) (t_deps t)")
        case None
        with 2(2) [OF t None 2(4)] t show ?thesis by simp
      next
        case (Some p)
        obtain d dr where p: "p = (d, dr)" by fastforce
        let ?r = "mk_result t SKIPPED NoneV
                    (Some (u ''dependency '' @ quoted d @ u '' '' @ status_value (r_status dr))) 0"
        let ?s = "(finish t ?r s)\<lparr>s_pending := AList.delete i (s_pending (finish t ?r s))\<rparr>"
        have eq: "skip_loop (i # is) s = skip_loop is ?s" using t Some p by (simp add: Let_def)
        have k: "keyed ?s" by (rule keyed_delete [OF 2(4)]) simp
        have i: "t_id t = i" using 2(4) t by (simp add: keyed_def)
        have pend: "map_of (s_pending ?s) j = Some x \<Longrightarrow> map_of (s_pending s) j = Some x" for j x
          by (simp add: dict_get_delete split: if_splits)
        have res: "j \<noteq> i \<Longrightarrow> map_of (s_results ?s) j = map_of (s_results s) j" for j
          by (simp add: dict_get_update i)
        have run: "s_running ?s = s_running s" by simp
        show ?thesis
          unfolding eq using 2(3) [OF t Some p [symmetric] refl refl k] pend res run by auto
      qed
    qed
  qed simp
  then show "keyed (skip_loop is s)" "s_running (skip_loop is s) = s_running s"
    "map_of (s_pending (skip_loop is s)) i = Some t \<Longrightarrow> map_of (s_pending s) i = Some t"
    "d \<notin> set is \<Longrightarrow> map_of (s_results (skip_loop is s)) d = map_of (s_results s) d"
    by auto
qed

lemma blocking_dep_cong:
  "(\<And>d. d \<in> set ds \<Longrightarrow> map_of res d = map_of res' d) \<Longrightarrow> blocking_dep res ds = blocking_dep res' ds"
  by (induction ds) (auto split: option.splits)

text \<open>A task that comes after its dependencies in the pass is not left pending by a failed one.\<close>

lemma skip_loop_unblocked:
  assumes "keyed s" "map_of (s_pending (skip_loop (xs @ i # ys) s)) i = Some t"
    "set (t_deps t) \<inter> set ys = {}"
  shows "blocking_dep (s_results (skip_loop (xs @ i # ys) s)) (t_deps t) = None"
proof (rule ccontr)
  let ?sx = "skip_loop xs s"
  have kx: "keyed ?sx" by (rule skip_loop_fields(1) [OF assms(1)])
  have eq: "skip_loop (xs @ i # ys) s = skip_loop (i # ys) ?sx" by (rule skip_loop_append)
  have t: "map_of (s_pending ?sx) i = Some t"
    using skip_loop_fields(3) [OF kx] assms(2) unfolding eq by blast
  assume "blocking_dep (s_results (skip_loop (xs @ i # ys) s)) (t_deps t) \<noteq> None"
  show False
  proof (cases "blocking_dep (s_results ?sx) (t_deps t)")
    case None
    then have "skip_loop (i # ys) ?sx = skip_loop ys ?sx" using t by simp
    moreover have "blocking_dep (s_results (skip_loop ys ?sx)) (t_deps t)
        = blocking_dep (s_results ?sx) (t_deps t)"
      by (rule blocking_dep_cong) (use skip_loop_fields(4) [OF kx] assms(3) in blast)
    ultimately show False
      using None \<open>blocking_dep _ _ \<noteq> None\<close> unfolding eq by simp
  next
    case (Some p)
    obtain d dr where p: "p = (d, dr)" by fastforce
    let ?r = "mk_result t SKIPPED NoneV
                (Some (u ''dependency '' @ quoted d @ u '' '' @ status_value (r_status dr))) 0"
    let ?s = "(finish t ?r ?sx)\<lparr>s_pending := AList.delete i (s_pending (finish t ?r ?sx))\<rparr>"
    have "skip_loop (i # ys) ?sx = skip_loop ys ?s" using t Some p by (simp add: Let_def)
    then have "map_of (s_pending (skip_loop ys ?s)) i = Some t" using assms(2) unfolding eq by simp
    then have "map_of (s_pending ?s) i = Some t"
      using skip_loop_fields(3) [OF keyed_delete [OF kx, of ?s i]] by simp
    then show False by (simp add: dict_get_delete)
  qed
qed

section \<open>Progress\<close>

lemma moves_pending_subseq:
  assumes "moves c s s'"
  shows "subseq (dkeys (s_pending s')) (dkeys (s_pending s))"
  using assms
proof (induction rule: rtranclp_induct)
  case (step s1 s2)
  have del: "subseq (dkeys (AList.delete i d)) (dkeys d)" for i :: pystr and d :: "(pystr \<times> task) list"
    unfolding dkeys_delete by (rule subseq_filter_left)
  have "subseq (dkeys (s_pending s2)) (dkeys (s_pending s1))"
    using step(2) by (cases rule: move.cases) (auto intro: del)
  then show ?case using step(3) by (rule subseq_order.order_trans)
qed simp

lemma launch_loop_running:
  "launch_loop c w now is s = (s', eo) \<Longrightarrow> s_running s \<noteq> [] \<Longrightarrow> s_running s' \<noteq> []"
proof (induction "is" arbitrary: s)
  case (Cons i "is")
  have ne: "AList.update k v d \<noteq> []" for k :: nat and v :: running and d by (cases d) auto
  from Cons.prems show ?case
    by (auto simp: Let_def ne split: if_splits option.splits prod.splits submit_outcome.splits
        dest: Cons.IH)
qed simp

text \<open>Every task of the plan comes after the tasks it depends on.\<close>

definition listed_in_order :: "task list \<Rightarrow> bool" where
  "listed_in_order ts \<longleftrightarrow> topo_sorted (\<lambda>i. set (deps_of (task_deps ts) i)) (map t_id ts)"

definition positive_capacity :: "config \<Rightarrow> bool" where
  "positive_capacity c \<longleftrightarrow> (case max_concurrency c of None \<Rightarrow> True | Some m \<Rightarrow> 0 < m)"

definition accepts_all :: "world \<Rightarrow> bool" where
  "accepts_all w \<longleftrightarrow> (\<forall>i. \<exists>x. w_submit w i = Accepted x)"

lemma listed_in_order_subseq:
  assumes "listed_in_order ts" "distinct (map t_id ts)" "subseq (xs @ i # ys) (map t_id ts)"
    "t \<in> set ts" "t_id t = i"
  shows "set (t_deps t) \<inter> set (i # ys) = {}"
proof -
  from list_emb_appendD [OF assms(3)] obtain zs us where
    z: "map t_id ts = zs @ us" "subseq xs zs" "subseq (i # ys) us"
    by auto
  from list_emb_ConsD [OF z(3)] obtain vs ws where v: "us = vs @ i # ws" "subseq ys ws"
    by auto
  have "set (deps_of (task_deps ts) i) \<subseteq> set (zs @ vs)"
    using assms(1) [unfolded listed_in_order_def topo_sorted_def, rule_format, of "zs @ vs" i ws]
    by (simp add: z(1) v(1))
  then have "set (t_deps t) \<subseteq> set (zs @ vs)" using deps_of_task_deps [OF assms(2,4)] assms(5) by simp
  moreover have "distinct ((zs @ vs) @ i # ws)" using assms(2) by (simp add: z(1) v(1))
  moreover have "set ys \<subseteq> set ws" using list_emb_set [OF v(2)] by auto
  ultimately show ?thesis by auto
qed

lemma launch_first:
  assumes "launch_loop c w now (i # is) s = (s', None)" "map_of (s_pending s) i = Some t"
    "deps_succeeded (s_results s) t" "s_running s = []" "positive_capacity c" "accepts_all w"
  shows "s_running s' \<noteq> []"
proof -
  obtain st where st: "w_submit w i = Accepted st" using assms(6) unfolding accepts_all_def by blast
  have cap: "\<not> at_capacity c s"
    using assms(4,5) by (auto simp: at_capacity_def positive_capacity_def split: option.splits)
  obtain tok toks where nt: "new_token (Some 0) (s_tokens s) = (tok, toks)" by fastforce
  show ?thesis
    using assms(1-3) st cap nt by (auto simp: Let_def assms(4) dest: launch_loop_running)
qed

lemma turn_progress:
  assumes "sched_inv ts c s" "plan_valid ts" "listed_in_order ts" "accepts_all w"
    "positive_capacity c" "subseq (dkeys (s_pending s)) (map t_id ts)"
    "launch_ready c w now (skip_blocked s) = (s1, None)" "s_running s1 = []"
  shows "s_pending s1 = []"
proof -
  let ?sk = "skip_blocked s"
  have dist: "distinct (map t_id ts)" using assms(2) by (rule plan_valid_distinct)
  have inv: "sched_inv ts c ?sk"
    unfolding skip_blocked_def by (rule moves_inv [OF skip_loop_moves [OF assms(1) dist] assms(1) dist])
  have keyed: "keyed s"
    using pending_member [OF _ sched_inv_partition [OF assms(1)]] by (auto simp: keyed_def)
  have sub: "subseq (dkeys (s_pending ?sk)) (map t_id ts)"
    unfolding skip_blocked_def
    by (rule subseq_order.order_trans [OF moves_pending_subseq [OF skip_loop_moves [OF assms(1) dist]] assms(6)])
  have l: "launch_loop c w now (dkeys (s_pending ?sk)) ?sk = (s1, None)"
    using assms(7) by (auto simp: launch_ready_def split: if_splits)
  have run: "s_running ?sk = []" using launch_loop_running [OF l] assms(8) by blast
  show ?thesis
  proof (cases "s_pending ?sk")
    case Nil
    with l show ?thesis by simp
  next
    case (Cons p rest)
    obtain i t where p: "p = (i, t)" by fastforce
    have ti: "map_of (s_pending ?sk) i = Some t" by (simp add: Cons p)
    then have "map_of (s_pending s) i = Some t"
      unfolding skip_blocked_def by (rule skip_loop_fields(3) [OF keyed])
    note tm = pending_member [OF this sched_inv_partition [OF assms(1)]]
    obtain xs ys where xy: "dkeys (s_pending s) = xs @ i # ys" using tm split_list by metis
    have "set (t_deps t) \<inter> set ys = {}"
      using listed_in_order_subseq [OF assms(3) dist assms(6) [unfolded xy], of t] tm by auto
    then have unblocked: "blocking_dep (s_results ?sk) (t_deps t) = None"
      using skip_loop_unblocked [OF keyed, of xs i ys t] ti unfolding skip_blocked_def xy by blast
    have "deps_succeeded (s_results ?sk) t"
      unfolding deps_succeeded_def list_all_iff
    proof
      fix d assume d: "d \<in> set (t_deps t)"
      have "d \<notin> set (dkeys (s_pending ?sk))"
        using listed_in_order_subseq [OF assms(3) dist, of "[]" i "dkeys rest" t] sub tm d
        by (auto simp: Cons p)
      moreover have "d \<in> t_id ` set ts" using assms(2) tm d by (auto simp: plan_valid_def)
      ultimately have "d \<in> set (dkeys (s_results ?sk))"
        using partition_distinct(8) [OF sched_inv_partition [OF inv] dist] run by (auto simp: run_ids_def)
      then obtain r where r: "map_of (s_results ?sk) d = Some r"
        by (cases "map_of (s_results ?sk) d") (auto simp: map_of_eq_None_iff)
      have "r_status r = SUCCESS"
        using blocking_dep_None [OF unblocked d r] results_inv_get [OF _ r] inv
        by (auto simp: sched_inv_def intro: terminal_cases)
      with r show "case map_of (s_results ?sk) d of None \<Rightarrow> False | Some r \<Rightarrow> r_status r = SUCCESS" by simp
    qed
    from launch_first [OF _ ti this run assms(5,4), of now "dkeys rest" s1] l assms(8)
    show ?thesis by (simp add: Cons p)
  qed
qed

text \<open>With every submit accepted, the only exceptions are the run deadline and a re-raised one.\<close>

lemma launch_loop_accepts:
  "launch_loop c w now is s = (s', Some e) \<Longrightarrow> accepts_all w \<Longrightarrow> False"
proof (induction "is" arbitrary: s)
  case (Cons i "is")
  obtain st where "w_submit w i = Accepted st" using Cons.prems(2) unfolding accepts_all_def by blast
  with Cons.prems show ?case
    by (auto simp: Let_def split: if_splits option.splits prod.splits intro: Cons.IH)
qed simp

lemma loses_not_task_error: "loses w e i \<Longrightarrow> \<not> catches CTaskError e"
  by (cases e) (auto simp: loses_def catches_def subclass_iffs)

lemma collect_loop_raise:
  "collect_loop w fs s = (s', Some e) \<Longrightarrow> distinct (dkeys fs)
   \<Longrightarrow> set (dkeys fs) \<subseteq> set (dkeys (s_running s)) \<Longrightarrow> \<exists>i. loses w e i"
proof (induction fs arbitrary: s)
  case (Cons p fs)
  obtain f now where p: "p = (f, now)" by fastforce
  obtain rn where rn: "map_of (s_running s) f = Some rn"
    using Cons.prems(3) p by (cases "map_of (s_running s) f") (auto simp: map_of_eq_None_iff)
  obtain s1 eo1 where c1: "collect w f now s = (s1, eo1)" by fastforce
  show ?case
  proof (cases eo1)
    case None
    have "s_running s1 = AList.delete f (s_running s)"
      using c1 rn None by (auto simp: collect_def Let_def split: outcome.splits if_splits)
    then have "set (dkeys fs) \<subseteq> set (dkeys (s_running s1))"
      using Cons.prems(2,3) p by (force simp: dkeys_delete)
    with Cons c1 p None show ?thesis by auto
  next
    case (Some x)
    then have "loses w x (t_id (rn_task rn))"
      using c1 rn by (auto simp: collect_def Let_def loses_def split: outcome.splits if_splits)
    with Cons.prems(1) p c1 Some show ?thesis by auto
  qed
qed simp

lemma wait_step_raise: "wait_step w e s = (s', Some x) \<Longrightarrow> \<exists>i. loses w x i"
  using collect_loop_raise [OF _ wait_done_props] by (auto simp: wait_step_def Let_def split: if_splits)

lemma run_loop_no_deadlock:
  assumes "sched_inv ts c s" "plan_valid ts" "listed_in_order ts" "accepts_all w"
    "positive_capacity c" "world_ok ts w" "subseq (dkeys (s_pending s)) (map t_id ts)"
    "run_loop c w es s = Some (s', Some x)"
  shows "x = run_timeout_exn \<or> (\<exists>i. loses w x i)"
  using assms(1,7,8)
proof (induction es arbitrary: s)
  case Nil
  then show ?case by (subst (asm) run_loop.simps) (auto split: if_splits)
next
  case (Cons e es)
  have dist: "distinct (map t_id ts)" using assms(2) by (rule plan_valid_distinct)
  have ne: "\<not> (s_pending s = [] \<and> s_running s = [])"
    using Cons.prems(3) by (subst (asm) run_loop.simps) auto
  obtain s1 eo1 where l: "launch_ready c w (e_now e) (skip_blocked s) = (s1, eo1)" by fastforce
  obtain s2 eo2 where w: "wait_step w e s1 = (s2, eo2)" by fastforce
  have m1: "moves c s s1" by (rule skip_launch_moves [OF Cons.prems(1) dist l])
  note inv1 = moves_inv [OF m1 Cons.prems(1) dist]
  show ?case
  proof (cases eo1)
    case (Some y)
    then have "y = run_timeout_exn"
      using l by (auto simp: launch_ready_def dest: launch_loop_accepts [OF _ assms(4)] split: if_splits)
    then show ?thesis using Cons.prems(3) ne l Some by (subst (asm) run_loop.simps) auto
  next
    case None
    have prog: "s_running s1 = [] \<Longrightarrow> s_pending s1 = []"
      by (rule turn_progress [OF Cons.prems(1) assms(2-5) Cons.prems(2)]) (use l None in auto)
    then have run: "s_running s1 \<noteq> []"
      using Cons.prems(3) ne l None by (subst (asm) run_loop.simps) (auto split: if_splits)
    show ?thesis
    proof (cases eo2)
      case (Some y)
      then show ?thesis
        using wait_step_raise [of w e s1 s2 y] w Cons.prems(3) ne l None run
        by (subst (asm) run_loop.simps) auto
    next
      case None
      have m2: "moves c s1 s2" by (rule wait_step_cases(2) [OF inv1 dist assms(6) w None])
      have "subseq (dkeys (s_pending s2)) (map t_id ts)"
        by (rule subseq_order.order_trans [OF moves_pending_subseq [OF moves_trans2 [OF m1 m2]] Cons.prems(2)])
      moreover have "run_loop c w es s2 = Some (s', Some x)"
        using Cons.prems(3) ne l \<open>eo1 = None\<close> run w None by (subst (asm) run_loop.simps) auto
      ultimately show ?thesis using Cons.IH moves_inv [OF m2 inv1 dist] by blast
    qed
  qed
qed

end
