(* ===== verification/SchedulerProps.thy ===== *)
theory SchedulerProps
  imports SchedulerOrder
begin

text \<open>
  The properties of a scheduler run, with example plans at which their hypotheses hold: a chain of
  two tasks, a plan that aborts, and a plan listed against its dependencies.
\<close>

section \<open>Examples\<close>

definition chain :: "task list" where
  "chain = [mk_task (u ''a'') (u ''A'') None [] [], mk_task (u ''b'') (u ''B'') None [u ''a''] []]"

definition backward :: "task list" where
  "backward =
     [mk_task (u ''c'') (u ''C'') None [u ''b''] [], mk_task (u ''b'') (u ''B'') None [u ''a''] [],
      mk_task (u ''a'') (u ''A'') None [] []]"

definition echo_world :: world where
  "echo_world = \<lparr>w_outcome = (\<lambda>i. Returned (OutValue (StrV i))), w_submit = (\<lambda>i. Accepted 0)\<rparr>"

definition failing_world :: "exn \<Rightarrow> world" where
  "failing_world e = \<lparr>w_outcome = (\<lambda>i. Raised e), w_submit = (\<lambda>i. Accepted 0)\<rparr>"

definition unlimited :: config where
  "unlimited = \<lparr>max_concurrency = Some 1, default_timeout = None, run_dl = None\<rparr>"

definition turn :: "nat \<Rightarrow> env_step" where
  "turn f = \<lparr>e_now = 0, e_done = [(f, 1)], e_expire = 0\<rparr>"

lemmas example_defs = chain_def backward_def echo_world_def failing_world_def unlimited_def turn_def

lemma plan_valid_run: "(case task_plan remdups ts of Inl e \<Rightarrow> False | Inr d \<Rightarrow> True) \<Longrightarrow> plan_valid ts"
  using task_plan_Inr [OF set_iteration_remdups, of ts] by (auto split: sum.splits)

lemma chain_ok: "plan_valid chain"
  by (rule plan_valid_run) code_simp

lemma backward_ok: "plan_valid backward"
  by (rule plan_valid_run) code_simp

lemma echo_world_ok: "world_ok ts echo_world"
  by (simp add: world_ok_def echo_world_def list_all_iff)

lemma failing_world_ok: "world_ok ts (failing_world e)"
  by (simp add: world_ok_def failing_world_def list_all_iff)

lemma chain_order: "listed_in_order chain"
  by (auto simp: listed_in_order_def topo_sorted_def chain_def mk_task_def task_deps_def deps_of_def
      Cons_eq_append_conv)

definition chain_end :: sched where
  "chain_end = fst (the (run_valid unlimited echo_world [turn 0, turn 1] 0 chain))"

lemma chain_run: "run_valid unlimited echo_world [turn 0, turn 1] 0 chain = Some (chain_end, None)"
proof -
  have "case run_valid unlimited echo_world [turn 0, turn 1] 0 chain of
      None \<Rightarrow> False | Some (s, eo) \<Rightarrow> eo = None" by code_simp
  then show ?thesis by (auto simp: chain_end_def split: option.splits)
qed


lemma chain_fair: "fair_run unlimited echo_world [turn 0, turn 1] (init_sched chain)"
  by code_simp

section \<open>Safety of a run\<close>

text \<open>
  C1. A run that returns has a result for every task of the plan, exactly one, each terminal and
  filed under its own id; the status of every task object is that of its result, and \<open>on_event\<close>
  was called once for each result, in the order of the results; nothing is left pending or running.
\<close>

theorem run_completes:
  assumes "plan_valid ts" "world_ok ts w" "run_valid c w es now ts = Some (s, None)"
  shows "mset (dkeys (s_results s)) = mset (map t_id ts)
    \<and> list_all (\<lambda>(i, r). r_task_id r = i \<and> terminal (r_status r) \<and> s_status s i = r_status r) (s_results s)
    \<and> s_events s = s_results s \<and> s_pending s = [] \<and> s_running s = []"
  using run_valid_return [OF plan_valid_distinct [OF assms(1)] assms(2,3)]
  by (auto simp: sched_inv_def partition_inv_def results_inv_def run_ids_def list_all_iff)

theorem run_completes_witness:
  "mset (dkeys (s_results chain_end)) = mset [u ''a'', u ''b''] \<and> s_pending chain_end = []"
  using run_completes [OF chain_ok echo_world_ok chain_run] by (simp add: chain_def mk_task_def)

lemma run_valid_deps:
  assumes "distinct (map t_id ts)" "world_ok ts w" "run_valid c w es now ts = Some (s, eo)"
    "t \<in> set ts" "map_of (s_results s) (t_id t) = Some r" "r_status r \<noteq> CANCELLED"
  shows "if r_status r = SKIPPED
    then \<exists>d \<in> set (t_deps t). \<exists>dr. map_of (s_results s) d = Some dr \<and> unsuccessful (r_status dr)
    else deps_succeeded (s_results s) t"
proof (cases eo)
  case None
  then show ?thesis
    using run_valid_return(1) [OF assms(1,2)] assms(3-5) by (simp add: sched_inv_def deps_inv_def)
next
  case (Some e)
  then obtain s1 L where s1: "s = abort s1" "store_inv ts L s1"
    using run_valid_raise [OF assms(1,2)] assms(3) by blast
  note res = abort_results(1) [OF s1(2) assms(1), folded s1(1)]
  have mono: "map_of (s_results s1) d = Some x \<Longrightarrow> map_of (s_results s) d = Some x" for d x
    by (simp add: res map_add_def)
  have old: "map_of (s_results s1) (t_id t) = Some r"
  proof (cases "map_of (s_results s1) (t_id t)")
    case None
    then have "map_of (map (\<lambda>t. (t_id t, cancel_result t)) (live_tasks s1)) (t_id t) = Some r"
      using assms(5) by (simp add: res map_add_def)
    then have "r_status r = CANCELLED" by (auto dest!: map_of_SomeD)
    with assms(6) show ?thesis by simp
  next
    case (Some x)
    with mono [OF Some] assms(5) show ?thesis by simp
  qed
  have "deps_inv ts s1" using s1(2) by (simp add: store_inv_def)
  then have "if r_status r = SKIPPED
    then \<exists>d \<in> set (t_deps t). \<exists>dr. map_of (s_results s1) d = Some dr \<and> unsuccessful (r_status dr)
    else deps_succeeded (s_results s1) t"
    using assms(4) old by (simp add: deps_inv_def)
  then show ?thesis using mono deps_succeeded_mono [OF _ mono] by (auto split: if_splits)
qed

text \<open>
  C5. Dependencies are respected, however the run ends: a task that succeeded, failed or timed out
  was started only after every task it depends on had succeeded, and a task is SKIPPED only when one
  of its dependencies was unsuccessful.
\<close>

theorem run_respects_dependencies:
  assumes "plan_valid ts" "world_ok ts w" "run_valid c w es now ts = Some (s, eo)"
    "t \<in> set ts" "map_of (s_results s) (t_id t) = Some r"
  shows "(r_status r \<in> {SUCCESS, FAILED, TIMEOUT} \<longrightarrow> deps_succeeded (s_results s) t)
    \<and> (r_status r = SKIPPED \<longrightarrow>
         (\<exists>d \<in> set (t_deps t). \<exists>dr. map_of (s_results s) d = Some dr \<and> unsuccessful (r_status dr)))"
  using run_valid_deps [OF plan_valid_distinct [OF assms(1)] assms(2-5)] by (auto split: if_splits)

theorem run_respects_dependencies_witness: "deps_succeeded (s_results chain_end) (chain ! 1)"
proof -
  have "case map_of (s_results chain_end) (u ''b'') of None \<Rightarrow> False | Some r \<Rightarrow> r_status r = SUCCESS"
    unfolding chain_end_def by code_simp
  then obtain r where r: "map_of (s_results chain_end) (t_id (chain ! 1)) = Some r" "r_status r = SUCCESS"
    by (auto simp: chain_def mk_task_def split: option.splits)
  have "chain ! 1 \<in> set chain" by (simp add: chain_def)
  from run_respects_dependencies [OF chain_ok echo_world_ok chain_run this r(1)] r(2) show ?thesis
    by simp
qed

text \<open>
  C12. When a run raises, \<open>_abort\<close> gives every task that has no result a CANCELLED one: the results
  cover the plan, all terminal, but for at most one task, whose call raised \<open>BudgetExceeded\<close> or an
  exception that is not an \<open>Exception\<close>. The cancellation of every task still running is requested.
\<close>

theorem abort_completes:
  assumes "plan_valid ts" "world_ok ts w" "run_valid c w es now ts = Some (s, Some e)"
  shows "\<exists>L. mset (dkeys (s_results s)) + L = mset (map t_id ts) \<and> size L \<le> 1
      \<and> (\<forall>i \<in># L. loses w e i)
      \<and> list_all (\<lambda>(i, r). r_task_id r = i \<and> terminal (r_status r)) (s_results s)
      \<and> list_all (\<lambda>(f, rn). is_cancelled (s_tokens s) (rn_token rn)) (s_running s)"
proof -
  have d: "distinct (map t_id ts)" using assms(1) by (rule plan_valid_distinct)
  from run_valid_raise [OF d assms(2,3)] obtain s1 L where
    s1: "s = abort s1" "store_inv ts L s1" "size L \<le> 1" "\<forall>i \<in># L. loses w e i" by blast
  have tk: "tokens_inv s1" using s1(2) by (simp add: store_inv_def)
  show ?thesis
    using abort_results(2,3) [OF s1(2) d] s1(3,4) abort_cancels [OF tk]
    by (intro exI [of _ L]) (auto simp: s1(1) results_inv_def list_all_iff)
qed

definition broke_run :: "sched \<times> exn option" where
  "broke_run = the (run_valid unlimited (failing_world (Exn CBudgetExceeded (u ''spent''))) [turn 0] 0 chain)"

lemma broke_run:
  "run_valid unlimited (failing_world (Exn CBudgetExceeded (u ''spent''))) [turn 0] 0 chain
     = Some (fst broke_run, Some (Exn CBudgetExceeded (u ''spent'')))"
proof -
  have "case run_valid unlimited (failing_world (Exn CBudgetExceeded (u ''spent''))) [turn 0] 0 chain of
      None \<Rightarrow> False | Some (s, eo) \<Rightarrow> eo = Some (Exn CBudgetExceeded (u ''spent''))" by code_simp
  then show ?thesis by (auto simp: broke_run_def split: option.splits)
qed

theorem abort_completes_witness:
  "\<exists>L. mset (dkeys (s_results (fst broke_run))) + L = mset [u ''a'', u ''b''] \<and> size L \<le> 1"
  using abort_completes [OF chain_ok failing_world_ok broke_run] by (auto simp: chain_def mk_task_def)

text \<open>
  The result of a task whose call raised \<open>BudgetExceeded\<close> is missing, although the results of a
  run are documented to hold one for every task: in a chain of two tasks whose first call exhausts
  the budget, the second is CANCELLED and the first has no result.
\<close>

theorem budget_exceeded_loses_task:
  "map (\<lambda>(i, r). (i, r_status r)) (s_results (fst broke_run)) = [(u ''b'', CANCELLED)]"
  unfolding broke_run_def by code_simp

section \<open>Termination and progress\<close>

text \<open>
  C11. The loop ends: when each call of \<open>wait\<close> returns with a finished future or after its
  time-out, a plan of \<open>n\<close> tasks is through after at most \<open>n\<close> turns, with its results or a raise.
\<close>

theorem run_terminates:
  assumes "plan_valid ts" "world_ok ts w" "fair_run c w es (init_sched ts)" "length ts \<le> length es"
  shows "\<exists>s eo. run_valid c w es now ts = Some (s, eo)"
proof -
  have d: "distinct (map t_id ts)" using assms(1) by (rule plan_valid_distinct)
  have "live (init_sched ts) \<le> length es"
    using assms(4) by (simp add: live_def init_pending [OF d]) (simp add: init_sched_def)
  from run_loop_returns [OF init_inv [OF d] d assms(2,3) this] obtain s1 eo1 where
    r: "run_loop c w es (init_sched ts) = Some (s1, eo1)" by blast
  obtain s2 eo2 where "final_check c now s1 = (s2, eo2)" by fastforce
  with r show ?thesis by (cases eo1; cases eo2) (auto simp: run_valid_def)
qed

theorem run_terminates_witness:
  "\<exists>s eo. run_valid unlimited echo_world [turn 0, turn 1] 5 chain = Some (s, eo)"
  by (rule run_terminates [OF chain_ok echo_world_ok chain_fair]) (simp add: chain_def)



text \<open>
  Listed against its dependencies a valid plan can deadlock: with \<open>c\<close> depending on \<open>b\<close> depending
  on \<open>a\<close>, and \<open>a\<close> failing, the single skip pass visits \<open>c\<close> before \<open>b\<close> is skipped, nothing is
  running, and the run raises \<open>TaskError\<close> and cancels \<open>c\<close> instead of skipping it.
\<close>

theorem skip_pass_deadlock:
  "map_option (\<lambda>(s, eo). (map (\<lambda>(i, r). (i, r_status r)) (s_results s), eo))
     (run_valid unlimited (failing_world (Exn CRuntimeError (u ''no''))) [turn 0, turn 1] 0 backward)
   = Some ([(u ''a'', FAILED), (u ''b'', SKIPPED), (u ''c'', CANCELLED)], Some deadlock_exn)"
  by code_simp

section \<open>Bounds\<close>

text \<open>The states a run goes through: any number of skip, launch and wait passes from the start.\<close>

inductive loop_state :: "config \<Rightarrow> world \<Rightarrow> task list \<Rightarrow> sched \<Rightarrow> bool" for c w ts where
  start: "loop_state c w ts (init_sched ts)"
| skip: "loop_state c w ts s \<Longrightarrow> loop_state c w ts (skip_blocked s)"
| launch: "loop_state c w ts s \<Longrightarrow> launch_ready c w now s = (s', eo) \<Longrightarrow> loop_state c w ts s'"
| await: "loop_state c w ts s \<Longrightarrow> wait_step w e s = (s', None) \<Longrightarrow> loop_state c w ts s'"

lemma loop_state_inv:
  assumes "loop_state c w ts s" "distinct (map t_id ts)" "world_ok ts w"
  shows "sched_inv ts c s"
  using assms(1)
proof (induction rule: loop_state.induct)
  case start
  show ?case by (rule init_inv [OF assms(2)])
next
  case (skip s)
  show ?case
    unfolding skip_blocked_def
    by (rule moves_inv [OF skip_loop_moves [OF skip(2) assms(2)] skip(2) assms(2)])
next
  case (launch s now s' eo)
  show ?case
    by (rule moves_inv [OF launch_ready_moves [OF launch(3) assms(2) launch(2)] launch(3) assms(2)])
next
  case (await s e s')
  show ?case
    by (rule moves_inv [OF wait_step_cases(2) [OF await(3) assms(2,3) await(2) refl] await(3) assms(2)])
qed

text \<open>
  Bounds, in every state of every run: never more than \<open>max_concurrency\<close> tasks run, no task runs
  twice or is both running and finished, each running task has its own deadline no later than the
  run deadline, and each has a cancellation token whose parent is the run token.
\<close>

theorem running_bounds:
  assumes "plan_valid ts" "world_ok ts w" "loop_state c w ts s"
  shows "(\<forall>m. max_concurrency c = Some m \<longrightarrow> int (length (s_running s)) \<le> max 0 m)
    \<and> distinct (run_ids s) \<and> set (run_ids s) \<inter> set (dkeys (s_results s)) = {}
    \<and> list_all (\<lambda>(f, rn). deadline_ok c rn \<and> tk_parent (s_tokens s ! rn_token rn) = Some 0) (s_running s)"
proof -
  have d: "distinct (map t_id ts)" using assms(1) by (rule plan_valid_distinct)
  have inv: "sched_inv ts c s" by (rule loop_state_inv [OF assms(3) d assms(2)])
  then show ?thesis
    using partition_distinct(2,6) [OF sched_inv_partition [OF inv] d]
    by (auto simp: sched_inv_def capacity_inv_def tokens_inv_def list_all_iff)
qed

theorem running_bounds_witness:
  "length (s_running (fst (launch_ready unlimited echo_world 0 (init_sched chain)))) \<le> 1"
proof -
  have st: "loop_state unlimited echo_world chain (fst (launch_ready unlimited echo_world 0 (init_sched chain)))"
    by (rule loop_state.launch [OF loop_state.start surjective_pairing])
  have "max_concurrency unlimited = Some 1" by (simp add: unlimited_def)
  with running_bounds [OF chain_ok echo_world_ok st] show ?thesis by fastforce
qed



end
