(* ===== verification/Supervision.thy ===== *)
theory Supervision
  imports Actions SchedulerProps
begin

text \<open>
  The work phase of the supervisor strategy (\<open>run_supervisor\<close> of \<open>strategies.py\<close>): the plan executed on
  the scheduler of \<open>runtime/scheduler.py\<close>, each task being one call of its agent on a thread of the pool.
  \<open>work_loop\<close> runs the scheduler's turns with the calls in between, so that the outcome of a task is
  what its agent answered in the state the run had reached. \<open>work_loop_refines\<close> shows that such a run
  is a run of the scheduler, which brings the theorems on the scheduler to the strategy.
\<close>

section \<open>The calls of the tasks\<close>

text \<open>One call per task, in the order of the plan; a task without a registered agent answers at once.\<close>

definition not_registered :: "pystr option \<Rightarrow> pyval" where
  "not_registered a = error_dict (u ''agent '' @ quoted (opt_text a) @ u '' not registered'')"

definition task_job :: "'w rt \<Rightarrow> task \<Rightarrow> job" where
  "task_job s t =
     \<lparr>jb_name = opt_text (t_agent t), jb_context = [],
      jb_state =
        (case t_agent t of
           None \<Rightarrow> Done (Inr (not_registered None))
         | Some a \<Rightarrow>
             if a = [] \<or> get_agent a (rt_coord s) = None then Done (Inr (not_registered (Some a))) else Queued)\<rparr>"

fun event_no :: "job_event \<Rightarrow> nat" where
  "event_no (Begin i) = i"
| "event_no (End i) = i"

definition task_text :: "task list \<Rightarrow> job_event \<Rightarrow> pystr" where
  "task_text ts ev = (if event_no ev < length ts then t_desc (ts ! event_no ev) else [])"

text \<open>A call begins only while its task runs.\<close>

definition may_happen :: "task list \<Rightarrow> sched \<Rightarrow> job_event \<Rightarrow> bool" where
  "may_happen ts sc ev =
     (case ev of
        End i \<Rightarrow> True
      | Begin i \<Rightarrow> i < length ts \<and> list_ex (\<lambda>(f, r). t_id (rn_task r) = t_id (ts ! i)) (s_running sc))"

definition work_event ::
    "'w ext \<Rightarrow> task list \<Rightarrow> nat option \<Rightarrow> nat option \<Rightarrow> job_event \<Rightarrow> job list \<times> 'w rt \<Rightarrow> job list \<times> 'w rt" where
  "work_event x ts tr br ev = job_step x (StrV (task_text ts ev)) tr br ev"

definition work_events ::
    "'w ext \<Rightarrow> task list \<Rightarrow> nat option \<Rightarrow> nat option \<Rightarrow> sched \<Rightarrow> job_event list
     \<Rightarrow> job list \<times> 'w rt \<Rightarrow> job list \<times> 'w rt" where
  "work_events x ts tr br sc evs = fold (work_event x ts tr br) (filter (may_happen ts sc) evs)"

text \<open>The outcome of a task whose call has ended.\<close>

definition job_outcome :: "task list \<Rightarrow> job list \<Rightarrow> pystr \<Rightarrow> outcome option" where
  "job_outcome ts jobs i =
     (case map_of (zip (map t_id ts) jobs) i of
        None \<Rightarrow> None
      | Some j \<Rightarrow>
          (case jb_state j of
             Done (Inr v) \<Rightarrow> Some (Returned (OutValue v))
           | Done (Inl e) \<Rightarrow> Some (Raised e)
           | _ \<Rightarrow> None))"

definition work_world :: "(pystr \<Rightarrow> submit_outcome) \<Rightarrow> task list \<Rightarrow> job list \<Rightarrow> world" where
  "work_world submit ts jobs =
     \<lparr>w_outcome = (\<lambda>i. case job_outcome ts jobs i of None \<Rightarrow> Returned (OutValue NoneV) | Some r \<Rightarrow> r),
      w_submit = submit\<rparr>"

text \<open>Of the futures \<open>wait\<close> may report, those whose call has ended.\<close>

definition ended_only :: "task list \<Rightarrow> job list \<Rightarrow> sched \<Rightarrow> env_step \<Rightarrow> env_step" where
  "ended_only ts jobs sc e =
     e\<lparr>e_done := filter (\<lambda>(f, now). case map_of (s_running sc) f of
                            None \<Rightarrow> False
                          | Some r \<Rightarrow> job_outcome ts jobs (t_id (rn_task r)) \<noteq> None) (e_done e)\<rparr>"

section \<open>The loop\<close>

type_synonym 'w work_state = "(sched \<times> exn option) \<times> job list \<times> 'w rt"

fun work_loop ::
    "config \<Rightarrow> 'w ext \<Rightarrow> task list \<Rightarrow> nat option \<Rightarrow> nat option \<Rightarrow> (pystr \<Rightarrow> submit_outcome)
     \<Rightarrow> (env_step \<times> job_event list) list \<Rightarrow> job list \<Rightarrow> sched \<Rightarrow> 'w rt \<Rightarrow> 'w work_state option" where
  "work_loop c x ts tr br submit turns jobs sc s =
     (if s_pending sc = [] \<and> s_running sc = [] then Some ((sc, None), jobs, s)
      else
        (case turns of
           [] \<Rightarrow> None
         | (e, evs) # rest \<Rightarrow>
             (case launch_ready c (work_world submit ts jobs) (e_now e) (skip_blocked sc) of
                (sc1, Some ex) \<Rightarrow> Some ((sc1, Some ex), jobs, s)
              | (sc1, None) \<Rightarrow>
                  if s_running sc1 = []
                  then Some ((sc1, if s_pending sc1 \<noteq> [] then Some deadlock_exn else None), jobs, s)
                  else
                    (case work_events x ts tr br sc1 evs (jobs, s) of
                       (jobs1, s1) \<Rightarrow>
                         (case wait_step (work_world submit ts jobs1) (ended_only ts jobs1 sc1 e) sc1 of
                            (sc2, Some ex) \<Rightarrow> Some ((sc2, Some ex), jobs1, s1)
                          | (sc2, None) \<Rightarrow> work_loop c x ts tr br submit rest jobs1 sc2 s1)))))"

declare work_loop.simps [simp del]

text \<open>\<open>on_event\<close>: one task of the trace per result reported.\<close>

definition trace_event :: "task list \<Rightarrow> pystr \<times> task_result \<Rightarrow> trace \<Rightarrow> trace" where
  "trace_event ts p t =
     (case p of (i, r) \<Rightarrow>
        add_task
          \<lparr>tt_name = i, tt_kind = u ''task'',
           tt_status = (if r_status r = SUCCESS then u ''ok'' else u ''error''),
           tt_agent = (case map_of (map (\<lambda>t. (t_id t, t)) ts) i of
                         None \<Rightarrow> NoneV
                       | Some k \<Rightarrow> (case t_agent k of None \<Rightarrow> NoneV | Some a \<Rightarrow> StrV a))\<rparr> t)"

definition trace_events :: "task list \<Rightarrow> nat option \<Rightarrow> (pystr \<times> task_result) list \<Rightarrow> 'w rt \<Rightarrow> 'w rt" where
  "trace_events ts tr evs s = fold (\<lambda>p. on_trace tr (trace_event ts p)) evs s"

text \<open>The end of \<open>_run\<close>: the final check, and what an exception leaves behind.\<close>

definition end_run :: "config \<Rightarrow> real \<Rightarrow> sched \<times> exn option \<Rightarrow> sched \<times> exn option" where
  "end_run c final_now p =
     (case p of
        (sc, Some e) \<Rightarrow> (abort sc, Some e)
      | (sc, None) \<Rightarrow>
          (case final_check c final_now sc of
             (sc1, Some e) \<Rightarrow> (abort sc1, Some e)
           | (sc1, None) \<Rightarrow> (sc1, None)))"

lemma run_valid_end_run:
  "run_valid c w es final_now ts = map_option (end_run c final_now) (run_loop c w es (init_sched ts))"
  by (auto simp: run_valid_def end_run_def split: option.splits prod.splits)

text \<open>\<open>scheduler.execute(task_plan, on_event=on_event)\<close> with \<open>run_task\<close>.\<close>

definition execute_plan :: "'w host \<Rightarrow> real option \<Rightarrow> task list \<Rightarrow> (results, 'w) act" where
  "execute_plan h timeout ts = (\<lambda>s.
     case validate_plan (ho_enum h) (map (\<lambda>t. (t_id t, t)) ts) ts None None of
       Inl e \<Rightarrow> Some (Inl e, s)
     | Inr _ \<Rightarrow>
         (let tr = current_trace (rt_trace_var s);
              br = current_budget (rt_budget_var s);
              c = \<lparr>max_concurrency = None, default_timeout = timeout, run_dl = run_deadline (rt_deadline_var s)\<rparr>;
              (ws, w1) = ho_work h ts (rt_world s)
          in case work_loop c (ho_x h) ts tr br (ws_submit ws) (ws_turns ws) (map (task_job s) ts)
                    (init_sched ts) (s\<lparr>rt_world := w1\<rparr>) of
               None \<Rightarrow> None
             | Some (p, jobs, s1) \<Rightarrow>
                 (case end_run c (ws_final ws) p of
                    (sc, Some e) \<Rightarrow> Some (Inl e, trace_events ts tr (s_events sc) s1)
                  | (sc, None) \<Rightarrow> Some (Inr (s_results sc), trace_events ts tr (s_events sc) s1))))"

section \<open>Lemmas\<close>

text \<open>An outcome stays what it is.\<close>

definition persists :: "job list \<Rightarrow> job list \<Rightarrow> bool" where
  "persists jobs jobs' \<longleftrightarrow>
     list_all2 (\<lambda>j j'. \<forall>out. jb_state j = Done out \<longrightarrow> jb_state j' = Done out) jobs jobs'"

lemma persists_refl [simp]: "persists jobs jobs"
  by (simp add: persists_def list_all2_refl)

lemma persists_trans: "persists a b \<Longrightarrow> persists b c \<Longrightarrow> persists a c"
  unfolding persists_def by (rule list_all2_trans) auto

lemma persists_outcome:
  assumes "persists jobs jobs'" "job_outcome ts jobs i = Some r"
  shows "job_outcome ts jobs' i = Some r"
proof -
  have "list_all2 (\<lambda>j j'. \<forall>out. jb_state j = Done out \<longrightarrow> jb_state j' = Done out) jobs jobs' \<Longrightarrow>
      map_of (zip ks jobs) i = Some j \<Longrightarrow> jb_state j = Done out \<Longrightarrow>
      \<exists>j'. map_of (zip ks jobs') i = Some j' \<and> jb_state j' = Done out" for j out and ks :: "pystr list"
  proof (induction jobs jobs' arbitrary: ks rule: list_all2_induct)
    case (Cons a b as bs)
    then show ?case by (cases ks) (auto split: if_splits)
  qed simp
  with assms show ?thesis
    unfolding persists_def job_outcome_def by (force split: option.splits job_state.splits sum.splits)
qed

lemma work_events_keep:
  assumes "work_events x ts tr br sc evs (jobs, s) = (jobs', s')"
  shows "persists jobs jobs'" "frame s s'"
    "budgets_ok br (running_jobs jobs) s \<Longrightarrow> budgets_ok br (running_jobs jobs') s'"
proof -
  have "fold (work_event x ts tr br) es (jobs, s) = (jobs', s') \<Longrightarrow>
      persists jobs jobs' \<and> frame s s'
      \<and> (budgets_ok br (running_jobs jobs) s \<longrightarrow> budgets_ok br (running_jobs jobs') s')" for es
  proof (induction es arbitrary: jobs s)
    case (Cons ev es)
    obtain jobs1 s1 where j: "work_event x ts tr br ev (jobs, s) = (jobs1, s1)" by fastforce
    with Cons.prems have f: "fold (work_event x ts tr br) es (jobs1, s1) = (jobs', s')" by simp
    note k = job_step_keeps [OF j [unfolded work_event_def]]
    have "persists jobs jobs1" using k(4) by (simp add: persists_def)
    with Cons.IH [OF f] k(2,3) show ?case by (auto intro: frame_trans persists_trans)
  qed simp
  from this [OF assms [unfolded work_events_def]]
  show "persists jobs jobs'" "frame s s'"
    "budgets_ok br (running_jobs jobs) s \<Longrightarrow> budgets_ok br (running_jobs jobs') s'" by blast+
qed

text \<open>\<open>launch_ready\<close> asks the world only for the submissions, \<open>wait_step\<close> only for the outcomes of the
  futures reported.\<close>

lemma launch_loop_world:
  assumes "w_submit w = w_submit w'"
  shows "launch_loop c w now is s = launch_loop c w' now is s"
proof (induction "is" arbitrary: s)
  case (Cons i "is")
  show ?case unfolding launch_loop.simps Cons.IH assms by (rule refl)
qed simp

lemma launch_ready_world: "w_submit w = w_submit w' \<Longrightarrow> launch_ready c w now s = launch_ready c w' now s"
  unfolding launch_ready_def by (simp add: launch_loop_world [of w w'])

lemma collect_running:
  "collect w f now s = (s', x) \<Longrightarrow> map_of (s_running s') g = Some r \<Longrightarrow> map_of (s_running s) g = Some r"
  by (auto simp: collect_def finish_def Let_def delete_conv restrict_map_def
      split: option.splits outcome.splits if_splits)

lemma collect_world:
  assumes "\<And>r. map_of (s_running s) f = Some r \<Longrightarrow> w_outcome w (t_id (rn_task r)) = w_outcome w' (t_id (rn_task r))"
  shows "collect w f now s = collect w' f now s"
  using assms by (cases "map_of (s_running s) f") (simp_all add: collect_def)

lemma collect_loop_world:
  assumes "\<And>f now r. (f, now) \<in> set dn \<Longrightarrow> map_of (s_running s) f = Some r \<Longrightarrow>
      w_outcome w (t_id (rn_task r)) = w_outcome w' (t_id (rn_task r))"
  shows "collect_loop w dn s = collect_loop w' dn s"
  using assms
proof (induction dn arbitrary: s)
  case (Cons p dn)
  obtain f now where p: "p = (f, now)" by fastforce
  have same: "collect w f now s = collect w' f now s"
    by (rule collect_world) (use Cons.prems p in auto)
  obtain s1 x where c: "collect w' f now s = (s1, x)" by fastforce
  have "collect_loop w dn s1 = collect_loop w' dn s1"
  proof (rule Cons.IH)
    fix f1 now1 r
    assume "(f1, now1) \<in> set dn" "map_of (s_running s1) f1 = Some r"
    with Cons.prems [of f1 now1 r] collect_running [OF c, of f1 r]
    show "w_outcome w (t_id (rn_task r)) = w_outcome w' (t_id (rn_task r))" by simp
  qed
  with same c p show ?case by (cases x) simp_all
qed simp

lemma clearjunk_subset: "p \<in> set (AList.clearjunk xs) \<Longrightarrow> p \<in> set xs"
  by (induction xs rule: clearjunk.induct) (auto simp: AList.delete_eq)

lemma wait_step_world:
  assumes "\<And>i r. job_outcome ts jobs i = Some r \<Longrightarrow> w_outcome w i = r"
  shows "wait_step (work_world submit ts jobs) (ended_only ts jobs sc e) sc
    = wait_step w (ended_only ts jobs sc e) sc"
proof -
  have "collect_loop (work_world submit ts jobs) (wait_done (ended_only ts jobs sc e) sc) sc
      = collect_loop w (wait_done (ended_only ts jobs sc e) sc) sc"
  proof (rule collect_loop_world)
    fix f now r
    assume "(f, now) \<in> set (wait_done (ended_only ts jobs sc e) sc)" and r: "map_of (s_running sc) f = Some r"
    then have "(f, now) \<in> set (e_done (ended_only ts jobs sc e))"
      by (auto simp: wait_done_def dest: clearjunk_subset)
    with r have "job_outcome ts jobs (t_id (rn_task r)) \<noteq> None" by (simp add: ended_only_def)
    then show "w_outcome (work_world submit ts jobs) (t_id (rn_task r)) = w_outcome w (t_id (rn_task r))"
      using assms by (auto simp: work_world_def)
  qed
  then show ?thesis by (simp add: wait_step_def Let_def)
qed

lemma ended_only_simps [simp]: "e_now (ended_only ts jobs sc e) = e_now e"
  by (simp add: ended_only_def)

lemma work_loop_spec:
  assumes "work_loop c x ts tr br submit turns jobs sc s = Some ((sc', xo), jobs', s')"
  shows "persists jobs jobs' \<and> frame s s'
    \<and> (budgets_ok br (running_jobs jobs) s \<longrightarrow> budgets_ok br (running_jobs jobs') s')
    \<and> (\<forall>w. w_submit w = submit \<longrightarrow> (\<forall>i r. job_outcome ts jobs' i = Some r \<longrightarrow> w_outcome w i = r) \<longrightarrow>
         (\<exists>es. run_loop c w es sc = Some (sc', xo)))"
  using assms
proof (induction turns arbitrary: jobs sc s)
  case Nil
  then show ?case by (subst (asm) work_loop.simps) (auto split: if_splits intro!: exI [of _ "[]"])
next
  case (Cons turn turns)
  obtain e evs where turn: "turn = (e, evs)" by fastforce
  show ?case
  proof (cases "s_pending sc = [] \<and> s_running sc = []")
    case True
    with Cons.prems show ?thesis by (subst (asm) work_loop.simps) (auto intro!: exI [of _ "[]"])
  next
    case go: False
    obtain sc1 x1 where l: "launch_ready c (work_world submit ts jobs) (e_now e) (skip_blocked sc) = (sc1, x1)"
      by fastforce
    have lw: "launch_ready c w (e_now e) (skip_blocked sc) = (sc1, x1)" if "w_submit w = submit" for w
      using launch_ready_world [of w "work_world submit ts jobs"] that l by (simp add: work_world_def)
    show ?thesis
    proof (cases "x1 \<noteq> None \<or> s_running sc1 = []")
      case True
      then have st: "jobs' = jobs" "s' = s"
          "sc' = sc1" "xo = (if x1 = None \<and> s_pending sc1 \<noteq> [] then Some deadlock_exn else x1)"
        using Cons.prems go turn l by (subst (asm) work_loop.simps, auto split: option.splits)+
      have "run_loop c w [e] sc = Some (sc', xo)" if "w_submit w = submit" for w
        using go True st lw [OF that] by (auto split: option.splits)
      then have "\<forall>w. w_submit w = submit \<longrightarrow> (\<exists>es. run_loop c w es sc = Some (sc', xo))" by blast
      with st(1,2) show ?thesis by (simp del: run_loop.simps)
    next
      case False
      then have x1: "x1 = None" "s_running sc1 \<noteq> []" by auto
      obtain jobs1 s1 where ev: "work_events x ts tr br sc1 evs (jobs, s) = (jobs1, s1)" by fastforce
      let ?e = "ended_only ts jobs1 sc1 e"
      obtain sc2 x2 where wt: "wait_step (work_world submit ts jobs1) ?e sc1 = (sc2, x2)" by fastforce
      note k = work_events_keep [OF ev]
      have step: "run_loop c w (?e # es) sc
          = (if x2 = None then run_loop c w es sc2 else Some (sc2, x2))"
        if "w_submit w = submit" "\<And>i r. job_outcome ts jobs1 i = Some r \<Longrightarrow> w_outcome w i = r" for w es
        using go lw [OF that(1)] x1 wt wait_step_world [of ts jobs1 w submit sc1 e, OF that(2)]
        by (subst run_loop.simps) (auto split: option.splits)
      show ?thesis
      proof (cases x2)
        case None
        then have rest: "work_loop c x ts tr br submit turns jobs1 sc2 s1 = Some ((sc', xo), jobs', s')"
          using Cons.prems go turn l x1 ev wt by (subst (asm) work_loop.simps) simp
        note ih = Cons.IH [OF rest]
        have "\<exists>es. run_loop c w es sc = Some (sc', xo)"
          if w: "w_submit w = submit" and out: "\<forall>i r. job_outcome ts jobs' i = Some r \<longrightarrow> w_outcome w i = r" for w
        proof -
          from ih w out obtain es where "run_loop c w es sc2 = Some (sc', xo)" by blast
          moreover have "w_outcome w i = r" if "job_outcome ts jobs1 i = Some r" for i r
            using persists_outcome [of jobs1 jobs'] ih that out by blast
          ultimately have "run_loop c w (?e # es) sc = Some (sc', xo)"
            using step [OF w, of es] None by (simp del: run_loop.simps)
          then show ?thesis by blast
        qed
        with ih k show ?thesis by (blast intro: persists_trans frame_trans)
      next
        case (Some ex)
        then have st: "jobs' = jobs1" "s' = s1" "sc' = sc2" "xo = Some ex"
          using Cons.prems go turn l x1 ev wt by (subst (asm) work_loop.simps, simp)+
        have "\<exists>es. run_loop c w es sc = Some (sc', xo)"
          if "w_submit w = submit" "\<forall>i r. job_outcome ts jobs' i = Some r \<longrightarrow> w_outcome w i = r" for w
          using step [of w "[]"] that Some st by (intro exI [of _ "[?e]"]) (simp del: run_loop.simps)
        with st k show ?thesis by blast
      qed
    qed
  qed
qed

section \<open>The work phase\<close>

lemma running_task_jobs: "running_jobs (map (task_job s) ts) = 0"
  by (auto simp: running_jobs_def runs_def task_job_def split: option.splits if_splits job_state.splits)

lemma trace_events_keep: "keeps s (trace_events ts tr evs s)"
proof -
  have one: "keeps s (on_trace tr (trace_event ts p) s)" for p and s :: "'w rt"
    by (auto simp: keeps_def frame_def on_trace_def trace_event_def map_update list_update_same_conv
        budgets_ok_def split: option.splits prod.splits)
  have "keeps s (fold (\<lambda>p. on_trace tr (trace_event ts p)) evs s)"
    by (induction evs arbitrary: s) (auto intro: keeps_trans [OF one])
  then show ?thesis by (simp add: trace_events_def)
qed

definition plan_config :: "real option \<Rightarrow> 'w rt \<Rightarrow> config" where
  "plan_config timeout s =
     \<lparr>max_concurrency = None, default_timeout = timeout, run_dl = run_deadline (rt_deadline_var s)\<rparr>"

text \<open>What a finished work phase comes from.\<close>

lemma execute_plan_cases:
  assumes "execute_plan h timeout ts s = Some (r, s')"
  obtains (invalid) e where "validate_plan (ho_enum h) (map (\<lambda>t. (t_id t, t)) ts) ts None None = Inl e"
      "r = Inl e" "s' = s"
  | (ran) ws :: work_script and w1 p jobs s1 sc eo where
      "validate_plan (ho_enum h) (map (\<lambda>t. (t_id t, t)) ts) ts None None = Inr ()"
      "work_loop (plan_config timeout s) (ho_x h) ts (current_trace (rt_trace_var s))
         (current_budget (rt_budget_var s)) (ws_submit ws) (ws_turns ws) (map (task_job s) ts)
         (init_sched ts) (s\<lparr>rt_world := w1\<rparr>) = Some (p, jobs, s1)"
      "end_run (plan_config timeout s) (ws_final ws) p = (sc, eo)"
      "r = (case eo of None \<Rightarrow> Inr (s_results sc) | Some e \<Rightarrow> Inl e)"
      "s' = trace_events ts (current_trace (rt_trace_var s)) (s_events sc) s1"
proof (cases "validate_plan (ho_enum h) (map (\<lambda>t. (t_id t, t)) ts) ts None None")
  case (Inl e)
  with assms invalid show thesis by (simp add: execute_plan_def)
next
  case (Inr v)
  obtain ws w1 where w: "ho_work h ts (rt_world s) = (ws, w1)" by fastforce
  with assms Inr obtain p jobs s1 where l:
    "work_loop (plan_config timeout s) (ho_x h) ts (current_trace (rt_trace_var s))
       (current_budget (rt_budget_var s)) (ws_submit ws) (ws_turns ws) (map (task_job s) ts)
       (init_sched ts) (s\<lparr>rt_world := w1\<rparr>) = Some (p, jobs, s1)"
    by (auto simp: execute_plan_def Let_def plan_config_def split: option.splits)
  obtain sc eo where e: "end_run (plan_config timeout s) (ws_final ws) p = (sc, eo)" by fastforce
  show thesis
    using assms Inr w l e by (intro ran [of ws w1 p jobs s1 sc eo])
      (auto simp: execute_plan_def Let_def plan_config_def split: option.splits)
qed

lemma execute_plan_keeps: "upholds keeps (execute_plan h timeout ts)"
  unfolding upholds_def
proof (intro allI impI)
  fix s r s'
  assume "execute_plan h timeout ts s = Some (r, s')"
  then show "keeps s s'"
  proof (cases rule: execute_plan_cases)
    case (ran ws w1 p jobs s1 sc eo)
    let ?br = "current_budget (rt_budget_var s)" and ?s = "s\<lparr>rt_world := w1\<rparr>"
    obtain sc1 xo where "p = (sc1, xo)" by fastforce
    from work_loop_spec [OF ran(2) [unfolded this]] have
      k: "frame ?s s1" "budgets_ok ?br 0 ?s \<longrightarrow> budgets_ok ?br (running_jobs jobs) s1"
      by (auto simp: running_task_jobs)
    have "keeps s s1"
      using frame_trans [OF frame_world k(1)] k(2) budgets_ok_less [of ?br "running_jobs jobs" s1 0]
      by (auto simp: keeps_def budgets_ok_zero [of ?br, symmetric])
    then show ?thesis unfolding ran(5) by (rule keeps_trans) (rule trace_events_keep)
  qed simp
qed

lemma execute_plan_scheduled:
  assumes "execute_plan h timeout ts s = Some (r, s')" "plan_valid ts" "set_iteration (ho_enum h)"
  shows "\<exists>w es now sc eo. run_valid (plan_config timeout s) w es now ts = Some (sc, eo) \<and> world_ok ts w
    \<and> r = (case eo of None \<Rightarrow> Inr (s_results sc) | Some e \<Rightarrow> Inl e)"
  using assms(1)
proof (cases rule: execute_plan_cases)
  case (invalid e)
  have "validate_plan (ho_enum h) (map (\<lambda>t. (t_id t, t)) ts) ts None None = Inr ()"
    using assms(2,3) by (subst validate_plan_Inr) (auto simp: refs_valid_def plan_valid_def)
  with invalid show ?thesis by simp
next
  case (ran ws w1 p jobs s1 sc eo)
  obtain sc1 xo where p: "p = (sc1, xo)" by fastforce
  let ?w = "work_world (ws_submit ws) ts jobs"
  have "w_submit ?w = ws_submit ws" "\<forall>i r. job_outcome ts jobs i = Some r \<longrightarrow> w_outcome ?w i = r"
    by (simp_all add: work_world_def)
  with work_loop_spec [OF ran(2) [unfolded p]] obtain es where
    "run_loop (plan_config timeout s) ?w es (init_sched ts) = Some (sc1, xo)" by blast
  then have "run_valid (plan_config timeout s) ?w es (ws_final ws) ts = Some (sc, eo)"
    using ran(3) by (simp add: run_valid_end_run p del: run_loop.simps)
  moreover have "world_ok ts ?w"
    by (auto simp: world_ok_def work_world_def job_outcome_def list_all_iff
        split: option.splits job_state.splits sum.splits outcome.splits task_output.splits)
  ultimately show ?thesis using ran(4) by blast
qed

section \<open>Properties\<close>


text \<open>
  The work phase of the supervisor accounts for every task: when it returns, the results hold each
  task of the plan exactly once, all of them terminal, and a task has run (succeeded, failed or timed
  out) only when everything it depends on had succeeded.
\<close>

theorem plan_execution_complete:
  assumes "execute_plan h timeout ts s = Some (Inr results, s')" "plan_valid ts" "set_iteration (ho_enum h)"
  shows "mset (dkeys results) = mset (map t_id ts) \<and> list_all (\<lambda>(i, r). terminal (r_status r)) results
    \<and> (\<forall>t \<in> set ts. \<forall>r. map_of results (t_id t) = Some r \<longrightarrow> r_status r \<in> {SUCCESS, FAILED, TIMEOUT}
         \<longrightarrow> deps_succeeded results t)"
proof -
  obtain w es now sc eo where
    run: "run_valid (plan_config timeout s) w es now ts = Some (sc, eo)" "world_ok ts w"
      "Inr results = (case eo of None \<Rightarrow> Inr (s_results sc) | Some e \<Rightarrow> Inl e)"
    using execute_plan_scheduled [OF assms] by blast
  then have eo: "eo = None" and res: "results = s_results sc" by (auto split: option.splits)
  have d: "distinct (map t_id ts)" using assms(2) by (rule plan_valid_distinct)
  have "deps_succeeded (s_results sc) t"
    if "t \<in> set ts" "map_of (s_results sc) (t_id t) = Some r" "r_status r \<in> {SUCCESS, FAILED, TIMEOUT}" for t r
    using run_valid_deps [OF d run(2,1) that(1,2)] that(3) by auto
  moreover have "mset (dkeys (s_results sc)) = mset (map t_id ts)"
      "list_all (\<lambda>(i, r). terminal (r_status r)) (s_results sc)"
    using run_valid_return [OF d run(2) run(1) [unfolded eo]]
    by (auto simp: sched_inv_def partition_inv_def results_inv_def run_ids_def list_all_iff)
  ultimately show ?thesis by (auto simp: res)
qed

section \<open>Witnesses\<close>

text \<open>Two tasks for the agent that answers; the second waits for the first.\<close>

definition sample_tasks :: "task list" where
  "sample_tasks =
     [mk_task (u ''t1'') (u ''find'') (Some (u ''a'')) [] [],
      mk_task (u ''t2'') (u ''write'') (Some (u ''a'')) [u ''t1''] []]"

definition sample_host :: "unit host" where
  "sample_host =
     \<lparr>ho_x = idle, ho_pool = sample_pool, ho_loads = (\<lambda>s. None), ho_enum = remdups,
      ho_work = (\<lambda>ts w. (\<lparr>ws_submit = (\<lambda>i. Accepted 0),
                           ws_turns = [(turn 0, [Begin 0, End 0]), (turn 1, [Begin 1, End 1])], ws_final = 0\<rparr>, w))\<rparr>"

lemma sample_tasks_ok: "plan_valid sample_tasks"
  by (rule plan_valid_run) code_simp

lemma sample_host_enum: "set_iteration (ho_enum sample_host)"
  by (simp add: sample_host_def set_iteration_remdups)

lemma sample_execution: "returns (execute_plan sample_host (Some 5) sample_tasks sample_rt)"
  by code_simp


theorem plan_execution_complete_witness:
  "\<exists>results s'. execute_plan sample_host (Some 5) sample_tasks sample_rt = Some (Inr results, s')
     \<and> mset (dkeys results) = mset (map t_id sample_tasks)"
proof -
  obtain r s' where e: "execute_plan sample_host (Some 5) sample_tasks sample_rt = Some (Inr r, s')"
    using returnsD [OF sample_execution] by blast
  from plan_execution_complete [OF this sample_tasks_ok sample_host_enum] e show ?thesis by blast
qed

end
