(* ===== verification/Strategies.thy ===== *)
theory Strategies
  imports Supervision
begin

text \<open>
  The six strategies of \<open>strategies.py\<close> and their dispatch. Each is an action: it reads the clock, records
  the prompt, asks agents, and concludes with its step records and final answer. Options an event may
  set are in \<open>opts\<close>; the number of rounds is whatever value the event held, read by \<open>int\<close>.
\<close>

section \<open>Options and texts\<close>

record opts =
  op_rounds :: "pyval option"
  op_judge :: "pystr option"
  op_order :: "pystr list"
  op_supervisor :: "pystr option"
  op_workers :: "pystr list"
  op_timeout :: "real option"

text \<open>\<open>max(1, int(rounds))\<close>.\<close>

definition round_count :: "int \<Rightarrow> pyval option \<Rightarrow> exn + nat" where
  "round_count dflt rounds =
     map_sum id (\<lambda>n. nat (max 1 n)) (py_int (case rounds of None \<Rightarrow> IntV dflt | Some v \<Rightarrow> v))"

definition max_chars :: "(int option, 'w) act" where
  "max_chars = reads (\<lambda>s. policy_chars (rt_coord s))"

definition team :: "(pystr list, 'w) act" where
  "team = reads (\<lambda>s. agent_names (rt_coord s))"

definition unknown_agents :: "pystr list \<Rightarrow> (pystr list, 'w) act" where
  "unknown_agents names = reads (\<lambda>s. filter (\<lambda>n. get_agent n (rt_coord s) = None) names)"

definition not_found :: "pystr \<Rightarrow> exn" where
  "not_found t = Exn CAgentNotFound t"

definition strategy_error :: "string \<Rightarrow> exn" where
  "strategy_error t = Exn CStrategyError (u t)"

text \<open>\<open>judge or ("judge" if "judge" in names else names[0])\<close>; the names are not empty there.\<close>

definition chosen :: "string \<Rightarrow> pystr option \<Rightarrow> pystr list \<Rightarrow> pystr" where
  "chosen role wanted names =
     (case wanted of
        Some n \<Rightarrow> if n \<noteq> [] then n else if u role \<in> set names then u role else hd names
      | None \<Rightarrow> if u role \<in> set names then u role else hd names)"

definition round_step :: "string \<Rightarrow> nat \<Rightarrow> (pystr \<times> pyval) list \<Rightarrow> step_record" where
  "round_step kind r responses =
     plain_step [(u ''round'', IntV (int r)), (u ''kind'', StrV (u kind)), (u ''responses'', DictV responses)]"

definition agent_step :: "pyval \<Rightarrow> pystr \<Rightarrow> pyval \<Rightarrow> pydict" where
  "agent_step step name response = [(u ''step'', step), (u ''agent'', StrV name), (u ''response'', response)]"

definition statement :: "pystr \<Rightarrow> pyval \<Rightarrow> pystr" where
  "statement name v = u ''['' @ name @ u '']: '' @ py_str v"

section \<open>Broadcast\<close>

text \<open>\<open>n\<close> rounds are left, \<open>r\<close> is the number of the next one; the last round's answer is not cut.\<close>

primrec broadcast_rounds ::
    "nat \<Rightarrow> 'w host \<Rightarrow> pystr \<Rightarrow> real option \<Rightarrow> int option \<Rightarrow> nat \<Rightarrow> pystr \<Rightarrow> (step_record list \<times> pystr, 'w) act" where
  "broadcast_rounds 0 h prompt timeout mc r last_text = ret ([], last_text)"
| "broadcast_rounds (Suc n) h prompt timeout mc r last_text =
     andthen (ask_all_noted h last_text (\<lambda>_. []) timeout) (\<lambda>responses.
       (let joined = join_answers responses last_text;
            next_text = (if mc \<noteq> None \<and> n > 0 then truncate_text (prompt @ blank2 @ joined) mc else joined)
        in andthen (broadcast_rounds n h prompt timeout mc (Suc r) next_text) (\<lambda>(records, fin).
             ret (round_step ''broadcast'' r responses # records, fin))))"

definition run_broadcast :: "'w host \<Rightarrow> pystr \<Rightarrow> opts \<Rightarrow> (strat_result, 'w) act" where
  "run_broadcast h prompt k =
     andthen (start_time h) (\<lambda>start.
     andthen max_chars (\<lambda>mc.
     andthen (checked (round_count 1 (op_rounds k))) (\<lambda>rounds.
     andthen (note_user prompt) (\<lambda>_.
     andthen (broadcast_rounds rounds h prompt (op_timeout k) mc 1 prompt) (\<lambda>(records, fin).
     conclude h (u ''broadcast'') start prompt records fin)))))"

section \<open>Sequential\<close>

fun sequential_steps ::
    "'w host \<Rightarrow> real option \<Rightarrow> int option \<Rightarrow> nat \<Rightarrow> pystr list \<Rightarrow> pystr \<Rightarrow> ((pystr \<times> pyval) list, 'w) act" where
  "sequential_steps h timeout mc i [] transcript = ret []"
| "sequential_steps h timeout mc i (name # names) transcript =
     andthen (ask_noted h name transcript timeout) (\<lambda>v.
     andthen (sequential_steps h timeout mc (Suc i) names
                (truncate_text (transcript @ blank2 @ statement name v) mc)) (\<lambda>rest.
     ret ((name, v) # rest)))"

definition sequential_records :: "(pystr \<times> pyval) list \<Rightarrow> step_record list" where
  "sequential_records steps =
     map (\<lambda>(i, name, v). plain_step (agent_step (IntV (int i)) name v)) (zip [1..<Suc (length steps)] steps)"

definition run_sequential :: "'w host \<Rightarrow> pystr \<Rightarrow> opts \<Rightarrow> (strat_result, 'w) act" where
  "run_sequential h prompt k =
     andthen (start_time h) (\<lambda>start.
     andthen team (\<lambda>everyone.
     (let names = (if op_order k = [] then everyone else op_order k) in
     andthen (unknown_agents names) (\<lambda>missing.
     andthen (guarded (missing \<noteq> [])
                (not_found (u ''sequential: unknown agents in order: '' @ py_repr_strs missing))) (\<lambda>_.
     andthen max_chars (\<lambda>mc.
     andthen (note_user prompt) (\<lambda>_.
     andthen (sequential_steps h (op_timeout k) mc 1 names prompt) (\<lambda>steps.
     conclude h (u ''sequential'') start prompt (sequential_records steps)
       (if steps = [] then prompt else py_str (snd (last steps)))))))))))"

section \<open>Debate\<close>

text \<open>What each debater sees: its own view under a policy, else the whole discussion.\<close>

definition debate_context :: "pystr \<Rightarrow> 'w rt \<Rightarrow> pystr \<Rightarrow> chat list" where
  "debate_context prompt s name =
     (case co_policy (rt_coord s) of
        Some p \<Rightarrow>
          if name \<in> set (agent_names (rt_coord s))
          then build_context prompt (ms_messages (co_memory (rt_coord s))) (Some p) (Some name) else []
      | None \<Rightarrow> to_chat None True (co_memory (rt_coord s)))"

primrec debate_rounds ::
    "nat \<Rightarrow> 'w host \<Rightarrow> pystr \<Rightarrow> real option \<Rightarrow> nat \<Rightarrow> (pystr \<times> pyval) list
     \<Rightarrow> (step_record list \<times> (pystr \<times> pyval) list, 'w) act" where
  "debate_rounds 0 h prompt timeout r last_responses = ret ([], last_responses)"
| "debate_rounds (Suc n) h prompt timeout r last_responses =
     andthen (reads (debate_context prompt)) (\<lambda>ctx.
     andthen (ask_all_noted h prompt ctx timeout) (\<lambda>responses.
     andthen (debate_rounds n h prompt timeout (Suc r) responses) (\<lambda>(records, final_responses).
     ret (round_step ''debate'' r responses # records, final_responses))))"

definition judge_input :: "pystr \<Rightarrow> (pystr \<times> pyval) list \<Rightarrow> pystr" where
  "judge_input prompt responses =
     prompt @ [10, 10, 20197, 19979, 26159, 21508, 20301, 36777, 25163, 30340, 35266, 28857] @ u '':'' @ [10]
     @ format_statements responses
     @ [10, 10, 35831, 20197, 35009, 21028, 36523, 20221, 32508, 21512, 25152, 26377, 35266,
        28857, 65292, 32473, 20986, 26368, 32456, 32467, 35770, 19982, 29702, 30001, 12290]"

definition run_debate :: "'w host \<Rightarrow> pystr \<Rightarrow> opts \<Rightarrow> (strat_result, 'w) act" where
  "run_debate h prompt k =
     andthen (start_time h) (\<lambda>start.
     andthen team (\<lambda>names.
     andthen (guarded (length names < 2) (strategy_error ''debate needs at least two agents'')) (\<lambda>_.
     andthen max_chars (\<lambda>mc.
     andthen (note_user prompt) (\<lambda>_.
     andthen (checked (round_count 3 (op_rounds k))) (\<lambda>rounds.
     andthen (debate_rounds rounds h prompt (op_timeout k) 1 []) (\<lambda>(records, responses).
     (let judge = chosen ''judge'' (op_judge k) names in
     andthen (unknown_agents [judge]) (\<lambda>missing.
     andthen (guarded (missing \<noteq> [])
                (not_found (u ''debate: judge agent '' @ quoted judge @ u '' not registered''))) (\<lambda>_.
     andthen (ask_noted h judge (truncate_text (judge_input prompt responses) mc) (op_timeout k)) (\<lambda>verdict.
     conclude h (u ''debate'') start prompt
       (records @ [plain_step (agent_step (StrV (u ''judge'')) judge verdict)]) (py_str verdict))))))))))))"

section \<open>Supervisor\<close>

text \<open>The results of the plan in the memory; \<open>results[task.id]\<close> may raise.\<close>

fun record_results :: "results \<Rightarrow> task list \<Rightarrow> (unit, 'w) act" where
  "record_results results [] = ret ()"
| "record_results results (t # ts) =
     (case map_of results (t_id t) of
        None \<Rightarrow> throw (Exn CKeyError (py_repr_str (t_id t)))
      | Some r \<Rightarrow>
          andthen
            (if r_status r = SUCCESS
             then does (record_message (u ''assistant'') (r_output r)
                          (case r_agent r of
                             Some a \<Rightarrow> if a \<noteq> [] then Some a else t_agent t
                           | None \<Rightarrow> t_agent t))
             else ret ())
            (\<lambda>_. record_results results ts))"

text \<open>The views per worker: the tasks it was assigned, and what it answered.\<close>

definition assign_task :: "results \<Rightarrow> task \<Rightarrow> (pystr \<times> pystr list) list \<Rightarrow> (pystr \<times> pystr list) list" where
  "assign_task results t d =
     (case Option.bind (map_of results (t_id t)) r_agent of
        None \<Rightarrow> d
      | Some a \<Rightarrow>
          if a = [] then d
          else AList.update a ((case map_of d a of None \<Rightarrow> [] | Some ds \<Rightarrow> ds) @ [t_desc t]) d)"

definition assigned_tasks :: "results \<Rightarrow> task list \<Rightarrow> (pystr \<times> pystr list) list" where
  "assigned_tasks results ts = fold (assign_task results) ts []"

definition worker_outputs :: "results \<Rightarrow> task list \<Rightarrow> pystr \<Rightarrow> pystr list" where
  "worker_outputs results ts w =
     concat (map (\<lambda>t.
       if t_agent t = Some w
       then (case map_of results (t_id t) of
               Some r \<Rightarrow> if r_status r = SUCCESS then [py_str (r_output r)] else []
             | None \<Rightarrow> [])
       else []) ts)"

definition worker_result :: "results \<Rightarrow> task list \<Rightarrow> pystr \<Rightarrow> pyval" where
  "worker_result results ts w =
     (let outputs = worker_outputs results ts w
      in if outputs = [] then error_dict (u ''no successful tasks'') else StrV (py_join nl outputs))"

definition work_step :: "results \<Rightarrow> task list \<Rightarrow> plan_info \<Rightarrow> step_record" where
  "work_step results ts info =
     (let assigned = assigned_tasks results ts
      in \<lparr>st_dict =
            [(u ''step'', StrV (u ''work'')), (u ''subtasks'', ListV (map (\<lambda>t. StrV (t_desc t)) ts)),
             (u ''assigned'', DictV (map (\<lambda>(w, ds). (w, ListV (map StrV ds))) assigned)),
             (u ''results'', DictV (map (\<lambda>(w, ds). (w, worker_result results ts w)) assigned)),
             (u ''plan_info'', DictV [(u ''format'', StrV (pi_format info)),
                                      (u ''notes'', ListV (map StrV (pi_notes info)))])],
          st_tasks = List.map_filter (\<lambda>t. map_option result_as_dict (map_of results (t_id t))) ts\<rparr>)"

definition report_input :: "pystr \<Rightarrow> pystr \<Rightarrow> pystr" where
  "report_input prompt summary =
     prompt @ [10, 10, 23376, 20219, 21153, 23436, 25104, 24773, 20917] @ u '':'' @ [10] @ summary
     @ [10, 10, 35831, 32508, 21512, 25152, 26377, 23376, 20219, 21153, 32467, 26524, 65292,
        32473, 20986, 26368, 32456, 30340, 23436, 25972, 22238, 31572, 12290]"

text \<open>The three phases, once supervisor and workers are known: plan, work, report.\<close>

definition supervise ::
    "'w host \<Rightarrow> pystr \<Rightarrow> real option \<Rightarrow> int option \<Rightarrow> pystr \<Rightarrow> pystr list
     \<Rightarrow> (step_record list \<times> pystr, 'w) act" where
  "supervise h prompt timeout mc boss workers =
     andthen (ask_noted h boss (plan_prompt prompt) timeout) (\<lambda>answer.
     andthen (reads (\<lambda>s n. map_option (\<lambda>a. a_caps (base_of a)) (get_agent n (rt_coord s)))) (\<lambda>caps_of.
     andthen (checked (parse_plan (ho_loads h) (ho_enum h) caps_of workers False 2 (py_str answer) prompt)) (\<lambda>(ts, info).
     andthen (execute_plan h timeout ts) (\<lambda>results.
     andthen (record_results results ts) (\<lambda>_.
     andthen (ask_noted h boss (report_input prompt (truncate_text (format_task_results results ts) mc)) timeout) (\<lambda>report.
     ret ([plain_step (agent_step (StrV (u ''plan'')) boss answer), work_step results ts info,
           plain_step (agent_step (StrV (u ''report'')) boss report)], py_str report)))))))"

definition run_supervisor :: "'w host \<Rightarrow> pystr \<Rightarrow> opts \<Rightarrow> (strat_result, 'w) act" where
  "run_supervisor h prompt k =
     andthen (start_time h) (\<lambda>start.
     andthen team (\<lambda>names.
     andthen (guarded (names = [] \<and> op_supervisor k \<in> set [None, Some []])
                (Exn CIndexError (u ''list index out of range''))) (\<lambda>_.
     (let boss = chosen ''supervisor'' (op_supervisor k) names;
          workers = (if op_workers k = [] then filter (\<lambda>n. n \<noteq> boss) names else op_workers k) in
     andthen (unknown_agents [boss]) (\<lambda>no_sup.
     andthen (guarded (no_sup \<noteq> []) (not_found (u ''supervisor: agent '' @ quoted boss @ u '' not registered''))) (\<lambda>_.
     andthen (guarded (workers = [])
                (strategy_error ''supervisor strategy needs at least one worker besides the supervisor'')) (\<lambda>_.
     andthen (unknown_agents workers) (\<lambda>missing.
     andthen (guarded (missing \<noteq> [])
                (not_found (u ''supervisor: unknown worker agents: '' @ py_repr_strs missing))) (\<lambda>_.
     andthen (note_user prompt) (\<lambda>_.
     andthen max_chars (\<lambda>mc.
     andthen (supervise h prompt (op_timeout k) mc boss workers) (\<lambda>(records, fin).
     conclude h (u ''supervisor'') start prompt records fin))))))))))))"

section \<open>Relay\<close>

definition relay_message :: "pystr \<Rightarrow> pystr \<Rightarrow> pystr" where
  "relay_message prompt draft =
     [21407, 22987, 20219, 21153, 65306] @ prompt @ [10, 10, 24403, 21069, 33609, 31295, 65306, 10] @ draft
     @ [10, 10, 35201, 27714, 65306, 35831, 25913, 36827, 19979, 38754, 36825, 20221, 33609,
        31295, 65292, 21482, 36755, 20986, 25913, 36827, 21518, 30340, 23436, 25972, 33609, 31295, 12290]"

definition next_draft :: "pystr \<Rightarrow> pyval \<Rightarrow> pystr" where
  "next_draft draft v = (if is_error_dict v then draft else py_str v)"

definition note_draft :: "pystr \<Rightarrow> pyval \<Rightarrow> (unit, 'w) act" where
  "note_draft name v =
     (if is_error_dict v then ret ()
      else does (record_message (u ''assistant'') (StrV (py_str v)) (Some name)))"

fun relay_turns ::
    "'w host \<Rightarrow> pystr \<Rightarrow> real option \<Rightarrow> int option \<Rightarrow> nat \<Rightarrow> pystr list \<Rightarrow> pystr
     \<Rightarrow> (pyval list \<times> pystr, 'w) act" where
  "relay_turns h prompt timeout mc i [] draft = ret ([], draft)"
| "relay_turns h prompt timeout mc i (name # names) draft =
     andthen (ask_one h name (truncate_text (relay_message prompt draft) mc) timeout) (\<lambda>v.
     andthen (note_draft name v) (\<lambda>_.
     andthen (relay_turns h prompt timeout mc (Suc i) names (next_draft draft v)) (\<lambda>(steps, fin).
     ret (DictV (agent_step (IntV (int i)) name v) # steps, fin))))"

definition relay_step :: "nat \<Rightarrow> pyval list \<Rightarrow> bool \<Rightarrow> step_record" where
  "relay_step r steps converged =
     plain_step [(u ''round'', IntV (int r)), (u ''kind'', StrV (u ''relay'')), (u ''steps'', ListV steps),
                 (u ''converged'', BoolV converged)]"

primrec relay_rounds ::
    "nat \<Rightarrow> 'w host \<Rightarrow> pystr \<Rightarrow> real option \<Rightarrow> int option \<Rightarrow> pystr list \<Rightarrow> nat \<Rightarrow> pystr
     \<Rightarrow> (step_record list \<times> pystr, 'w) act" where
  "relay_rounds 0 h prompt timeout mc names r draft = ret ([], draft)"
| "relay_rounds (Suc n) h prompt timeout mc names r draft =
     andthen (relay_turns h prompt timeout mc 1 names draft) (\<lambda>(steps, draft1).
       if draft1 = draft then ret ([relay_step r steps True], draft1)
       else andthen (relay_rounds n h prompt timeout mc names (Suc r) draft1) (\<lambda>(records, fin).
              ret (relay_step r steps False # records, fin)))"

definition run_relay :: "'w host \<Rightarrow> pystr \<Rightarrow> opts \<Rightarrow> (strat_result, 'w) act" where
  "run_relay h prompt k =
     andthen (start_time h) (\<lambda>start.
     andthen team (\<lambda>everyone.
     (let names = (if op_order k = [] then everyone else op_order k) in
     andthen (guarded (length names < 2) (strategy_error ''relay needs at least two agents'')) (\<lambda>_.
     andthen (unknown_agents names) (\<lambda>missing.
     andthen (guarded (missing \<noteq> [])
                (not_found (u ''relay: unknown agents in order: '' @ py_repr_strs missing))) (\<lambda>_.
     andthen max_chars (\<lambda>mc.
     andthen (note_user prompt) (\<lambda>_.
     andthen (checked (round_count 2 (op_rounds k))) (\<lambda>rounds.
     andthen (relay_rounds rounds h prompt (op_timeout k) mc names 1 prompt) (\<lambda>(records, fin).
     conclude h (u ''relay'') start prompt records fin))))))))))"

section \<open>Consensus\<close>

definition contains :: "pystr \<Rightarrow> pystr \<Rightarrow> bool" where
  "contains s p \<longleftrightarrow> find_sub s p \<noteq> None"

text \<open>\<open>_parse_vote\<close>: the whole text first, a part of it otherwise; the first candidate that fits.\<close>

definition exact_vote :: "pystr \<Rightarrow> pystr \<Rightarrow> bool" where
  "exact_vote low c \<longleftrightarrow>
     low = py_lower c \<or> low = u ''vote:'' @ py_lower c \<or> low = u ''vote: '' @ py_lower c"

definition loose_vote :: "pystr \<Rightarrow> pystr \<Rightarrow> bool" where
  "loose_vote low c \<longleftrightarrow> contains low (u ''vote:'' @ py_lower c) \<or> contains low (u ''vote: '' @ py_lower c)"

definition parse_vote :: "pyval \<Rightarrow> pystr list \<Rightarrow> pystr option" where
  "parse_vote text candidates =
     (let low = py_lower (py_strip (py_str text))
      in case List.find (exact_vote low) candidates of
           Some c \<Rightarrow> Some c
         | None \<Rightarrow> List.find (loose_vote low) candidates)"

text \<open>The \<open>Counter\<close>, in the order candidates were first voted for, and \<open>most_common()\<close>.\<close>

definition count_vote :: "pystr list \<Rightarrow> pyval \<Rightarrow> (pystr \<times> nat) list \<Rightarrow> (pystr \<times> nat) list" where
  "count_vote names v counts =
     (case parse_vote v names of
        None \<Rightarrow> counts
      | Some w \<Rightarrow>
          if w = [] then counts
          else AList.update w (Suc (case map_of counts w of None \<Rightarrow> 0 | Some n \<Rightarrow> n)) counts)"

definition count_votes :: "pystr list \<Rightarrow> pyval list \<Rightarrow> (pystr \<times> nat) list" where
  "count_votes names votes = fold (count_vote names) votes []"

definition most_common :: "(pystr \<times> nat) list \<Rightarrow> (pystr \<times> nat) list" where
  "most_common counts = sort_key (\<lambda>(w, n). - int n) counts"

definition majority :: "(pystr \<times> nat) list \<Rightarrow> pystr option" where
  "majority counts =
     (case most_common counts of
        [] \<Rightarrow> None
      | [(w, n)] \<Rightarrow> Some w
      | (w, n) # (w', n') # rest \<Rightarrow> if n > n' then Some w else None)"

definition vote_prompt :: "pystr \<Rightarrow> pystr \<Rightarrow> pystr" where
  "vote_prompt prompt ballot =
     prompt @ [10, 10, 20505, 36873, 26041, 26696] @ u '':'' @ [10] @ ballot
     @ [10, 10, 35831, 25237, 31080, 36873, 20986, 26368, 20339, 26041, 26696, 65292, 36755, 20986, 26684, 24335]
     @ u '': vote:<agent_name>''"

definition verdict_prompt :: "pystr \<Rightarrow> pystr" where
  "verdict_prompt vp =
     vp @ [10, 10, 35831, 20316, 20026, 35009, 21028, 65292, 32508, 21512, 25152, 26377, 26041,
           26696, 19982, 25237, 31080, 65292, 30452, 25509, 32473, 20986, 26368, 32456, 31572, 26696, 12290]"

definition final_step :: "string \<Rightarrow> pystr \<Rightarrow> (pystr \<times> nat) list \<Rightarrow> pyval \<Rightarrow> step_record" where
  "final_step role name counts response =
     plain_step [(u ''step'', StrV (u ''final'')), (u role, StrV name),
                 (u ''votes'', DictV (map (\<lambda>(w, n). (w, IntV (int n))) counts)), (u ''response'', response)]"

text \<open>The end of a consensus: the proposal of the majority, or the verdict of the judge.\<close>

definition settle_consensus ::
    "'w host \<Rightarrow> real option \<Rightarrow> pystr \<Rightarrow> pystr \<Rightarrow> (pystr \<times> pyval) list \<Rightarrow> (pystr \<times> nat) list
     \<Rightarrow> (step_record \<times> pyval, 'w) act" where
  "settle_consensus h timeout judge vp proposals counts =
     (case majority counts of
        Some w \<Rightarrow>
          (case map_of proposals w of
             None \<Rightarrow> throw (Exn CKeyError (py_repr_str w))
           | Some v \<Rightarrow>
               if is_error_dict v then
                 andthen (ask_noted h judge (verdict_prompt vp) timeout) (\<lambda>verdict.
                 ret (final_step ''judge'' judge counts verdict, verdict))
               else ret (final_step ''winner'' w counts v, v))
      | None \<Rightarrow>
          andthen (ask_noted h judge (verdict_prompt vp) timeout) (\<lambda>verdict.
          ret (final_step ''judge'' judge counts verdict, verdict)))"

definition consensus_steps ::
    "'w host \<Rightarrow> pystr \<Rightarrow> real option \<Rightarrow> int option \<Rightarrow> pystr list \<Rightarrow> pystr \<Rightarrow> (step_record list \<times> pystr, 'w) act" where
  "consensus_steps h prompt timeout mc names judge =
     andthen (ask_all_noted h prompt (\<lambda>_. []) timeout) (\<lambda>proposals.
     (let vp = vote_prompt prompt (truncate_text (format_statements proposals) mc) in
     andthen (ask_all h vp (\<lambda>_. []) timeout) (\<lambda>votes.
     andthen (settle_consensus h timeout judge vp proposals (count_votes names (map snd votes))) (\<lambda>(step, v).
     ret ([plain_step [(u ''step'', StrV (u ''propose'')), (u ''responses'', DictV proposals)],
           plain_step [(u ''step'', StrV (u ''vote'')), (u ''votes'', DictV votes)], step], py_str v)))))"

definition run_consensus :: "'w host \<Rightarrow> pystr \<Rightarrow> opts \<Rightarrow> (strat_result, 'w) act" where
  "run_consensus h prompt k =
     andthen (start_time h) (\<lambda>start.
     andthen team (\<lambda>names.
     andthen (guarded (length names < 2) (strategy_error ''consensus needs at least two agents'')) (\<lambda>_.
     andthen max_chars (\<lambda>mc.
     andthen (note_user prompt) (\<lambda>_.
     andthen (consensus_steps h prompt (op_timeout k) mc names (chosen ''judge'' (op_judge k) names)) (\<lambda>(records, fin).
     conclude h (u ''consensus'') start prompt records fin))))))"

section \<open>Dispatch\<close>

definition STRATEGIES :: "pystr list" where
  "STRATEGIES =
     [u ''broadcast'', u ''sequential'', u ''debate'', u ''supervisor'', u ''consensus'', u ''relay'']"

definition run_strategy :: "'w host \<Rightarrow> pystr \<Rightarrow> pystr \<Rightarrow> opts \<Rightarrow> (strat_result, 'w) act" where
  "run_strategy h strategy prompt k =
     (let s = py_lower strategy
      in if s = u ''broadcast'' then run_broadcast h prompt k
         else if s = u ''sequential'' then run_sequential h prompt k
         else if s = u ''debate'' then run_debate h prompt k
         else if s = u ''supervisor'' then run_supervisor h prompt k
         else if s = u ''consensus'' then run_consensus h prompt k
         else if s = u ''relay'' then run_relay h prompt k
         else throw (Exn CStrategyError (u ''Unknown strategy: '' @ strategy @ u '' (available: ''
                @ py_repr_strs (py_sorted_set STRATEGIES) @ u '')'')))"

section \<open>What every strategy keeps\<close>

locale strategy_contract = run_contract +
  assumes plan: "upholds R (execute_plan h timeout ts)"
begin

lemma pairs: "(\<And>a b. upholds R (f a b)) \<Longrightarrow> upholds R (case p of (a, b) \<Rightarrow> f a b)"
  by (cases p) simp

lemma lets: "(\<And>x. upholds R (f x)) \<Longrightarrow> upholds R (let x = a in f x)"
  by simp

lemma ifs: "upholds R m \<Longrightarrow> upholds R m' \<Longrightarrow> upholds R (if b then m else m')"
  by simp

lemma options: "upholds R m \<Longrightarrow> (\<And>x. upholds R (f x)) \<Longrightarrow> upholds R (case v of None \<Rightarrow> m | Some x \<Rightarrow> f x)"
  by (cases v) simp_all

lemma noted: "upholds R (does (record_message role v n))"
  by (rule does) (rule recorded)

lemmas parts = andthen ret throw reads checked guarded ask_one ask_all note_user note_answer note_answers
  ask_noted ask_all_noted conclude start_time plan noted pairs lets ifs options

lemma broadcast: "upholds R (run_broadcast h p k)"
proof -
  have "upholds R (broadcast_rounds n h p t mc r l)" for n t mc r l
    by (induction n arbitrary: r l) (simp_all only: broadcast_rounds.simps, intro parts, intro parts)
  then show ?thesis unfolding run_broadcast_def max_chars_def by (intro parts)
qed

lemma sequential: "upholds R (run_sequential h p k)"
proof -
  have "upholds R (sequential_steps h t mc i ns tr)" for t mc i ns tr
    by (induction ns arbitrary: i tr) (simp_all only: sequential_steps.simps, intro parts, intro parts)
  then show ?thesis unfolding run_sequential_def team_def unknown_agents_def max_chars_def by (intro parts)
qed

lemma debate: "upholds R (run_debate h p k)"
proof -
  have "upholds R (debate_rounds n h p t r l)" for n t r l
    by (induction n arbitrary: r l) (simp_all only: debate_rounds.simps, intro parts, intro parts)
  then show ?thesis unfolding run_debate_def team_def unknown_agents_def max_chars_def by (intro parts)
qed

lemma supervisor: "upholds R (run_supervisor h p k)"
proof -
  have r: "upholds R (record_results res ts)" for res ts
    by (induction ts) (simp_all only: record_results.simps, intro parts, intro parts)
  have "upholds R (supervise h p t mc b ws)" for t mc b ws
    unfolding supervise_def by (intro parts r)
  then show ?thesis unfolding run_supervisor_def team_def unknown_agents_def max_chars_def by (intro parts)
qed

lemma relay: "upholds R (run_relay h p k)"
proof -
  have d: "upholds R (note_draft n v)" for n v
    unfolding note_draft_def by (intro parts)
  have t: "upholds R (relay_turns h p t mc i ns dr)" for t mc i ns dr
    by (induction ns arbitrary: i dr) (simp_all only: relay_turns.simps, intro parts, intro parts d)
  have "upholds R (relay_rounds n h p t mc ns r dr)" for n t mc ns r dr
    by (induction n arbitrary: r dr) (simp_all only: relay_rounds.simps, intro parts, intro parts t)
  then show ?thesis unfolding run_relay_def team_def unknown_agents_def max_chars_def by (intro parts)
qed

lemma consensus: "upholds R (run_consensus h p k)"
proof -
  have "upholds R (consensus_steps h p t mc ns j)" for t mc ns j
    unfolding consensus_steps_def settle_consensus_def by (intro parts)
  then show ?thesis unfolding run_consensus_def team_def max_chars_def by (intro parts)
qed

lemma strategy: "upholds R (run_strategy h st p k)"
  unfolding run_strategy_def by (intro parts broadcast sequential debate supervisor consensus relay)

end

interpretation kept: strategy_contract "keeps :: 'w rt \<Rightarrow> 'w rt \<Rightarrow> bool"
  by unfold_locales (rule execute_plan_keeps)

section \<open>Lemmas\<close>

lemma andthen_Inr:
  "andthen m f s = Some (Inr v, s') \<longleftrightarrow> (\<exists>x s1. m s = Some (Inr x, s1) \<and> f x s1 = Some (Inr v, s'))"
  by (auto simp: andthen_def split: option.splits prod.splits sum.splits)

lemma act_Inr:
  "ret x s = Some (Inr v, s') \<longleftrightarrow> v = x \<and> s' = s"
  "throw e s = Some (Inr v, s') \<longleftrightarrow> False"
  "reads g s = Some (Inr v, s') \<longleftrightarrow> v = g s \<and> s' = s"
  "does k s = Some (Inr (), s') \<longleftrightarrow> s' = k s"
  "checked r s = Some (Inr v, s') \<longleftrightarrow> r = Inr v \<and> s' = s"
  "guarded bad e s = Some (Inr (), s') \<longleftrightarrow> \<not> bad \<and> s' = s"
  by (auto simp: ret_def throw_def reads_def does_def checked_def guarded_def split: sum.splits)

lemmas act_rules = andthen_Inr act_Inr

lemma ask_all_noted_spec:
  assumes "ask_all_noted h msg ctx timeout s = Some (Inr rs, s')" "distinct (agent_names (rt_coord s))"
  shows "map fst rs = agent_names (rt_coord s)" "agent_names (rt_coord s') = agent_names (rt_coord s)"
proof -
  obtain s1 where p: "parallel (ho_x h) (ho_pool h) (StrV msg) (agent_names (rt_coord s)) ctx timeout s = Some (Inr rs, s1)"
    using assms(1) by (auto simp: ask_all_noted_def note_answers_def ask_all_def act_rules)
  from parallel_spec(2) [OF p assms(2) refl] show "map fst rs = agent_names (rt_coord s)" .
  have "keeps s s'" by (rule upholdsD [OF kept.ask_all_noted assms(1)])
  then show "agent_names (rt_coord s') = agent_names (rt_coord s)" by (simp add: keeps_def frame_def)
qed

lemma broadcast_rounds_spec:
  assumes "broadcast_rounds n h prompt timeout mc r l s = Some (Inr (recs, fin), s')" "distinct (agent_names (rt_coord s))"
  shows "length recs = n \<and> (\<forall>i < n. \<exists>rs. recs ! i = round_step ''broadcast'' (r + i) rs \<and> map fst rs = agent_names (rt_coord s))"
  using assms
proof (induction n arbitrary: r l s recs)
  case 0
  then show ?case by (simp add: act_rules)
next
  case (Suc n)
  then obtain rs s1 nxt recs1 where a: "ask_all_noted h l (\<lambda>_. []) timeout s = Some (Inr rs, s1)"
    "broadcast_rounds n h prompt timeout mc (Suc r) nxt s1 = Some (Inr (recs1, fin), s')"
    "recs = round_step ''broadcast'' r rs # recs1"
    by (auto simp: act_rules Let_def split: prod.splits)
  note k = ask_all_noted_spec [OF a(1) Suc.prems(2)]
  have d1: "distinct (agent_names (rt_coord s1))" using k(2) Suc.prems(2) by simp
  from Suc.IH [OF a(2) d1] k show ?case
    by (auto simp: a(3) less_Suc_eq_0_disj)
qed

section \<open>Properties\<close>

text \<open>
  No strategy overspends: whatever its agents, the pool and the workers do, and whether it returns or
  raises, after a strategy every budget has at most its \<open>max_calls\<close> calls made and in flight, and the
  limits and the active trace, deadline and budget are those it was started with.
\<close>

theorem strategies_within_budget:
  assumes "run_strategy h strategy prompt k s = Some (r, s')" "budgets_ok None 0 s"
  shows "(\<forall>b \<in> set (rt_budgets s'). case b_max_calls b of None \<Rightarrow> True | Some m \<Rightarrow> b_calls b + b_reserved b \<le> max 0 m)
    \<and> map b_max_calls (rt_budgets s') = map b_max_calls (rt_budgets s)
    \<and> rt_trace_var s' = rt_trace_var s \<and> rt_deadline_var s' = rt_deadline_var s
    \<and> rt_budget_var s' = rt_budget_var s"
proof -
  have k: "keeps s s'" by (rule upholdsD [OF kept.strategy assms(1)])
  then have f: "frame s s'" and ok: "budgets_ok None 0 s'" using assms(2) by (simp_all add: keeps_def)
  have "map (fst \<circ> budget_terms) (rt_budgets s') = map (fst \<circ> budget_terms) (rt_budgets s)"
    using f unfolding frame_def by (metis map_map)
  then have m: "map b_max_calls (rt_budgets s') = map b_max_calls (rt_budgets s)"
    by (simp add: budget_terms_def o_def)
  have "case b_max_calls b of None \<Rightarrow> True | Some m \<Rightarrow> b_calls b + b_reserved b \<le> max 0 m"
    if "b \<in> set (rt_budgets s')" for b
    using ok that by (auto simp: budgets_ok_def slots_ok_def in_set_conv_nth)
  with m f show ?thesis by (simp add: frame_def)
qed

text \<open>
  A broadcast that returns has asked everyone in every round: it has \<open>max(1, rounds)\<close> step records,
  numbered from 1, each with one response per registered agent in the order of registration.
\<close>

theorem broadcast_complete:
  assumes "run_broadcast h prompt k s = Some (Inr res, s')" "distinct (agent_names (rt_coord s))"
  shows "round_count 1 (op_rounds k) = Inr (length (sr_rounds res))
    \<and> (\<forall>i < length (sr_rounds res). \<exists>rs. sr_rounds res ! i = round_step ''broadcast'' (Suc i) rs
          \<and> map fst rs = agent_names (rt_coord s))"
proof -
  obtain n mc recs fin s1 s2 where
    r: "round_count 1 (op_rounds k) = Inr n" "note_user prompt s = Some (Inr (), s1)"
      "broadcast_rounds n h prompt (op_timeout k) mc 1 prompt s1 = Some (Inr (recs, fin), s2)"
    and res: "sr_rounds res = recs"
    using assms(1)
    by (auto simp: run_broadcast_def start_time_def max_chars_def conclude_def act_rules split: prod.splits)
  have "keeps s s1" by (rule upholdsD [OF kept.note_user r(2)])
  then have "agent_names (rt_coord s1) = agent_names (rt_coord s)" by (simp add: keeps_def frame_def)
  with broadcast_rounds_spec [OF r(3)] assms(2) r(1) show ?thesis by (simp add: res)
qed

text \<open>The answers in the record of a relay round, and the drafts the rounds start from.\<close>

definition turn_answer :: "pyval \<Rightarrow> pyval" where
  "turn_answer st = (case dict_of st of None \<Rightarrow> NoneV | Some d \<Rightarrow> dget d ''response'')"

definition relay_answers :: "step_record \<Rightarrow> pyval list" where
  "relay_answers rec = (case dget (st_dict rec) ''steps'' of ListV sts \<Rightarrow> map turn_answer sts | _ \<Rightarrow> [])"

definition converged :: "step_record \<Rightarrow> bool" where
  "converged rec \<longleftrightarrow> dget (st_dict rec) ''converged'' = BoolV True"

definition polish :: "step_record \<Rightarrow> pystr \<Rightarrow> pystr" where
  "polish rec draft = foldl next_draft draft (relay_answers rec)"

lemma relay_step_reads [simp]:
  "relay_answers (relay_step r sts c) = map turn_answer sts" "converged (relay_step r sts c) = c"
  by (simp_all add: relay_answers_def converged_def relay_step_def plain_step_def dget_def)

lemma turn_answer_step [simp]: "turn_answer (DictV (agent_step i n v)) = v"
  by (simp add: turn_answer_def agent_step_def dget_def)

lemma relay_turns_spec:
  "relay_turns h prompt timeout mc i names draft s = Some (Inr (steps, fin), s') \<Longrightarrow>
     fin = foldl next_draft draft (map turn_answer steps) \<and> length steps = length names"
  by (induction names arbitrary: i draft s steps) (auto simp: act_rules split: prod.splits)

text \<open>The \<open>i\<close>-th round of a relay over \<open>names\<close> started from \<open>draft\<close>.\<close>

definition relay_round_ok :: "pystr list \<Rightarrow> pystr \<Rightarrow> step_record list \<Rightarrow> nat \<Rightarrow> bool" where
  "relay_round_ok names draft recs i \<longleftrightarrow>
     length (relay_answers (recs ! i)) = length names
     \<and> (converged (recs ! i) \<longleftrightarrow> fold polish (take (Suc i) recs) draft = fold polish (take i recs) draft)
     \<and> (converged (recs ! i) \<longrightarrow> Suc i = length recs)"

lemma relay_round_ok_Suc: "relay_round_ok names draft (rec # recs) (Suc i) = relay_round_ok names (polish rec draft) recs i"
  by (simp add: relay_round_ok_def)

lemma relay_rounds_spec:
  assumes "relay_rounds n h prompt timeout mc names r draft s = Some (Inr (recs, fin), s')"
  shows "fin = fold polish recs draft \<and> length recs \<le> n \<and> (n > 0 \<longrightarrow> recs \<noteq> [])
    \<and> (\<forall>i < length recs. relay_round_ok names draft recs i) \<and> (length recs < n \<longrightarrow> converged (last recs))"
  using assms
proof (induction n arbitrary: r draft s recs)
  case 0
  then show ?case by (simp add: act_rules)
next
  case (Suc n)
  then obtain sts d1 s1 where t: "relay_turns h prompt timeout mc 1 names draft s = Some (Inr (sts, d1), s1)"
    and rest: "(if d1 = draft then ret ([relay_step r sts True], d1)
        else andthen (relay_rounds n h prompt timeout mc names (Suc r) d1)
          (\<lambda>(records, fin). ret (relay_step r sts False # records, fin))) s1 = Some (Inr (recs, fin), s')"
    by (auto simp: andthen_Inr)
  have sts: "d1 = foldl next_draft draft (map turn_answer sts)" "length sts = length names"
    using relay_turns_spec [OF t] by blast+
  have one: "polish (relay_step r sts c) draft = d1" for c using sts(1) by (simp add: polish_def)
  show ?case
  proof (cases "d1 = draft")
    case True
    then have "recs = [relay_step r sts True]" "fin = draft" using rest by (simp_all add: act_rules)
    moreover have "polish (relay_step r sts True) draft = draft" using one [of True] True by simp
    ultimately show ?thesis using sts(2) by (simp add: relay_round_ok_def)
  next
    case False
    with rest obtain recs1 where
      rs: "relay_rounds n h prompt timeout mc names (Suc r) d1 s1 = Some (Inr (recs1, fin), s')"
      and recs: "recs = relay_step r sts False # recs1"
      by (auto simp: act_rules split: prod.splits)
    from Suc.IH [OF rs] have ih: "fin = fold polish recs1 d1" "length recs1 \<le> n" "n > 0 \<longrightarrow> recs1 \<noteq> []"
      "\<forall>i < length recs1. relay_round_ok names d1 recs1 i" "length recs1 < n \<longrightarrow> converged (last recs1)"
      by blast+
    have "relay_round_ok names draft recs i" if "i < length recs" for i
    proof (cases i)
      case 0
      with one [of False] False sts(2) show ?thesis by (simp add: recs relay_round_ok_def)
    next
      case (Suc j)
      with that ih(4) one [of False] show ?thesis by (simp add: recs relay_round_ok_Suc)
    qed
    moreover have "length recs < Suc n \<longrightarrow> converged (last recs)"
      using ih(3,5) by (simp add: recs)
    moreover have "fin = fold polish recs draft" using ih(1) one [of False] by (simp add: recs)
    ultimately show ?thesis using ih(2) by (simp add: recs)
  qed
qed

text \<open>
  C35. The relay stops exactly when a round changes nothing: a relay that returns did at least one and at
  most \<open>max(1, rounds)\<close> rounds, in each every agent took one turn; its final draft is the prompt
  replaced turn by turn by the answers that are no errors; a round is marked converged when it left
  the draft as it was; only the last one is, and it is when rounds were left over.
\<close>

theorem relay_converges:
  assumes "run_relay h prompt k s = Some (Inr res, s')"
    and names: "names = (if op_order k = [] then agent_names (rt_coord s) else op_order k)"
  shows "\<exists>n. round_count 2 (op_rounds k) = Inr n
    \<and> 0 < length (sr_rounds res) \<and> length (sr_rounds res) \<le> n
    \<and> sr_final res = fold polish (sr_rounds res) prompt
    \<and> (\<forall>i < length (sr_rounds res). relay_round_ok names prompt (sr_rounds res) i)
    \<and> (length (sr_rounds res) < n \<longrightarrow> converged (last (sr_rounds res)))"
proof -
  obtain n mc recs fin s1 s2 where
    r: "round_count 2 (op_rounds k) = Inr n"
      "relay_rounds n h prompt (op_timeout k) mc names 1 prompt s1 = Some (Inr (recs, fin), s2)"
    and res: "sr_rounds res = recs" "sr_final res = fin"
    using assms(1) unfolding run_relay_def team_def Let_def andthen_Inr act_Inr
    by (auto simp: names start_time_def max_chars_def unknown_agents_def conclude_def act_rules
        simp del: if_split split: prod.splits)
  have n: "0 < n" using r(1) by (auto simp: round_count_def map_sum_Inr_iff)
  from relay_rounds_spec [OF r(2)] n have
    "fin = fold polish recs prompt" "length recs \<le> n" "recs \<noteq> []"
    "\<forall>i < length recs. relay_round_ok names prompt recs i" "length recs < n \<longrightarrow> converged (last recs)"
    by blast+
  with r(1) show ?thesis unfolding res by (intro exI [of _ n]) simp
qed

text \<open>How many votes name a candidate.\<close>

definition tally :: "pystr list \<Rightarrow> pyval list \<Rightarrow> pystr \<Rightarrow> nat" where
  "tally names votes c = length (filter (\<lambda>v. parse_vote v names = Some c) votes)"

lemma count_votes_get:
  "map_of (count_votes names votes) c = (if c \<noteq> [] \<and> 0 < tally names votes c then Some (tally names votes c) else None)"
proof (induction votes rule: rev_induct)
  case Nil
  then show ?case by (simp add: count_votes_def tally_def)
next
  case (snoc v votes)
  have step: "count_votes names (votes @ [v]) = count_vote names v (count_votes names votes)"
    by (simp add: count_votes_def)
  show ?case
  proof (cases "parse_vote v names")
    case None
    with snoc step show ?thesis by (simp add: count_vote_def tally_def)
  next
    case (Some w)
    show ?thesis
    proof (cases "w = c")
      case True
      with snoc step Some show ?thesis by (auto simp: count_vote_def tally_def update_conv)
    next
      case False
      with snoc step Some show ?thesis by (auto simp: count_vote_def tally_def update_conv)
    qed
  qed
qed

lemma count_votes_distinct: "distinct (dkeys (count_votes names votes))"
proof -
  have "distinct (dkeys d) \<Longrightarrow> distinct (dkeys (fold (count_vote names) votes d))" for d
    by (induction votes arbitrary: d) (auto simp: count_vote_def distinct_update simp del: set_map split: option.splits)
  from this [of "[]"] show ?thesis by (simp add: count_votes_def)
qed

lemma majority_iff:
  assumes "distinct (dkeys counts)"
  shows "majority counts = Some w \<longleftrightarrow>
    (\<exists>n. map_of counts w = Some n \<and> (\<forall>c m. map_of counts c = Some m \<longrightarrow> c \<noteq> w \<longrightarrow> m < n))"
proof -
  let ?xs = "most_common counts"
  have ms: "mset ?xs = mset counts" by (simp add: most_common_def)
  have set: "set ?xs = set counts" using ms by (rule mset_eq_setD)
  have dist: "distinct (dkeys ?xs)"
    using assms mset_eq_imp_distinct_iff [of "dkeys ?xs" "dkeys counts"] ms by (simp del: set_map add: mset_map)
  have look: "map_of counts c = Some m \<longleftrightarrow> (c, m) \<in> set ?xs" for c m
    using assms set by (simp add: map_of_eq_Some_iff)
  have ord: "sorted (map (\<lambda>(w, n). - int n) ?xs)" by (simp add: most_common_def)
  show ?thesis
  proof (cases ?xs)
    case Nil
    then show ?thesis by (simp add: majority_def look)
  next
    case (Cons p rest)
    obtain a n where p: "p = (a, n)" by fastforce
    show ?thesis
    proof (cases rest)
      case Nil
      with Cons p show ?thesis by (auto simp: majority_def look)
    next
      case Cons2: (Cons q rest')
      obtain b m where q: "q = (b, m)" by fastforce
      have le: "m \<le> n" "\<And>c k. (c, k) \<in> set rest' \<Longrightarrow> k \<le> m"
        using ord Cons Cons2 p q by auto
      have ab: "a \<noteq> b" using dist Cons Cons2 p q by auto
      have maj: "majority counts = (if n > m then Some a else None)"
        using Cons Cons2 p q by (simp add: majority_def)
      have mem: "map_of counts c = Some k \<longleftrightarrow> (c, k) = (a, n) \<or> (c, k) = (b, m) \<or> (c, k) \<in> set rest'" for c k
        using look Cons Cons2 p q by simp
      show ?thesis
      proof
        assume "majority counts = Some w"
        then have w: "w = a" "m < n" using maj by (auto split: if_splits)
        have "k < n" if "map_of counts c = Some k" "c \<noteq> w" for c k
          using that w le(2) [of c k] by (auto simp: mem)
        then show "\<exists>n. map_of counts w = Some n \<and> (\<forall>c m. map_of counts c = Some m \<longrightarrow> c \<noteq> w \<longrightarrow> m < n)"
          using w(1) mem by blast
      next
        assume "\<exists>n. map_of counts w = Some n \<and> (\<forall>c m. map_of counts c = Some m \<longrightarrow> c \<noteq> w \<longrightarrow> m < n)"
        then obtain k where k: "map_of counts w = Some k"
          "\<And>c j. map_of counts c = Some j \<Longrightarrow> c \<noteq> w \<Longrightarrow> j < k" by blast
        have top: "k \<le> n" using k(1) le by (auto simp: mem dest: order_trans)
        have "w = a" using k(2) [of a n] top mem [of a n] by fastforce
        moreover have "m < n" using k(2) [of b m] mem [of b m] ab \<open>w = a\<close> top by auto
        ultimately show "majority counts = Some w" by (simp add: maj)
      qed
    qed
  qed
qed

text \<open>Whom the votes elect.\<close>

definition elected :: "pystr list \<Rightarrow> pyval list \<Rightarrow> pystr \<Rightarrow> bool" where
  "elected names votes w \<longleftrightarrow>
     w \<noteq> [] \<and> 0 < tally names votes w
     \<and> (\<forall>c \<in> set names. c \<noteq> [] \<longrightarrow> c \<noteq> w \<longrightarrow> tally names votes c < tally names votes w)"

lemma parse_vote_candidate: "parse_vote v names = Some c \<Longrightarrow> c \<in> set names"
  by (auto simp: parse_vote_def Let_def find_Some_iff split: option.splits)

lemma tally_candidate: "0 < tally names votes c \<Longrightarrow> c \<in> set names"
  by (auto simp: tally_def filter_empty_conv dest: parse_vote_candidate)

lemma majority_votes: "majority (count_votes names votes) = Some w \<longleftrightarrow> elected names votes w"
proof -
  have "majority (count_votes names votes) = Some w \<longleftrightarrow>
     w \<noteq> [] \<and> 0 < tally names votes w
     \<and> (\<forall>c. c \<noteq> [] \<longrightarrow> 0 < tally names votes c \<longrightarrow> c \<noteq> w \<longrightarrow> tally names votes c < tally names votes w)"
    unfolding majority_iff [OF count_votes_distinct] count_votes_get by (auto split: if_splits)
  also have "\<dots> \<longleftrightarrow> elected names votes w"
    unfolding elected_def using tally_candidate [of names votes] by (metis gr0I)
  finally show ?thesis .
qed

lemma elected_unique: "elected names votes w \<Longrightarrow> elected names votes w' \<Longrightarrow> w = w'"
  using majority_votes [of names votes w] majority_votes [of names votes w'] by simp


section \<open>Witnesses\<close>

definition plain_opts :: opts where
  "plain_opts =
     \<lparr>op_rounds = None, op_judge = None, op_order = [], op_supervisor = None, op_workers = [], op_timeout = Some 5\<rparr>"

text \<open>A run under a budget of four calls.\<close>

definition budget_rt :: "unit rt" where
  "budget_rt =
     sample_rt\<lparr>rt_budgets := [new_budget 0 (Some 4) None None None None],
               rt_budget_var := snd (cv_set (Some 0) cvar_empty)\<rparr>"

lemma sample_broadcast: "returns (run_strategy sample_host (u ''Broadcast'') (u ''q'') plain_opts budget_rt)"
  by code_simp

lemma sample_rounds: "returns (run_broadcast sample_host (u ''q'') (plain_opts\<lparr>op_rounds := Some (IntV 2)\<rparr>) sample_rt)"
  by code_simp

lemma sample_relay: "returns (run_relay sample_host (u ''q'') (plain_opts\<lparr>op_rounds := Some (IntV 5)\<rparr>) sample_rt)"
  by code_simp

theorem strategies_within_budget_witness:
  "\<exists>r s'. run_strategy sample_host (u ''Broadcast'') (u ''q'') plain_opts budget_rt = Some (Inr r, s')
     \<and> map b_max_calls (rt_budgets s') = [Some 4]"
proof -
  obtain r s' where
    e: "run_strategy sample_host (u ''Broadcast'') (u ''q'') plain_opts budget_rt = Some (Inr r, s')"
    using returnsD [OF sample_broadcast] by blast
  have "budgets_ok None 0 budget_rt"
    by (simp add: budgets_ok_def budget_rt_def sample_rt_def slots_ok_def new_budget_def)
  from strategies_within_budget [OF e this] have "map b_max_calls (rt_budgets s') = [Some 4]"
    by (simp add: budget_rt_def sample_rt_def new_budget_def)
  then show ?thesis by (intro exI conjI) (rule e, assumption?)
qed

theorem broadcast_complete_witness:
  "\<exists>res s'. run_broadcast sample_host (u ''q'') (plain_opts\<lparr>op_rounds := Some (IntV 2)\<rparr>) sample_rt = Some (Inr res, s')
     \<and> length (sr_rounds res) = 2"
proof -
  obtain r s' where
    e: "run_broadcast sample_host (u ''q'') (plain_opts\<lparr>op_rounds := Some (IntV 2)\<rparr>) sample_rt = Some (Inr r, s')"
    using returnsD [OF sample_rounds] by blast
  have "distinct (agent_names (rt_coord sample_rt))"
    by (simp add: agent_names_def sample_rt_def sample_coord_def)
  from broadcast_complete [OF e this] have "length (sr_rounds r) = 2" by (simp add: round_count_def)
  with e show ?thesis by blast
qed

theorem relay_converges_witness:
  "\<exists>res s'. run_relay sample_host (u ''q'') (plain_opts\<lparr>op_rounds := Some (IntV 5)\<rparr>) sample_rt = Some (Inr res, s')
     \<and> sr_final res = fold polish (sr_rounds res) (u ''q'') \<and> length (sr_rounds res) \<le> 5"
proof -
  obtain r s' where
    e: "run_relay sample_host (u ''q'') (plain_opts\<lparr>op_rounds := Some (IntV 5)\<rparr>) sample_rt = Some (Inr r, s')"
    using returnsD [OF sample_relay] by blast
  from relay_converges [OF this refl] have
    "sr_final r = fold polish (sr_rounds r) (u ''q'') \<and> length (sr_rounds r) \<le> 5"
    by (auto simp: round_count_def plain_opts_def)
  with e show ?thesis by blast
qed


end
