(* ===== verification/Coordinator.thy ===== *)
theory Coordinator
  imports Strategies
begin

text \<open>
  \<open>AgentCoordinator\<close> of \<open>coordinator.py\<close>: the agent registry, the response cache switch, and \<open>run\<close> with
  the trace, deadline and budget it installs around a strategy. A trace is an object of \<open>rt_traces\<close>,
  a new one at the end of the list; the registry of runs keeps it as it is when it is recorded.
\<close>

section \<open>The registry of agents\<close>

text \<open>A registered agent is a new object, which has no health counters yet.\<close>

definition register_agent :: "'w agent \<Rightarrow> bool \<Rightarrow> 'w coord \<Rightarrow> exn + 'w coord" where
  "register_agent a replace c =
     (let name = a_name (base_of a)
      in if get_agent name c \<noteq> None \<and> \<not> replace
         then Inl (Exn CValueError (u ''agent '' @ quoted name @ u '' already registered''))
         else Inr (c\<lparr>co_agents := AList.update name a (co_agents c),
                     co_health := AList.delete name (co_health c)\<rparr>))"

definition unregister_agent :: "pystr \<Rightarrow> 'w coord \<Rightarrow> 'w coord" where
  "unregister_agent name c =
     c\<lparr>co_agents := AList.delete name (co_agents c), co_health := AList.delete name (co_health c)\<rparr>"

definition new_coordinator ::
    "store option \<Rightarrow> real \<Rightarrow> policy option \<Rightarrow> bool \<Rightarrow> limits option \<Rightarrow> 'w coord" where
  "new_coordinator memory timeout pol use_cache budget =
     \<lparr>co_agents = [], co_health = [],
      co_memory = (case memory of None \<Rightarrow> new_store None None | Some m \<Rightarrow> m), co_timeout = timeout,
      co_policy = pol, co_cache = use_cache, co_budget = budget, co_runs = new_registry 100\<rparr>"

text \<open>\<open>_apply_cache\<close>: the provider agents, a chain having none of its own.\<close>

definition set_caching :: "bool \<Rightarrow> 'w core \<Rightarrow> 'w core" where
  "set_caching enabled a =
     (if a_provider a = None then a
      else a\<lparr>a_cache := enabled,
             a_store := (if enabled \<and> a_store a = None then Some fresh_cache else a_store a)\<rparr>)"

fun on_core :: "('w core \<Rightarrow> 'w core) \<Rightarrow> 'w agent \<Rightarrow> 'w agent" where
  "on_core f (Plain c) = Plain (f c)"
| "on_core f (Chain c bs) = Chain (f c) bs"

definition apply_cache :: "bool \<Rightarrow> 'w coord \<Rightarrow> 'w coord" where
  "apply_cache enabled c =
     c\<lparr>co_agents := map (\<lambda>(n, a). (n, on_core (set_caching enabled) a)) (co_agents c)\<rparr>"

definition auto_strategy :: "'w coord \<Rightarrow> pystr" where
  "auto_strategy c =
     (let names = agent_names c
      in if length names = 1 then u ''broadcast''
         else if u ''supervisor'' \<in> set names then u ''supervisor'' else u ''debate'')"

section \<open>The arguments of a run\<close>

text \<open>\<open>context\<close> is a policy object or a dictionary, \<open>budget\<close> a budget object that exists or an option to
  make one of; \<open>run_timeout\<close> is the outcome of \<open>float\<close> on it. \<open>ra_timeout\<close> is \<open>None\<close> when no
  time-out was passed.\<close>

datatype context_arg = PolicyArg policy | DictArg "(pystr \<times> pyval) list"

datatype run_budget = Shared nat | Option budget_arg

record run_args =
  ra_context :: "context_arg option"
  ra_cache :: "pyval option"
  ra_session :: "pystr option"
  ra_run_timeout :: "(exn + real) option"
  ra_budget :: run_budget
  ra_timeout :: "real option option"
  ra_opts :: opts

definition budget_option :: "'w coord \<Rightarrow> run_budget \<Rightarrow> run_budget" where
  "budget_option c b =
     (case b of
        Option NoBudget \<Rightarrow> (case co_budget c of None \<Rightarrow> b | Some l \<Rightarrow> Option (Limits l))
      | _ \<Rightarrow> b)"

text \<open>The budget of the run: an object that is there, or a new one.\<close>

definition run_budget_of :: "'w host \<Rightarrow> run_args \<Rightarrow> (nat option, 'w) act" where
  "run_budget_of h ra = (\<lambda>s.
     case budget_option (rt_coord s) (ra_budget ra) of
       Shared i \<Rightarrow> Some (Inr (Some i), s)
     | Option arg \<Rightarrow>
         (case as_budget (x_clock (ho_x h) (rt_world s)) arg of
            Inl e \<Rightarrow> Some (Inl e, s)
          | Inr None \<Rightarrow> Some (Inr None, s)
          | Inr (Some b) \<Rightarrow> Some (Inr (Some (length (rt_budgets s))), s\<lparr>rt_budgets := rt_budgets s @ [b]\<rparr>)))"

definition unordered :: exn where
  "unordered = Exn CTypeError (quoted (u ''<'') @ u '' not supported between instances'')"

definition run_seconds :: "nat option \<Rightarrow> run_args \<Rightarrow> 'w rt \<Rightarrow> exn + (exn + real) option" where
  "run_seconds br ra s =
     (case Option.bind br (\<lambda>i. b_max_seconds (rt_budgets s ! i)) of
        None \<Rightarrow> Inr (ra_run_timeout ra)
      | Some m \<Rightarrow>
          (case ra_run_timeout ra of
             None \<Rightarrow> Inr (Some (Inr m))
           | Some (Inl e) \<Rightarrow> Inl unordered
           | Some (Inr t) \<Rightarrow> Inr (Some (Inr (min t m)))))"

definition new_policy :: "context_arg option \<Rightarrow> policy option \<Rightarrow> exn + policy option" where
  "new_policy arg old =
     (case arg of
        None \<Rightarrow> Inr old
      | Some (PolicyArg p) \<Rightarrow> Inr (Some p)
      | Some (DictArg d) \<Rightarrow> from_dict (Some d))"

definition on_coord :: "('w coord \<Rightarrow> 'w coord) \<Rightarrow> 'w rt \<Rightarrow> 'w rt" where
  "on_coord f s = s\<lparr>rt_coord := f (rt_coord s)\<rparr>"

definition switch_cache :: "pyval option \<Rightarrow> 'w coord \<Rightarrow> 'w coord" where
  "switch_cache arg c =
     (case arg of None \<Rightarrow> c | Some v \<Rightarrow> apply_cache (truthy v) (c\<lparr>co_cache := truthy v\<rparr>))"

section \<open>A run\<close>

text \<open>The inner \<open>finally\<close>: budget, deadline, trace, in this order.\<close>

definition restore_run :: "nat option \<Rightarrow> nat option \<Rightarrow> nat \<Rightarrow> 'w rt \<Rightarrow> exn option \<times> 'w rt" where
  "restore_run btok dtok ttok s =
     (case end_run_budget btok (rt_budget_var s) of
        Inl e \<Rightarrow> (Some e, s)
      | Inr bv \<Rightarrow>
          (case end_run_deadline dtok (rt_deadline_var s) of
             Inl e \<Rightarrow> (Some e, s\<lparr>rt_budget_var := bv\<rparr>)
           | Inr dv \<Rightarrow>
               (case restore_trace ttok (rt_trace_var s) of
                  Inl e \<Rightarrow> (Some e, s\<lparr>rt_budget_var := bv, rt_deadline_var := dv\<rparr>)
                | Inr tv \<Rightarrow> (None, s\<lparr>rt_budget_var := bv, rt_deadline_var := dv, rt_trace_var := tv\<rparr>))))"

text \<open>\<open>trace.finish(...)\<close> and \<open>self.runs.record(trace)\<close>.\<close>

definition end_trace :: "'w host \<Rightarrow> nat \<Rightarrow> pystr option \<Rightarrow> 'w rt \<Rightarrow> 'w rt" where
  "end_trace h i error s =
     (let s1 = on_trace (Some i) (finish_trace (x_stamp (ho_x h) (rt_world s)) error) s
      in on_coord (\<lambda>c. c\<lparr>co_runs := record_run (rt_traces s1 ! i) (co_runs c)\<rparr>) s1)"

definition with_meta :: "'w host \<Rightarrow> nat \<Rightarrow> nat option \<Rightarrow> 'w rt \<Rightarrow> strat_result \<Rightarrow> strat_result" where
  "with_meta h i br s res =
     res\<lparr>sr_meta := (sr_meta res)
           \<lparr>mt_run_id := Some (tr_run_id (rt_traces s ! i)),
            mt_budget := map_option (\<lambda>b. budget_snapshot (x_clock (ho_x h) (rt_world s)) (rt_budgets s ! b)) br\<rparr>\<rparr>"

text \<open>What follows the strategy, given what it returned or raised.\<close>

definition close_run ::
    "'w host \<Rightarrow> nat \<Rightarrow> nat option \<Rightarrow> nat option \<Rightarrow> nat option \<Rightarrow> nat \<Rightarrow> exn + strat_result \<Rightarrow> 'w rt
     \<Rightarrow> (exn + strat_result) \<times> 'w rt" where
  "close_run h i br btok dtok ttok out s =
     (case restore_run btok dtok ttok s of
        (Some e, s1) \<Rightarrow> (Inl e, end_trace h i (Some (exc_msg e)) s1)
      | (None, s1) \<Rightarrow>
          (case out of
             Inl e \<Rightarrow> (Inl e, end_trace h i (Some (exc_msg e)) s1)
           | Inr res \<Rightarrow>
               (let s2 = on_trace (Some i) (tasks_from_rounds (map (\<lambda>r. DictV (st_dict r)) (sr_rounds res))) s1
                in (Inr (with_meta h i br s2 res), end_trace h i None s2))))"

definition traced_run ::
    "'w host \<Rightarrow> pystr \<Rightarrow> pystr \<Rightarrow> pystr option \<Rightarrow> nat option \<Rightarrow> (exn + real) option \<Rightarrow> opts
     \<Rightarrow> (strat_result, 'w) act" where
  "traced_run h prompt strategy session br seconds k = (\<lambda>s.
     let x = ho_x h; w = rt_world s; i = length (rt_traces s);
         t = new_trace i (x_uuid x w) (x_stamp x w) (x_clock x w) prompt strategy session;
         (ttok, tv) = activate_trace (Some i) (rt_trace_var s);
         s1 = s\<lparr>rt_traces := rt_traces s @ [t], rt_trace_var := tv\<rparr>
     in case start_run_deadline (x_clock x w) seconds (rt_deadline_var s1) of
          Inl e \<Rightarrow> Some (Inl e, s1)
        | Inr (dtok, dv) \<Rightarrow>
            (case start_run_budget br (rt_budget_var s1) of
               (btok, bv) \<Rightarrow>
                 (case run_strategy h strategy prompt k (s1\<lparr>rt_deadline_var := dv, rt_budget_var := bv\<rparr>) of
                    None \<Rightarrow> None
                  | Some (out, s2) \<Rightarrow> Some (close_run h i br btok dtok ttok out s2))))"

definition coordinator_run :: "'w host \<Rightarrow> pystr \<Rightarrow> pystr \<Rightarrow> run_args \<Rightarrow> (strat_result, 'w) act" where
  "coordinator_run h prompt strategy ra =
     andthen (run_budget_of h ra) (\<lambda>br.
     andthen (reads (run_seconds br ra)) (\<lambda>secs.
     andthen (checked secs) (\<lambda>seconds.
     andthen (reads (\<lambda>s. new_policy (ra_context ra) (co_policy (rt_coord s)))) (\<lambda>pol.
     andthen (checked pol) (\<lambda>policy.
     andthen (does (on_coord (\<lambda>c. switch_cache (ra_cache ra) (c\<lparr>co_policy := policy\<rparr>)))) (\<lambda>_.
     andthen (reads rt_coord) (\<lambda>c.
     andthen (guarded (co_agents c = []) (Exn CRuntimeError (u ''no agents registered''))) (\<lambda>_.
     traced_run h prompt (if py_lower strategy = u ''auto'' then auto_strategy c else strategy)
       (ra_session ra) br seconds
       ((ra_opts ra)\<lparr>op_timeout := (case ra_timeout ra of None \<Rightarrow> Some (co_timeout c) | Some t \<Rightarrow> t)\<rparr>)))))))))"

section \<open>Lemmas\<close>

definition context_ok :: "'w rt \<Rightarrow> bool" where
  "context_ok s \<longleftrightarrow> cvar_ok (rt_trace_var s) \<and> cvar_ok (rt_deadline_var s) \<and> cvar_ok (rt_budget_var s)"

text \<open>Traces are told apart by their place, and only traces that exist were recorded.\<close>

definition traces_ok :: "'w rt \<Rightarrow> bool" where
  "traces_ok s \<longleftrightarrow>
     map tr_obj (rt_traces s) = [0..<length (rt_traces s)]
     \<and> set (rg_recorded (co_runs (rt_coord s))) \<subseteq> {..<length (rt_traces s)}"

text \<open>The same value for whoever reads the variables.\<close>

definition same_context :: "'w rt \<Rightarrow> 'w rt \<Rightarrow> bool" where
  "same_context s s' \<longleftrightarrow>
     current_trace (rt_trace_var s') = current_trace (rt_trace_var s)
     \<and> run_deadline (rt_deadline_var s') = run_deadline (rt_deadline_var s)
     \<and> current_budget (rt_budget_var s') = current_budget (rt_budget_var s)"

lemma end_trace_vars [simp]:
  "rt_trace_var (end_trace h i e s) = rt_trace_var s" "rt_deadline_var (end_trace h i e s) = rt_deadline_var s"
  "rt_budget_var (end_trace h i e s) = rt_budget_var s"
  by (simp_all add: end_trace_def on_coord_def on_trace_def Let_def)

lemma on_trace_vars [simp]:
  "rt_trace_var (on_trace tr k s) = rt_trace_var s" "rt_deadline_var (on_trace tr k s) = rt_deadline_var s"
  "rt_budget_var (on_trace tr k s) = rt_budget_var s" "rt_coord (on_trace tr k s) = rt_coord s"
  "length (rt_traces (on_trace tr k s)) = length (rt_traces s)"
  by (simp_all add: on_trace_def split: option.splits)

text \<open>How a traced run comes about: what the strategy did in the installed context, and the end.\<close>

lemma traced_run_cases:
  assumes "traced_run h prompt strategy session br seconds k s = Some (r, s')"
  obtains (no_deadline) e where "seconds = Some (Inl e)" "r = Inl e" "rt_budgets s' = rt_budgets s"
  | (ran) t ttok tv dtok dv btok bv out s2 where
      "t = new_trace (length (rt_traces s)) (x_uuid (ho_x h) (rt_world s)) (x_stamp (ho_x h) (rt_world s))
             (x_clock (ho_x h) (rt_world s)) prompt strategy session"
      "activate_trace (Some (length (rt_traces s))) (rt_trace_var s) = (ttok, tv)"
      "start_run_deadline (x_clock (ho_x h) (rt_world s)) seconds (rt_deadline_var s) = Inr (dtok, dv)"
      "start_run_budget br (rt_budget_var s) = (btok, bv)"
      "run_strategy h strategy prompt k
         (s\<lparr>rt_traces := rt_traces s @ [t], rt_trace_var := tv, rt_deadline_var := dv, rt_budget_var := bv\<rparr>)
       = Some (out, s2)"
      "(r, s') = close_run h (length (rt_traces s)) br btok dtok ttok out s2"
proof -
  let ?i = "length (rt_traces s)" and ?w = "rt_world s"
  define t where "t = new_trace ?i (x_uuid (ho_x h) ?w) (x_stamp (ho_x h) ?w) (x_clock (ho_x h) ?w) prompt strategy session"
  obtain ttok tv where a: "activate_trace (Some ?i) (rt_trace_var s) = (ttok, tv)" by fastforce
  obtain btok bv where b: "start_run_budget br (rt_budget_var s) = (btok, bv)" by fastforce
  show thesis
  proof (cases "start_run_deadline (x_clock (ho_x h) ?w) seconds (rt_deadline_var s)")
    case (Inl e)
    then have "seconds = Some (Inl e)" by (auto simp: start_run_deadline_def split: option.splits sum.splits prod.splits)
    moreover have "r = Inl e" using assms a Inl by (simp add: traced_run_def Let_def)
    moreover have "rt_budgets s' = rt_budgets s" using assms a Inl by (auto simp: traced_run_def Let_def)
    ultimately show thesis by (rule no_deadline)
  next
    case (Inr p)
    obtain dtok dv where d: "start_run_deadline (x_clock (ho_x h) ?w) seconds (rt_deadline_var s) = Inr (dtok, dv)"
      using Inr by (cases p) simp
    let ?s = "s\<lparr>rt_traces := rt_traces s @ [t], rt_trace_var := tv, rt_deadline_var := dv, rt_budget_var := bv\<rparr>"
    obtain out s2 where o: "run_strategy h strategy prompt k ?s = Some (out, s2)"
      and c: "(r, s') = close_run h ?i br btok dtok ttok out s2"
      using assms a b d by (auto simp: traced_run_def Let_def t_def split: option.splits)
    show thesis by (rule ran [OF t_def a d b o c])
  qed
qed

lemma restore_run_spec:
  assumes "cvar_ok (rt_trace_var s)" "cvar_ok (rt_deadline_var s)" "cvar_ok (rt_budget_var s)"
    "activate_trace v (rt_trace_var s) = (ttok, tv)" "start_run_deadline now secs (rt_deadline_var s) = Inr (dtok, dv)"
    "start_run_budget br (rt_budget_var s) = (btok, bv)"
    "rt_trace_var s2 = tv" "rt_deadline_var s2 = dv" "rt_budget_var s2 = bv"
  shows "\<exists>s3. restore_run btok dtok ttok s2 = (None, s3) \<and> same_context s s3 \<and> context_ok s3
    \<and> s3\<lparr>rt_trace_var := tv, rt_deadline_var := dv, rt_budget_var := bv\<rparr> = s2"
proof -
  obtain c1 where c1: "restore_trace ttok tv = Inr c1" "current_trace c1 = current_trace (rt_trace_var s)" "cvar_ok c1"
    using trace_var.bracket [OF assms(1)] assms(4) by force
  obtain c2 where c2: "end_run_deadline dtok dv = Inr c2" "run_deadline c2 = run_deadline (rt_deadline_var s)" "cvar_ok c2"
    using deadline_var.bracket [of _ "(now, secs)", OF assms(2)] assms(5) by force
  obtain c3 where c3: "end_run_budget btok bv = Inr c3" "current_budget c3 = current_budget (rt_budget_var s)" "cvar_ok c3"
    using budget_var.bracket [OF assms(3)] assms(6) by force
  show ?thesis
    using c1 c2 c3 assms(7-9)
    by (intro exI [of _ "s2\<lparr>rt_budget_var := c3, rt_deadline_var := c2, rt_trace_var := c1\<rparr>"])
      (auto simp: restore_run_def same_context_def context_ok_def)
qed

text \<open>A trace closed with the result of its run.\<close>

definition closes :: "trace \<Rightarrow> exn + strat_result \<Rightarrow> bool" where
  "closes t r \<longleftrightarrow>
     tr_finished_at t \<noteq> None
     \<and> (case r of
          Inl e \<Rightarrow> tr_error t = Some (exc_msg e) \<and> tr_status t = (if exc_msg e = [] then u ''ok'' else u ''error'')
        | Inr res \<Rightarrow> tr_error t = None \<and> tr_status t = u ''ok'' \<and> mt_run_id (sr_meta res) = Some (tr_run_id t))"

lemma trace_head_rounds [simp]: "trace_head (tasks_from_rounds rs t) = trace_head t"
proof -
  have "trace_head (fold (\<lambda>r t. case dict_of r of None \<Rightarrow> t | Some d \<Rightarrow> add_task (task_of_record d) t) rs t) = trace_head t"
    by (induction rs arbitrary: t) (simp_all split: option.splits)
  then show ?thesis by (simp add: tasks_from_rounds_def)
qed

lemma head_eq:
  assumes "trace_head t = trace_head t'"
  shows "tr_obj t = tr_obj t'" "tr_run_id t = tr_run_id t'" "tr_prompt t = tr_prompt t'"
    "tr_strategy t = tr_strategy t'" "tr_session t = tr_session t'" "tr_finished_at t = tr_finished_at t'"
  using trace_head_reads [of t] trace_head_reads [of t'] assms by simp_all

definition trace_names :: "trace \<Rightarrow> nat \<times> pystr \<times> pystr \<times> pystr \<times> pystr option" where
  "trace_names t = (tr_obj t, tr_run_id t, tr_prompt t, tr_strategy t, tr_session t)"

lemma finish_closes:
  assumes "tr_finished_at t = None"
  shows "tr_finished_at (finish_trace st err t) = Some st" "tr_error (finish_trace st err t) = err"
    "tr_status (finish_trace st err t) = (case err of None \<Rightarrow> u ''ok'' | Some e \<Rightarrow> if e = [] then u ''ok'' else u ''error'')"
    "trace_names (finish_trace st err t) = trace_names t"
  using assms by (simp_all add: finish_trace_def trace_names_def)

lemma end_trace_spec:
  assumes "i < length (rt_traces s)"
  shows "co_runs (rt_coord (end_trace h i err s))
      = record_run (finish_trace (x_stamp (ho_x h) (rt_world s)) err (rt_traces s ! i)) (co_runs (rt_coord s))"
    "rt_traces (end_trace h i err s)
      = (rt_traces s)[i := finish_trace (x_stamp (ho_x h) (rt_world s)) err (rt_traces s ! i)]"
  using assms by (simp_all add: end_trace_def on_trace_def on_coord_def)

lemma close_run_spec:
  assumes "restore_run btok dtok ttok s = (None, s1)" "rt_traces s1 = rt_traces s" "rt_coord s1 = rt_coord s"
    "i < length (rt_traces s)" "tr_finished_at (rt_traces s ! i) = None"
    "(r, s') = close_run h i br btok dtok ttok out s"
  shows "\<exists>t. co_runs (rt_coord s') = record_run t (co_runs (rt_coord s)) \<and> closes t r
      \<and> trace_names t = trace_names (rt_traces s ! i) \<and> rt_traces s' = (rt_traces s)[i := t]
      \<and> rt_trace_var s' = rt_trace_var s1 \<and> rt_deadline_var s' = rt_deadline_var s1
      \<and> rt_budget_var s' = rt_budget_var s1"
proof (cases out)
  case (Inl e)
  let ?t = "finish_trace (x_stamp (ho_x h) (rt_world s1)) (Some (exc_msg e)) (rt_traces s ! i)"
  have r: "r = Inl e" "s' = end_trace h i (Some (exc_msg e)) s1"
    using assms(1,6) Inl by (simp_all add: close_run_def)
  have "closes ?t r" using finish_closes [OF assms(5)] by (simp add: closes_def r)
  then show ?thesis
    using end_trace_spec [of i s1 h "Some (exc_msg e)"] assms(2-4) finish_closes(4) [OF assms(5)]
    by (intro exI [of _ ?t]) (simp add: r)
next
  case (Inr res)
  let ?rounds = "tasks_from_rounds (map (\<lambda>r. DictV (st_dict r)) (sr_rounds res))"
  define s2 where "s2 = on_trace (Some i) ?rounds s1"
  have r: "r = Inr (with_meta h i br s2 res)" "s' = end_trace h i None s2"
    using assms(1,6) Inr by (simp_all add: close_run_def s2_def Let_def)
  have s2: "rt_traces s2 = (rt_traces s)[i := ?rounds (rt_traces s ! i)]" "rt_coord s2 = rt_coord s"
    "rt_trace_var s2 = rt_trace_var s1" "rt_deadline_var s2 = rt_deadline_var s1" "rt_budget_var s2 = rt_budget_var s1"
    using assms(2-4) by (simp_all add: s2_def on_trace_def)
  let ?t1 = "?rounds (rt_traces s ! i)"
  let ?t = "finish_trace (x_stamp (ho_x h) (rt_world s2)) None ?t1"
  have fin: "tr_finished_at ?t1 = None" using assms(5) head_eq(6) [of ?t1 "rt_traces s ! i"] by simp
  have names: "trace_names ?t1 = trace_names (rt_traces s ! i)"
    using head_eq [of ?t1 "rt_traces s ! i"] by (simp add: trace_names_def)
  have "mt_run_id (sr_meta (with_meta h i br s2 res)) = Some (tr_run_id ?t1)"
    using assms(4) by (simp add: with_meta_def s2)
  moreover have "tr_run_id ?t = tr_run_id ?t1"
    using finish_closes(4) [OF fin, of "x_stamp (ho_x h) (rt_world s2)" None] by (simp add: trace_names_def)
  ultimately have "closes ?t r" using finish_closes [OF fin] by (simp add: closes_def r)
  then show ?thesis
    using end_trace_spec [of i s2 h None] assms(4) finish_closes(4) [OF fin] names
    by (intro exI [of _ ?t]) (simp add: r s2)
qed

lemma traced_run_spec:
  assumes "traced_run h prompt strategy session br seconds k s = Some (r, s')" "context_ok s"
    "\<And>e. seconds \<noteq> Some (Inl e)"
  shows "same_context s s' \<and> context_ok s'
    \<and> (\<exists>t. co_runs (rt_coord s') = record_run t (co_runs (rt_coord s)) \<and> closes t r
        \<and> trace_names t = (length (rt_traces s), x_uuid (ho_x h) (rt_world s), take 200 prompt, strategy, session)
        \<and> map tr_obj (rt_traces s') = map tr_obj (rt_traces s) @ [length (rt_traces s)])"
  using assms(1)
proof (cases rule: traced_run_cases)
  case (no_deadline e)
  with assms(3) show ?thesis by blast
next
  case (ran t ttok tv dtok dv btok bv out s2)
  let ?i = "length (rt_traces s)"
  let ?s = "s\<lparr>rt_traces := rt_traces s @ [t], rt_trace_var := tv, rt_deadline_var := dv, rt_budget_var := bv\<rparr>"
  have k: "frame ?s s2" using upholdsD [OF kept.strategy ran(5)] by (simp add: keeps_def)
  have vars: "rt_trace_var s2 = tv" "rt_deadline_var s2 = dv" "rt_budget_var s2 = bv"
    and runs: "co_runs (rt_coord s2) = co_runs (rt_coord s)"
    and heads: "map trace_head (rt_traces s2) = map trace_head (rt_traces s @ [t])"
    using k by (simp_all add: frame_def)
  from assms(2) obtain s3 where s3: "restore_run btok dtok ttok s2 = (None, s3)" "same_context s s3" "context_ok s3"
    "s3\<lparr>rt_trace_var := tv, rt_deadline_var := dv, rt_budget_var := bv\<rparr> = s2"
    using restore_run_spec [OF _ _ _ ran(2,3,4) vars] by (auto simp: context_ok_def)
  have same: "rt_traces s3 = rt_traces s2" "rt_coord s3 = rt_coord s2"
    using s3(4) by (simp_all flip: s3(4))
  have len: "length (rt_traces s2) = Suc ?i" using arg_cong [OF heads, of length] by simp
  have "trace_head (rt_traces s2 ! ?i) = trace_head t"
    using arg_cong [OF heads, of "\<lambda>xs. xs ! ?i"] len by (simp add: nth_append)
  note hd = head_eq [OF this]
  have fin: "tr_finished_at (rt_traces s2 ! ?i) = None" using hd(6) by (simp add: ran(1) new_trace_def)
  obtain t' where t': "co_runs (rt_coord s') = record_run t' (co_runs (rt_coord s2))" "closes t' r"
    "trace_names t' = trace_names (rt_traces s2 ! ?i)" "rt_traces s' = (rt_traces s2)[?i := t']"
    "rt_trace_var s' = rt_trace_var s3" "rt_deadline_var s' = rt_deadline_var s3" "rt_budget_var s' = rt_budget_var s3"
    using close_run_spec [OF s3(1) same _ fin ran(6)] len by auto
  have names: "trace_names t' = (?i, x_uuid (ho_x h) (rt_world s), take 200 prompt, strategy, session)"
    using t'(3) hd by (simp add: trace_names_def ran(1) new_trace_def)
  have "map tr_obj (rt_traces s2) = map tr_obj (rt_traces s @ [t])"
    using arg_cong [OF heads, of "map tr_obj"] by (simp add: o_def trace_head_reads)
  then have "map tr_obj (rt_traces s') = map tr_obj (rt_traces s) @ [?i]"
    using t'(4) names by (simp add: map_update ran(1) new_trace_def trace_names_def list_update_append)
  with t' s3(2,3) names runs show ?thesis by (auto simp: same_context_def context_ok_def)
qed

text \<open>What happens before the trace starts leaves the context, the traces and the registry of runs alone.\<close>

definition prepared :: "'w rt \<Rightarrow> 'w rt \<Rightarrow> bool" where
  "prepared s s' \<longleftrightarrow>
     rt_trace_var s' = rt_trace_var s \<and> rt_deadline_var s' = rt_deadline_var s \<and> rt_budget_var s' = rt_budget_var s
     \<and> rt_traces s' = rt_traces s \<and> rt_world s' = rt_world s
     \<and> co_runs (rt_coord s') = co_runs (rt_coord s)"

text \<open>The budget of the run, as it is when the run starts.\<close>

definition chosen_budget :: "'w host \<Rightarrow> run_args \<Rightarrow> 'w rt \<Rightarrow> nat option \<Rightarrow> 'w rt \<Rightarrow> bool" where
  "chosen_budget h ra s br s1 \<longleftrightarrow> (\<exists>s0. run_budget_of h ra s = Some (Inr br, s0) \<and> rt_budgets s1 = rt_budgets s0)"

lemma switch_cache_runs [simp]: "co_runs (switch_cache v c) = co_runs c"
  by (simp add: switch_cache_def apply_cache_def split: option.splits)

lemma andthen_cases:
  assumes "andthen m f s = Some (r, s')"
  obtains (stops) e where "m s = Some (Inl e, s')" "r = Inl e"
  | (goes) v s1 where "m s = Some (Inr v, s1)" "f v s1 = Some (r, s')"
  using assms that by (auto simp: andthen_def split: option.splits prod.splits sum.splits)

lemma coordinator_run_cases:
  assumes "coordinator_run h prompt strategy ra s = Some (r, s')"
  obtains (refused) e where "r = Inl e" "prepared s s'" "rt_budgets s' = rt_budgets s \<or> (\<exists>br. chosen_budget h ra s br s')"
  | (traced) s1 st br secs k where "prepared s s1"
      "traced_run h prompt st (ra_session ra) br secs k s1 = Some (r, s')"
      "\<And>e. secs = Some (Inl e) \<Longrightarrow> ra_run_timeout ra = Some (Inl e)"
      "st = strategy \<or> py_lower strategy = u ''auto''" "chosen_budget h ra s br s1"
proof -
  from assms [unfolded coordinator_run_def] show thesis
  proof (cases rule: andthen_cases)
    case (stops e)
    then have "prepared s s'" "rt_budgets s' = rt_budgets s"
      by (auto simp: run_budget_of_def prepared_def split: run_budget.splits sum.splits option.splits)
    with stops(2) show thesis by (auto intro: refused)
  next
    case (goes br s0)
    then have p0: "prepared s s0"
      by (auto simp: run_budget_of_def prepared_def split: run_budget.splits sum.splits option.splits)
    have b0: "chosen_budget h ra s br s0" using goes(1) by (simp add: chosen_budget_def)
    show thesis
    proof (cases "run_seconds br ra s0")
      case (Inl e)
      then have "r = Inl e" "s' = s0" using goes(2) by (simp_all add: andthen_def reads_def checked_def throw_def)
      with p0 b0 show thesis by (auto intro: refused)
    next
      case secs: (Inr secs)
      have s_ok: "ra_run_timeout ra = Some (Inl e)" if "secs = Some (Inl e)" for e
        using secs that by (auto simp: run_seconds_def split: option.splits sum.splits)
      show thesis
      proof (cases "new_policy (ra_context ra) (co_policy (rt_coord s0))")
        case (Inl e)
        then have "r = Inl e" "s' = s0"
          using goes(2) secs by (simp_all add: andthen_def reads_def checked_def throw_def ret_def)
        with p0 b0 show thesis by (auto intro: refused)
      next
        case (Inr pol)
        let ?s1 = "on_coord (\<lambda>c. switch_cache (ra_cache ra) (c\<lparr>co_policy := pol\<rparr>)) s0"
        have p1: "prepared s ?s1" using p0 by (simp add: prepared_def on_coord_def)
        have b1: "chosen_budget h ra s br ?s1" using b0 by (simp add: chosen_budget_def on_coord_def)
        show thesis
        proof (cases "co_agents (rt_coord ?s1) = []")
          case True
          then have "\<exists>e. r = Inl e" "s' = ?s1"
            using goes(2) secs Inr by (auto simp: andthen_def reads_def checked_def does_def guarded_def throw_def ret_def)
          with p1 b1 show thesis by (auto intro: refused)
        next
          case False
          then have "traced_run h prompt (if py_lower strategy = u ''auto'' then auto_strategy (rt_coord ?s1) else strategy)
              (ra_session ra) br secs
              ((ra_opts ra)\<lparr>op_timeout := (case ra_timeout ra of None \<Rightarrow> Some (co_timeout (rt_coord ?s1)) | Some t \<Rightarrow> t)\<rparr>) ?s1
            = Some (r, s')"
            using goes(2) secs Inr by (simp add: andthen_def reads_def checked_def does_def guarded_def ret_def)
          then show thesis by (rule traced [OF p1 _ s_ok]) (auto simp: b1)
        qed
      qed
    qed
  qed
qed

lemma run_record:
  assumes "coordinator_run h prompt strategy ra s = Some (r, s')" "context_ok s" "traces_ok s"
    "\<forall>e. ra_run_timeout ra \<noteq> Some (Inl e)"
  shows "traces_ok s' \<and>
    ((isl r \<and> co_runs (rt_coord s') = co_runs (rt_coord s) \<and> rt_traces s' = rt_traces s)
     \<or> (\<exists>t st. co_runs (rt_coord s') = record_run t (co_runs (rt_coord s)) \<and> closes t r
          \<and> trace_names t = (length (rt_traces s), x_uuid (ho_x h) (rt_world s), take 200 prompt, st, ra_session ra)
          \<and> (st = strategy \<or> py_lower strategy = u ''auto'')
          \<and> tr_obj t \<notin> set (rg_recorded (co_runs (rt_coord s)))))"
  using assms(1)
proof (cases rule: coordinator_run_cases)
  case (refused e)
  with assms(3) show ?thesis by (simp add: prepared_def traces_ok_def)
next
  case (traced s1 st br secs k)
  have "context_ok s1" using assms(2) traced(1) by (simp add: prepared_def context_ok_def)
  moreover have "secs \<noteq> Some (Inl e)" for e using traced(3) assms(4) by blast
  ultimately obtain t where t: "co_runs (rt_coord s') = record_run t (co_runs (rt_coord s1))" "closes t r"
    "trace_names t = (length (rt_traces s1), x_uuid (ho_x h) (rt_world s1), take 200 prompt, st, ra_session ra)"
    "map tr_obj (rt_traces s') = map tr_obj (rt_traces s1) @ [length (rt_traces s1)]"
    using traced_run_spec [OF traced(2)] by blast
  note p = traced(1) [unfolded prepared_def]
  have obj: "tr_obj t = length (rt_traces s)" using t(3) p by (simp add: trace_names_def)
  have len: "length (rt_traces s') = Suc (length (rt_traces s))"
    using arg_cong [OF t(4), of length] p by simp
  have "set (rg_recorded (record_run t c)) \<subseteq> insert (tr_obj t) (set (rg_recorded c))" for c
    by (auto simp: record_run_def Let_def)
  then have rec: "set (rg_recorded (co_runs (rt_coord s'))) \<subseteq> {..<length (rt_traces s')}"
    using t(1) p assms(3) obj len unfolding traces_ok_def by fastforce
  have "map tr_obj (rt_traces s') = [0..<length (rt_traces s')]"
    using t(4) p assms(3) len by (simp add: traces_ok_def)
  moreover have "tr_obj t \<notin> set (rg_recorded (co_runs (rt_coord s)))"
    using assms(3) obj by (auto simp: traces_ok_def)
  ultimately show ?thesis using t(1-3) p traced(4) rec by (auto simp: traces_ok_def)
qed

section \<open>Properties\<close>

text \<open>
  C6. A run cleans up after itself: whether it is refused, returns or raises, the active trace, the run
  deadline and the run budget of the caller are afterwards what they were before, provided
  \<open>run_timeout\<close> is a number.
\<close>

theorem run_restores_context:
  assumes "coordinator_run h prompt strategy ra s = Some (r, s')" "context_ok s" "\<forall>e. ra_run_timeout ra \<noteq> Some (Inl e)"
  shows "current_trace (rt_trace_var s') = current_trace (rt_trace_var s)
    \<and> run_deadline (rt_deadline_var s') = run_deadline (rt_deadline_var s)
    \<and> current_budget (rt_budget_var s') = current_budget (rt_budget_var s) \<and> context_ok s'"
  using assms(1)
proof (cases rule: coordinator_run_cases)
  case (refused e)
  with assms(2) show ?thesis by (simp add: prepared_def context_ok_def)
next
  case (traced s1 st br secs k)
  have "context_ok s1" using assms(2) traced(1) by (simp add: prepared_def context_ok_def)
  moreover have "secs \<noteq> Some (Inl e)" for e using traced(3) assms(3) by blast
  ultimately have "same_context s1 s' \<and> context_ok s'" using traced_run_spec [OF traced(2)] by blast
  with traced(1) show ?thesis by (simp add: same_context_def prepared_def)
qed

text \<open>
  C2. Every run that gets as far as its strategy is recorded, once: a new trace, with the prompt cut to 200
  characters, the strategy and the session, is finished with the error of the run (none when it
  returned) and put into the registry, and the result names it in its metadata; a run refused before
  that (no agents, a bad option) raises and records nothing.
\<close>

theorem run_recorded_once:
  assumes "coordinator_run h prompt strategy ra s = Some (r, s')" "context_ok s" "traces_ok s"
    "\<forall>e. ra_run_timeout ra \<noteq> Some (Inl e)"
  shows "traces_ok s' \<and>
    ((isl r \<and> co_runs (rt_coord s') = co_runs (rt_coord s) \<and> rt_traces s' = rt_traces s)
     \<or> (\<exists>t st. co_runs (rt_coord s') = record_run t (co_runs (rt_coord s)) \<and> closes t r
          \<and> trace_names t = (length (rt_traces s), x_uuid (ho_x h) (rt_world s), take 200 prompt, st, ra_session ra)
          \<and> (st = strategy \<or> py_lower strategy = u ''auto'')
          \<and> tr_obj t \<notin> set (rg_recorded (co_runs (rt_coord s)))))"
  by (rule run_record [OF assms])

lemma count_reply_caching:
  "count_reply us (k\<lparr>a_cache := b\<rparr>) = (case count_reply us k of (e, k') \<Rightarrow> (e, k'\<lparr>a_cache := b\<rparr>))"
  by (simp add: count_reply_def split: prod.splits)

lemma provider_chat_caching:
  "provider_chat x ms fmt (c\<lparr>a_cache := b\<rparr>) w
     = (case provider_chat x ms fmt c w of (out, c', w') \<Rightarrow> (out, c'\<lparr>a_cache := b\<rparr>, w'))"
proof -
  have req: "request_of (c\<lparr>a_cache := b\<rparr>) u1 u2 u3 ms fmt = request_of c u1 u2 u3 ms fmt" for u1 u2 u3
    by (simp add: request_of_def)
  have swap: "c\<lparr>a_cache := b, a_store := st\<rparr> = c\<lparr>a_store := st\<rparr>\<lparr>a_cache := b\<rparr>" for st by simp
  show ?thesis
    unfolding provider_chat_def
    by (simp add: req swap count_reply_caching Let_def del: core.update_convs split: option.split prod.split sum.split)
qed

text \<open>
  Switching the response cache off does not stop it: after \<open>_apply_cache(False)\<close> a provider agent answers
  every request exactly as before, from the replies it has cached, although the option is documented
  to disable the cache.
\<close>

theorem disabled_cache_still_serves:
  "fst (handle_core x message context (set_caching False c) w) = fst (handle_core x message context c w)
   \<and> (a_provider c = None \<or> a_store (set_caching False c) = a_store c)"
proof -
  have "set_caching False c = c \<or> set_caching False c = c\<lparr>a_cache := False\<rparr>"
    by (simp add: set_caching_def)
  moreover have "fst (handle_core x message context (c\<lparr>a_cache := False\<rparr>) w) = fst (handle_core x message context c w)"
    by (auto simp: handle_core_def system_messages_def provider_chat_caching split: option.splits prod.splits)
  ultimately show ?thesis by auto
qed

section \<open>Witnesses\<close>

definition sample_args :: run_args where
  "sample_args =
     \<lparr>ra_context = Some (DictArg [(u ''window'', IntV 4)]), ra_cache = Some (BoolV True), ra_session = Some (u ''s''),
      ra_run_timeout = Some (Inr 30),
      ra_budget = Option (Limits \<lparr>l_unknown = [], l_max_calls = Some 9, l_max_tokens = None, l_max_cost = None,
                                  l_max_seconds = Some 20, l_pricer = None\<rparr>),
      ra_timeout = None, ra_opts = plain_opts\<rparr>"

lemma sample_run: "returns (coordinator_run sample_host (u ''q'') (u ''auto'') sample_args sample_rt)"
  by code_simp

lemma sample_context: "context_ok sample_rt" "traces_ok sample_rt" "\<forall>e. ra_run_timeout sample_args \<noteq> Some (Inl e)"
  by (simp_all add: context_ok_def traces_ok_def sample_rt_def sample_coord_def new_registry_def sample_args_def)

theorem run_restores_context_witness:
  "\<exists>res s'. coordinator_run sample_host (u ''q'') (u ''auto'') sample_args sample_rt = Some (Inr res, s')
     \<and> current_budget (rt_budget_var s') = None"
proof -
  obtain res s' where e: "coordinator_run sample_host (u ''q'') (u ''auto'') sample_args sample_rt = Some (Inr res, s')"
    using returnsD [OF sample_run] by blast
  from run_restores_context [OF this sample_context(1,3)] have "current_budget (rt_budget_var s') = None"
    by (simp add: sample_rt_def current_budget_def cvar_empty_def)
  then show ?thesis by (intro exI conjI) (rule e)
qed

theorem run_recorded_once_witness:
  "\<exists>res s' t. coordinator_run sample_host (u ''q'') (u ''auto'') sample_args sample_rt = Some (Inr res, s')
     \<and> co_runs (rt_coord s') = record_run t (co_runs (rt_coord sample_rt)) \<and> closes t (Inr res)"
proof -
  obtain res s' where e: "coordinator_run sample_host (u ''q'') (u ''auto'') sample_args sample_rt = Some (Inr res, s')"
    using returnsD [OF sample_run] by blast
  from run_recorded_once [OF this sample_context] obtain t where
    "co_runs (rt_coord s') = record_run t (co_runs (rt_coord sample_rt))" "closes t (Inr res)" by auto
  then show ?thesis by (intro exI conjI) (rule e)
qed

end
