(* ===== verification/Legacy.thy ===== *)
theory Legacy
  imports Coordinator
begin

text \<open>
  The deprecated operations of \<open>legacy.py\<close>: both are calls of the coordinator with fixed arguments. An absent
  \<open>timeout\<close> is \<open>None\<close>; \<open>rounds\<close> is whatever the caller passed, by default 3.
\<close>

definition legacy_broadcast ::
    "'w host \<Rightarrow> pyval \<Rightarrow> real option \<Rightarrow> ((pystr \<times> pyval) list, 'w) act" where
  "legacy_broadcast h message timeout = (\<lambda>s.
     parallel (ho_x h) (ho_pool h) message (agent_names (rt_coord s)) (\<lambda>_. [])
       (Some (case timeout of None \<Rightarrow> co_timeout (rt_coord s) | Some t \<Rightarrow> t)) s)"

definition cooperative_args :: "'w coord \<Rightarrow> pyval option \<Rightarrow> run_args" where
  "cooperative_args c rounds =
     \<lparr>ra_context = None, ra_cache = None, ra_session = None, ra_run_timeout = None, ra_budget = Option NoBudget,
      ra_timeout = Some (Some (co_timeout c)),
      ra_opts = \<lparr>op_rounds = Some (case rounds of None \<Rightarrow> IntV 3 | Some v \<Rightarrow> v), op_judge = None, op_order = [],
                 op_supervisor = None, op_workers = [], op_timeout = None\<rparr>\<rparr>"

definition run_cooperative_task :: "'w host \<Rightarrow> pystr \<Rightarrow> pyval option \<Rightarrow> (step_record list, 'w) act" where
  "run_cooperative_task h prompt rounds = (\<lambda>s.
     (case coordinator_run h prompt (u ''broadcast'') (cooperative_args (rt_coord s) rounds) s of
        None \<Rightarrow> None
      | Some (Inl e, s1) \<Rightarrow> Some (Inl e, s1)
      | Some (Inr res, s1) \<Rightarrow> Some (Inr (sr_rounds res), s1)))"

lemma traced_broadcast:
  assumes "traced_run h prompt (u ''broadcast'') session br secs k s = Some (Inr res, s')"
  shows "\<exists>res0 s1 s2. run_broadcast h prompt k s1 = Some (Inr res0, s2) \<and> rt_coord s1 = rt_coord s
    \<and> sr_rounds res = sr_rounds res0"
  using assms
proof (cases rule: traced_run_cases)
  case (ran t ttok tv dtok dv btok bv out s2)
  have "py_lower (u ''broadcast'') = u ''broadcast''" by code_simp
  then obtain res0 where o: "out = Inr res0" "sr_rounds res = sr_rounds res0"
    using ran(6) by (auto simp: close_run_def with_meta_def Let_def split: prod.splits option.splits sum.splits)
  let ?s = "s\<lparr>rt_traces := rt_traces s @ [t], rt_trace_var := tv, rt_deadline_var := dv, rt_budget_var := bv\<rparr>"
  have "run_broadcast h prompt k ?s = Some (Inr res0, s2)"
    using ran(5) o \<open>py_lower (u ''broadcast'') = u ''broadcast''\<close> by (simp add: run_strategy_def Let_def)
  with o(2) show ?thesis by (intro exI [of _ res0] exI [of _ ?s] exI [of _ s2]) simp
qed simp

text \<open>
  The deprecated cooperative task is complete: it returns one record per round, \<open>max(1, rounds)\<close> of them and
  3 by default, numbered from 1, each with one response of every registered agent in the order of registration.
\<close>

theorem cooperative_task_rounds:
  assumes "run_cooperative_task h prompt rounds s = Some (Inr recs, s')" "distinct (agent_names (rt_coord s))"
  shows "round_count 3 rounds = Inr (length recs)
    \<and> (\<forall>i < length recs. \<exists>rs. recs ! i = round_step ''broadcast'' (Suc i) rs \<and> map fst rs = agent_names (rt_coord s))"
proof -
  obtain res where r: "coordinator_run h prompt (u ''broadcast'') (cooperative_args (rt_coord s) rounds) s = Some (Inr res, s')"
    and recs: "recs = sr_rounds res"
    using assms(1) by (auto simp: run_cooperative_task_def split: option.splits prod.splits sum.splits)
  have "py_lower (u ''broadcast'') \<noteq> u ''auto''" by code_simp
  moreover have "agent_names (switch_cache None c) = agent_names c" for c :: "'a coord" by (simp add: switch_cache_def)
  ultimately obtain br s1 secs k where
    t: "traced_run h prompt (u ''broadcast'') None br secs k s1 = Some (Inr res, s')"
    and n: "agent_names (rt_coord s1) = agent_names (rt_coord s)"
    and k: "op_rounds k = Some (case rounds of None \<Rightarrow> IntV 3 | Some v \<Rightarrow> v)"
    using r by (auto simp: coordinator_run_def act_rules cooperative_args_def run_budget_of_def switch_cache_def
        on_coord_def agent_names_def split: if_splits option.splits run_budget.splits sum.splits)
  from traced_broadcast [OF t] obtain res0 s2 s3 where
    b: "run_broadcast h prompt k s2 = Some (Inr res0, s3)" "rt_coord s2 = rt_coord s1" "sr_rounds res = sr_rounds res0"
    by blast
  have "round_count 1 (op_rounds k) = round_count 3 rounds" by (simp add: round_count_def k split: option.split)
  with broadcast_complete [OF b(1)] b(2,3) n assms(2) show ?thesis by (simp add: recs)
qed

end
