(* ===== verification/Config.thy ===== *)
theory Config
  imports Coordinator
begin

text \<open>
  \<open>config.py\<close>: the credentials file, the configuration file and the coordinator built from it. Reading and
  parsing a file are arguments, as is what the parser makes of numbers: the outcome of \<open>float\<close> on
  \<open>timeout_seconds\<close> and the limits under \<open>budget\<close> stand beside the values.
\<close>

section \<open>Credentials\<close>

text \<open>A key of capital letters, digits and underscores.\<close>

definition key_char :: "int \<Rightarrow> bool" where
  "key_char c \<longleftrightarrow> 65 \<le> c \<and> c \<le> 90 \<or> 48 \<le> c \<and> c \<le> 57 \<or> c = 95"

text \<open>The regular expression \<open>^\s*([A-Z0-9_]+):\s*(\S+)\s*$\<close> at the start of a line: key, value and what is
  left. White space runs over line ends, and the match ends before the last line end of the run behind the
  value.\<close>

definition line_end :: "pystr \<Rightarrow> pystr option" where
  "line_end s =
     (let sp = takeWhile py_space s; rest = dropWhile py_space s
      in if rest = [] then Some []
         else if 10 \<in> set sp then Some (10 # rev (takeWhile (\<lambda>c. c \<noteq> 10) (rev sp)) @ rest) else None)"

definition match_credential :: "pystr \<Rightarrow> (pystr \<times> pystr \<times> pystr) option" where
  "match_credential s =
     (let a = dropWhile py_space s; key = takeWhile key_char a; b = dropWhile key_char a
      in case b of
           [] \<Rightarrow> None
         | c # b1 \<Rightarrow>
             (let v0 = dropWhile py_space b1; v = takeWhile (\<lambda>c. \<not> py_space c) v0
              in if key = [] \<or> c \<noteq> 58 \<or> v = [] then None
                 else map_option (\<lambda>rest. (key, v, rest)) (line_end (dropWhile (\<lambda>c. \<not> py_space c) v0))))"

lemma takeWhile_shorter: "\<exists>x \<in> set xs. \<not> P x \<Longrightarrow> length (takeWhile P xs) < length xs"
  by (induction xs) auto

lemma line_end_length: "line_end s = Some r \<Longrightarrow> length r \<le> length s"
proof -
  assume r: "line_end s = Some r"
  have s: "length s = length (takeWhile py_space s) + length (dropWhile py_space s)"
    by (metis length_append takeWhile_dropWhile_id)
  show ?thesis
  proof (cases "dropWhile py_space s = []")
    case False
    with r have "10 \<in> set (rev (takeWhile py_space s))"
      "r = 10 # rev (takeWhile (\<lambda>c. c \<noteq> 10) (rev (takeWhile py_space s))) @ dropWhile py_space s"
      by (auto simp: line_end_def Let_def split: if_splits)
    with takeWhile_shorter [of "rev (takeWhile py_space s)" "\<lambda>c. c \<noteq> 10"] s show ?thesis by auto
  qed (use r in \<open>simp add: line_end_def Let_def\<close>)
qed

lemma match_credential_length:
  assumes "match_credential s = Some (k, v, rest)"
  shows "length rest < length s"
proof -
  let ?a = "dropWhile py_space s"
  obtain c b1 where b: "dropWhile key_char ?a = c # b1"
    using assms by (auto simp: match_credential_def Let_def split: list.splits)
  let ?v0 = "dropWhile py_space b1"
  have "line_end (dropWhile (\<lambda>c. \<not> py_space c) ?v0) = Some rest"
    using assms b by (auto simp: match_credential_def Let_def split: if_splits)
  then have "length rest \<le> length (dropWhile (\<lambda>c. \<not> py_space c) ?v0)" by (rule line_end_length)
  also have "\<dots> \<le> length b1"
    using length_dropWhile_le [of "\<lambda>c. \<not> py_space c" ?v0] length_dropWhile_le [of py_space b1] by linarith
  also have "Suc (length b1) \<le> length s"
    using length_dropWhile_le [of key_char ?a] length_dropWhile_le [of py_space s] b by simp
  finally show ?thesis by simp
qed

text \<open>\<open>re.findall\<close>: matches may start where a line does.\<close>

function find_credentials :: "bool \<Rightarrow> pystr \<Rightarrow> (pystr \<times> pystr) list" where
  "find_credentials line_start s =
     (case (if line_start then match_credential s else None) of
        Some (k, v, rest) \<Rightarrow> (k, v) # find_credentials False rest
      | None \<Rightarrow> (case s of [] \<Rightarrow> [] | c # cs \<Rightarrow> find_credentials (c = 10) cs))"
  by pat_completeness auto
termination
  by (relation "measure (\<lambda>(b, s). length s)") (auto dest: match_credential_length split: if_splits)

declare find_credentials.simps [simp del]

definition ends_with :: "pystr \<Rightarrow> pystr \<Rightarrow> bool" where
  "ends_with s t \<longleftrightarrow> drop (length s - length t) s = t"

text \<open>The environment is a dictionary; what is exported goes into it at once, so a second line for a key
  finds it set.\<close>

fun export_credentials :: "(pystr \<times> pystr) list \<Rightarrow> (pystr \<times> pystr) list \<Rightarrow> (pystr \<times> pystr) list
     \<Rightarrow> (pystr \<times> pystr) list \<times> (pystr \<times> pystr) list" where
  "export_credentials [] env out = (out, env)"
| "export_credentials ((k, v) # found) env out =
     (if \<not> ends_with k (u ''API_KEY'') \<or> (case map_of env k of None \<Rightarrow> False | Some x \<Rightarrow> x \<noteq> [])
      then export_credentials found env out
      else export_credentials found (AList.update k v env) (AList.update k v out))"

text \<open>The file: missing, unreadable, or its text.\<close>

definition load_dsh_credentials :: "pystr option \<Rightarrow> (pystr \<times> pystr) list
     \<Rightarrow> (pystr \<times> pystr) list \<times> (pystr \<times> pystr) list" where
  "load_dsh_credentials content env =
     (case content of
        None \<Rightarrow> ([], env)
      | Some body \<Rightarrow> export_credentials (find_credentials True body) env [])"

section \<open>The configuration file\<close>

text \<open>\<open>os.path.splitext(path)[1]\<close>.\<close>

definition path_ext :: "pystr \<Rightarrow> pystr" where
  "path_ext path =
     (let name = dropWhile (\<lambda>c. c = 46) (last (split_on 47 path))
      in if 46 \<in> set name then 46 # last (split_on 46 name) else [])"

type_synonym parsed = "pyval \<times> (exn + real) option \<times> limits option"

record team_config =
  tc_items :: pydict
  tc_timeout :: "(exn + real) option"
  tc_budget :: "limits option"

text \<open>\<open>yaml\<close> is \<open>None\<close> when the package is missing.\<close>

definition load_config ::
    "(exn + parsed) option \<Rightarrow> (exn + parsed) \<Rightarrow> pystr \<Rightarrow> exn + team_config" where
  "load_config yaml json path =
     (let ext = py_lower (path_ext path);
          yaml_ext = ext = u ''.yaml'' \<or> ext = u ''.yml''
      in if \<not> yaml_ext \<and> ext \<noteq> u ''.json''
         then Inl (Exn CValueError (u ''unsupported config extension: '' @ ext @ u '' (use .yaml/.yml/.json)''))
         else
           (case (if yaml_ext then
                    (case yaml of
                       None \<Rightarrow> Inl (Exn CException (u ''PyYAML is required for YAML configs: pip install pyyaml''))
                     | Some r \<Rightarrow> r)
                  else json) of
              Inl e \<Rightarrow> Inl e
            | Inr (v, secs, budget) \<Rightarrow>
                (if v = NoneV then Inr \<lparr>tc_items = [], tc_timeout = None, tc_budget = None\<rparr>
                 else (case dict_of v of
                         None \<Rightarrow> Inl (Exn CValueError (u ''config root must be a mapping''))
                       | Some d \<Rightarrow> Inr \<lparr>tc_items = d, tc_timeout = secs, tc_budget = budget\<rparr>))))"

section \<open>Building a coordinator\<close>

text \<open>\<open>dict(v)\<close>: a dictionary, or pairs of a key and a value.\<close>

definition py_pair :: "pyval \<Rightarrow> exn + pystr \<times> pyval" where
  "py_pair v =
     (case py_iter v of
        Inl e \<Rightarrow> Inl e
      | Inr [StrV k, x] \<Rightarrow> Inr (k, x)
      | Inr [k, x] \<Rightarrow> Inl (Exn CTypeError (u ''keywords must be strings''))
      | Inr _ \<Rightarrow> Inl (Exn CValueError (u ''dictionary update sequence element has wrong length'')))"

fun py_pairs :: "pyval list \<Rightarrow> pydict \<Rightarrow> exn + pydict" where
  "py_pairs [] d = Inr d"
| "py_pairs (v # vs) d =
     (case py_pair v of Inl e \<Rightarrow> Inl e | Inr (k, x) \<Rightarrow> py_pairs vs (AList.update k x d))"

definition py_dict :: "pyval \<Rightarrow> exn + pydict" where
  "py_dict v =
     (case dict_of v of
        Some d \<Rightarrow> Inr d
      | None \<Rightarrow> (case py_iter v of Inl e \<Rightarrow> Inl e | Inr vs \<Rightarrow> py_pairs vs []))"

definition agent_of_config :: "'w ext \<Rightarrow> (pydict \<Rightarrow> 'w kwargs) \<Rightarrow> pyval \<Rightarrow> exn + 'w agent" where
  "agent_of_config x read v = (case py_dict v of Inl e \<Rightarrow> Inl e | Inr d \<Rightarrow> from_config x read d)"

text \<open>\<open>v or {}\<close>, and what is asked of it as a dictionary.\<close>

definition no_get_attr :: exn where
  "no_get_attr = Exn CAttributeError (u ''object has no attribute get'')"

definition section_of :: "pydict \<Rightarrow> string \<Rightarrow> exn + pydict" where
  "section_of d k =
     (case dict_of (or_else (dget d k) (DictV [])) of None \<Rightarrow> Inl no_get_attr | Some s \<Rightarrow> Inr s)"

definition configured_policy :: "pyval \<Rightarrow> exn + policy option" where
  "configured_policy v =
     (if \<not> truthy v then Inr None
      else (case dict_of v of None \<Rightarrow> Inl no_get_attr | Some d \<Rightarrow> from_dict (Some d)))"

definition configured_memory :: "pydict \<Rightarrow> exn + store option" where
  "configured_memory d =
     (if d = [] then Inr None
      else
        (case opt_int (map_of d (u ''capacity'')) of
           Inl e \<Rightarrow> Inl e
         | Inr cap \<Rightarrow>
             (case opt_int (map_of d (u ''max_chars'')) of
                Inl e \<Rightarrow> Inl e
              | Inr chars \<Rightarrow> Inr (Some (new_store cap chars)))))"

fun register_configs ::
    "'w ext \<Rightarrow> (pydict \<Rightarrow> 'w kwargs) \<Rightarrow> pyval list \<Rightarrow> 'w coord \<Rightarrow> exn + 'w coord" where
  "register_configs x read [] c = Inr c"
| "register_configs x read (v # vs) c =
     (case agent_of_config x read v of
        Inl e \<Rightarrow> Inl e
      | Inr a \<Rightarrow>
          (case register_agent a True c of Inl e \<Rightarrow> Inl e | Inr c1 \<Rightarrow> register_configs x read vs c1))"

definition build_coordinator ::
    "'w ext \<Rightarrow> (pydict \<Rightarrow> 'w kwargs) \<Rightarrow> team_config \<Rightarrow> exn + 'w coord" where
  "build_coordinator x read cfg =
     (case section_of (tc_items cfg) ''coordinator'' of
        Inl e \<Rightarrow> Inl e
      | Inr d \<Rightarrow>
          (case configured_policy (dget d ''context'') of
             Inl e \<Rightarrow> Inl e
           | Inr pol \<Rightarrow>
               (case section_of d ''memory'' of
                  Inl e \<Rightarrow> Inl e
                | Inr m \<Rightarrow>
                    (case configured_memory m of
                       Inl e \<Rightarrow> Inl e
                     | Inr mem \<Rightarrow>
                         (case (case tc_timeout cfg of None \<Rightarrow> Inr 15 | Some t \<Rightarrow> t) of
                            Inl e \<Rightarrow> Inl e
                          | Inr timeout \<Rightarrow>
                              (case py_iter (or_else (dget (tc_items cfg) ''agents'') (ListV [])) of
                                 Inl e \<Rightarrow> Inl e
                               | Inr vs \<Rightarrow>
                                   (case register_configs x read vs
                                           (new_coordinator mem timeout pol (as_bool (dget d ''cache'')) (tc_budget cfg)) of
                                      Inl e \<Rightarrow> Inl e
                                    | Inr c \<Rightarrow> Inr (if co_cache c then apply_cache True c else c))))))))"

section \<open>Properties\<close>

lemma export_credentials_spec:
  assumes "export_credentials found env out = (out', env')"
    "\<forall>k v. map_of out k = Some v \<longrightarrow> map_of env k = Some v"
  shows "(\<forall>k v. map_of env k = Some v \<longrightarrow> v \<noteq> [] \<longrightarrow> map_of env' k = Some v)
    \<and> (\<forall>k v. map_of out' k = Some v \<longrightarrow>
         map_of env' k = Some v \<and> (map_of out k = Some v \<or> (k, v) \<in> set found \<and> ends_with k (u ''API_KEY'')))
    \<and> (\<forall>k. map_of out' k = None \<longrightarrow> map_of out k = None \<and> map_of env' k = map_of env k)"
  using assms
proof (induction found env out rule: export_credentials.induct)
  case (1 env out)
  then show ?case by auto
next
  case (2 k v found env out)
  let ?skip = "\<not> ends_with k (u ''API_KEY'') \<or> (case map_of env k of None \<Rightarrow> False | Some x \<Rightarrow> x \<noteq> [])"
  show ?case
  proof (cases ?skip)
    case True
    have "export_credentials found env out = (out', env')" using "2.prems"(1) True by simp
    from "2.IH"(1) [OF True this "2.prems"(2)] show ?thesis by auto
  next
    case False
    have r: "export_credentials found (AList.update k v env) (AList.update k v out) = (out', env')"
      using "2.prems"(1) False by simp
    have pre: "\<forall>j w. map_of (AList.update k v out) j = Some w \<longrightarrow> map_of (AList.update k v env) j = Some w"
      using "2.prems"(2) by (simp add: dict_get_update)
    have unset: "ends_with k (u ''API_KEY'')" "\<And>x. map_of env k = Some x \<Longrightarrow> x = []" using False by auto
    note ih = "2.IH"(2) [OF False r pre, unfolded dict_get_update]
    have "map_of env' j = Some w" if "map_of env j = Some w" "w \<noteq> []" for j w
      using ih that unset(2) [of w] by (cases "j = k") auto
    moreover have "map_of env' j = Some w \<and> (map_of out j = Some w \<or> (j, w) \<in> set ((k, v) # found) \<and> ends_with j (u ''API_KEY''))"
      if "map_of out' j = Some w" for j w
      using ih [THEN conjunct2, THEN conjunct1, rule_format, of j w] that unset(1) by (auto split: if_splits)
    moreover have "map_of out j = None \<and> map_of env' j = map_of env j" if "map_of out' j = None" for j
      using ih [THEN conjunct2, THEN conjunct2, rule_format, of j] that by (auto split: if_splits)
    ultimately show ?thesis by blast
  qed
qed


text \<open>White space in the pattern runs over the end of a line: of two entries without a value the first is
  exported with the name of the second.\<close>

definition two_empty_keys :: pystr where
  "two_empty_keys = u ''A_API_KEY:'' @ [10] @ u ''B_API_KEY:'' @ [10]"

definition two_keys :: pystr where
  "two_keys = u ''A_API_KEY: x'' @ [10] @ u ''B_API_KEY: y'' @ [10]"

lemma two_keys_loaded:
  "fst (load_dsh_credentials (Some two_keys) [(u ''A_API_KEY'', u ''k'')]) = [(u ''B_API_KEY'', u ''y'')]"
  by code_simp


lemma empty_key_takes_next_line:
  "load_dsh_credentials (Some two_empty_keys) []
     = ([(u ''A_API_KEY'', u ''B_API_KEY:'')], [(u ''A_API_KEY'', u ''B_API_KEY:'')])"
  by code_simp

text \<open>The agents a list of configs builds, the latest of each name.\<close>

lemma register_configs_spec:
  assumes "register_configs x read vs c = Inr c'"
  shows "\<exists>as. list_all2 (\<lambda>v a. agent_of_config x read v = Inr a) vs as
    \<and> co_agents c' = fold (\<lambda>a d. AList.update (a_name (base_of a)) a d) as (co_agents c)
    \<and> c'\<lparr>co_agents := co_agents c, co_health := co_health c\<rparr> = c"
  using assms
proof (induction vs arbitrary: c)
  case (Cons v vs)
  obtain a where a: "agent_of_config x read v = Inr a" using Cons.prems by (auto split: sum.splits)
  define c1 where "c1 = c\<lparr>co_agents := AList.update (a_name (base_of a)) a (co_agents c),
                           co_health := AList.delete (a_name (base_of a)) (co_health c)\<rparr>"
  have "register_agent a True c = Inr c1" by (simp add: register_agent_def c1_def Let_def)
  with Cons.prems a have "register_configs x read vs c1 = Inr c'" by simp
  from Cons.IH [OF this] obtain as where as: "list_all2 (\<lambda>v a. agent_of_config x read v = Inr a) vs as"
    "co_agents c' = fold (\<lambda>a d. AList.update (a_name (base_of a)) a d) as (co_agents c1)"
    "c'\<lparr>co_agents := co_agents c1, co_health := co_health c1\<rparr> = c1" by blast
  have "c'\<lparr>co_agents := co_agents c, co_health := co_health c\<rparr>
      = c'\<lparr>co_agents := co_agents c1, co_health := co_health c1\<rparr>\<lparr>co_agents := co_agents c, co_health := co_health c\<rparr>"
    by simp
  also have "\<dots> = c1\<lparr>co_agents := co_agents c, co_health := co_health c\<rparr>" by (simp only: as(3))
  also have "\<dots> = c" by (simp add: c1_def)
  finally show ?case using a as(1,2) by (intro exI [of _ "a # as"]) (simp add: c1_def)
qed simp

lemma map_of_fold_update:
  "map_of (fold (\<lambda>a d. AList.update (f a) a d) as d) n
     = (case map_of (rev (map (\<lambda>a. (f a, a)) as)) n of None \<Rightarrow> map_of d n | Some a \<Rightarrow> Some a)"
  by (induction as arbitrary: d) (auto simp: dict_get_update map_add_def split: option.splits)

lemma dict_ok_fold_update: "dict_ok d \<Longrightarrow> dict_ok (fold (\<lambda>a d. AList.update (f a) a d) as d)"
  by (induction as arbitrary: d) auto

text \<open>
  A configuration builds the team it describes: each entry under \<open>agents\<close> is built by the factory, an
  agent name means its last entry, the response cache is switched on for every provider agent when the
  configuration says so and else left as each entry has it, and the time-out is the configured one or 15
  seconds; any error on the way is raised and no coordinator results.
\<close>

theorem config_builds_team:
  assumes "build_coordinator x read cfg = Inr c"
  shows "\<exists>vs as. py_iter (or_else (dget (tc_items cfg) ''agents'') (ListV [])) = Inr vs
    \<and> list_all2 (\<lambda>v a. agent_of_config x read v = Inr a) vs as
    \<and> (\<forall>n. get_agent n c = map_option (if co_cache c then on_core (set_caching True) else id)
             (map_of (rev (map (\<lambda>a. (a_name (base_of a), a)) as)) n))
    \<and> dict_ok (co_agents c)
    \<and> Inr (co_timeout c) = (case tc_timeout cfg of None \<Rightarrow> Inr 15 | Some t \<Rightarrow> t)
    \<and> co_budget c = tc_budget cfg"
proof -
  obtain d pol mem timeout vs c1 where p: "section_of (tc_items cfg) ''coordinator'' = Inr d"
    "(case tc_timeout cfg of None \<Rightarrow> Inr 15 | Some t \<Rightarrow> t) = Inr timeout"
    "py_iter (or_else (dget (tc_items cfg) ''agents'') (ListV [])) = Inr vs"
    "register_configs x read vs (new_coordinator mem timeout pol (as_bool (dget d ''cache'')) (tc_budget cfg)) = Inr c1"
    "c = (if co_cache c1 then apply_cache True c1 else c1)"
    using assms unfolding build_coordinator_def by (auto split: sum.splits)
  let ?c0 = "new_coordinator mem timeout pol (as_bool (dget d ''cache'')) (tc_budget cfg) :: 'a coord"
  from register_configs_spec [OF p(4)] obtain as where
    as: "list_all2 (\<lambda>v a. agent_of_config x read v = Inr a) vs as"
      "co_agents c1 = fold (\<lambda>a d. AList.update (a_name (base_of a)) a d) as (co_agents ?c0)"
    and rest: "c1\<lparr>co_agents := co_agents ?c0, co_health := co_health ?c0\<rparr> = ?c0" by blast
  have "co_timeout c1 = timeout" "co_budget c1 = tc_budget cfg"
    using arg_cong [OF rest, of co_timeout] arg_cong [OF rest, of co_budget] by (simp_all add: new_coordinator_def)
  note as = as [unfolded new_coordinator_def, simplified] this
  have get: "get_agent n c1 = map_of (rev (map (\<lambda>a. (a_name (base_of a), a)) as)) n" for n
    by (simp add: get_agent_def as(2) map_of_fold_update split: option.split)
  have ok: "dict_ok (co_agents c1)" by (simp add: as(2) dict_ok_fold_update)
  have "get_agent n (apply_cache True c1) = map_option (on_core (set_caching True)) (get_agent n c1)" for n
    by (simp add: get_agent_def apply_cache_def map_of_map)
  moreover have "dict_ok (co_agents (apply_cache True c1))"
    using ok by (simp add: apply_cache_def dict_ok_def o_def case_prod_unfold)
  ultimately show ?thesis
    using p(2,3,5) as get ok by (intro exI [of _ vs] exI [of _ as]) (auto simp: apply_cache_def option.map_id0)
qed

definition plain_kwargs :: "pydict \<Rightarrow> unit kwargs" where
  "plain_kwargs d =
     \<lparr>kw_role = NoneV, kw_system = [], kw_model = None, kw_temperature = None, kw_max_tokens = None, kw_api_key = [],
      kw_base_url = [], kw_retries = IntV 2, kw_timeout = None, kw_cache = NoneV, kw_caps = NoneV, kw_template = [],
      kw_url = [], kw_handler = None, kw_backends = [], kw_command = py_str (dget d ''command''), kw_args = [],
      kw_cwd = NoneV, kw_encoding = []\<rparr>"

definition echo_team :: team_config where
  "echo_team =
     \<lparr>tc_items =
        [(u ''coordinator'', DictV [(u ''cache'', StrV (u ''on'')), (u ''memory'', DictV [(u ''capacity'', IntV 9)])]),
         (u ''agents'', ListV [DictV [(u ''name'', StrV (u ''n'')), (u ''kind'', StrV (u ''deepseek''))],
                               DictV [(u ''name'', StrV (u ''n'')), (u ''kind'', StrV (u ''echo''))]])],
      tc_timeout = None, tc_budget = None\<rparr>"

lemma echo_team_built:
  "case build_coordinator idle plain_kwargs echo_team of Inl e \<Rightarrow> False | Inr c \<Rightarrow> agent_names c = [u ''n'']"
  by code_simp

theorem config_builds_team_witness:
  "\<exists>c. build_coordinator idle plain_kwargs echo_team = Inr c \<and> agent_names c = [u ''n''] \<and> co_timeout c = 15"
proof -
  obtain c where c: "build_coordinator idle plain_kwargs echo_team = Inr c" "agent_names c = [u ''n'']"
    using echo_team_built by (auto split: sum.splits)
  have "tc_timeout echo_team = None" by (simp add: echo_team_def)
  with config_builds_team [OF c(1)] c show ?thesis by auto
qed

end
