(* ===== verification/History.thy ===== *)
theory History
  imports Prelude
begin

text \<open>
  \<open>history.py\<close>: the JSON-lines run history. The file is its list of bytes; the tail scan of \<open>recent\<close>
  reads it block by block from the end. \<open>parse\<close> is \<open>json.loads(raw.decode(...))\<close> on one line, \<open>None\<close>
  for its \<open>ValueError\<close>; \<open>encode\<close> is the UTF-8 text of \<open>json.dumps\<close>. \<open>all_recent\<close> is the reference:
  split the whole file and read its lines backwards.
\<close>

section \<open>Model\<close>

definition newline :: int where
  "newline = 10"

text \<open>\<open>bytes.strip\<close>: ASCII white space.\<close>

definition byte_space :: "int \<Rightarrow> bool" where
  "byte_space c \<longleftrightarrow> 9 \<le> c \<and> c \<le> 13 \<or> c = 32"

definition blank_line :: "int list \<Rightarrow> bool" where
  "blank_line raw \<longleftrightarrow> strip_by byte_space raw = []"

text \<open>A record of the history: its \<open>elapsed_seconds\<close> is a number that may be fractional.\<close>

type_synonym record_items = "(pystr \<times> field) list"

record history =
  hi_file :: "int list"
  hi_count :: int

text \<open>\<open>_count_lines\<close> on the decoded text; universal newlines end a line at either control character.\<close>

definition count_lines :: "pystr \<Rightarrow> int" where
  "count_lines text =
     int (length (filter (\<lambda>l. py_strip l \<noteq> []) (concat (map (split_on 13) (split_on newline text)))))"

definition open_history :: "int list \<Rightarrow> pystr \<Rightarrow> history" where
  "open_history file text = \<lparr>hi_file = file, hi_count = count_lines text\<rparr>"

definition append_run ::
    "(record_items \<Rightarrow> int list) \<Rightarrow> pystr \<Rightarrow> record_items \<Rightarrow> history
     \<Rightarrow> record_items \<times> history" where
  "append_run encode timestamp rec h =
     (let n = hi_count h + 1;
          item = AList.update (u ''timestamp'') (FVal (StrV timestamp)) (AList.update (u ''index'') (FVal (IntV n)) rec)
      in (item, \<lparr>hi_file = hi_file h @ encode item @ [newline], hi_count = n\<rparr>))"

text \<open>The inner loop over the lines of a block, last line first.\<close>

fun take_lines :: "(int list \<Rightarrow> 'r option) \<Rightarrow> nat \<Rightarrow> int list list \<Rightarrow> 'r list \<Rightarrow> 'r list" where
  "take_lines parse limit [] items = items"
| "take_lines parse limit (raw # rest) items =
     (if blank_line raw then take_lines parse limit rest items
      else
        (case parse raw of
           None \<Rightarrow> take_lines parse limit rest items
         | Some r \<Rightarrow>
             (let items' = items @ [r]
              in if limit \<le> length items' then items' else take_lines parse limit rest items')))"

text \<open>The outer loop: \<open>pos\<close> bytes are still unread, \<open>chunk\<close> is the start of a line cut by the block.\<close>

function scan_blocks ::
    "nat \<Rightarrow> (int list \<Rightarrow> 'r option) \<Rightarrow> nat \<Rightarrow> int list \<Rightarrow> nat \<Rightarrow> int list \<Rightarrow> 'r list \<Rightarrow> 'r list" where
  "scan_blocks block parse limit file pos chunk items =
     (if 0 < pos \<and> 0 < block \<and> length items < limit
      then
        (let read_size = min block pos;
             pos' = pos - read_size;
             parts = split_on newline (take read_size (drop pos' file) @ chunk)
         in if 0 < pos'
            then scan_blocks block parse limit file pos' (hd parts)
                   (take_lines parse limit (rev (tl parts)) items)
            else scan_blocks block parse limit file pos' []
                   (take_lines parse limit (rev parts) items))
      else items)"
  by pat_completeness auto
termination
  by (relation "measure (\<lambda>(block, parse, limit, file, pos, chunk, items). pos)") auto

declare scan_blocks.simps [simp del]

definition block_size :: nat where
  "block_size = 4096"

definition recent_history :: "(int list \<Rightarrow> 'r option) \<Rightarrow> int \<Rightarrow> history \<Rightarrow> 'r list" where
  "recent_history parse limit h =
     (let n = nat (max 0 limit)
      in if n = 0 then []
         else if hi_file h = [] then []
         else scan_blocks block_size parse n (hi_file h) (length (hi_file h)) [] [])"

definition clear_history :: "history \<Rightarrow> history" where
  "clear_history h = \<lparr>hi_file = [], hi_count = 0\<rparr>"

definition history_len :: "history \<Rightarrow> int" where
  "history_len h = hi_count h"

section \<open>The reference\<close>

definition valid_line :: "(int list \<Rightarrow> 'r option) \<Rightarrow> int list \<Rightarrow> 'r list" where
  "valid_line parse raw = (if blank_line raw then [] else case parse raw of None \<Rightarrow> [] | Some r \<Rightarrow> [r])"

definition valid_lines :: "(int list \<Rightarrow> 'r option) \<Rightarrow> int list list \<Rightarrow> 'r list" where
  "valid_lines parse ls = concat (map (valid_line parse) ls)"

definition all_recent :: "(int list \<Rightarrow> 'r option) \<Rightarrow> nat \<Rightarrow> int list \<Rightarrow> 'r list" where
  "all_recent parse n file = take n (valid_lines parse (rev (split_on newline file)))"

section \<open>Lemmas\<close>

lemma split_on_append:
  "split_on c (xs @ ys) =
     butlast (split_on c xs) @ (last (split_on c xs) @ hd (split_on c ys)) # tl (split_on c ys)"
proof (induction xs)
  case (Cons x xs)
  have "split_on c ys \<noteq> []" "split_on c xs \<noteq> []" by simp_all
  with Cons show ?case
    by (cases "split_on c xs"; cases "split_on c ys") (auto split: list.splits)
qed simp

lemma split_on_no_sep: "c \<notin> set xs \<Longrightarrow> split_on c xs = [xs]"
  by (induction xs) auto

lemma hd_split_no_sep: "c \<notin> set (hd (split_on c xs))"
  by (induction xs) (auto split: list.splits)

text \<open>Reading one more block in front of the rest: its lines are the lines of the joined chunk.\<close>

lemma split_on_block:
  "split_on c (blk @ hd (split_on c rest)) @ tl (split_on c rest) = split_on c (blk @ rest)"
  by (simp add: split_on_append [of c blk] split_on_no_sep [OF hd_split_no_sep])

lemma take_lines_eq:
  "length items < limit \<Longrightarrow>
     take_lines parse limit ls items = take limit (items @ valid_lines parse ls)"
proof (induction parse limit ls items rule: take_lines.induct)
  case (2 parse limit raw rest items)
  then show ?case
    by (auto simp: valid_lines_def valid_line_def Let_def take_Cons' split: option.splits)
qed (simp add: valid_lines_def)

lemma valid_lines_append: "valid_lines parse (xs @ ys) = valid_lines parse xs @ valid_lines parse ys"
  by (simp add: valid_lines_def)

lemma take_append_take: "take n (take n xs @ ys) = take n (xs @ ys)"
  by (cases "n \<le> length xs") (auto simp: take_append)

text \<open>The invariant of the tail scan: the lines after the cut one have been read.\<close>

definition scanned :: "(int list \<Rightarrow> 'r option) \<Rightarrow> nat \<Rightarrow> int list \<Rightarrow> nat \<Rightarrow> int list \<Rightarrow> 'r list \<Rightarrow> bool" where
  "scanned parse limit file pos chunk items \<longleftrightarrow>
     chunk = hd (split_on newline (drop pos file))
     \<and> items = take limit (valid_lines parse (rev (tl (split_on newline (drop pos file)))))"

lemma drop_split: "pos' \<le> pos \<Longrightarrow> drop pos' file = take (pos - pos') (drop pos' file) @ drop pos file"
  by (metis append_take_drop_id drop_drop le_add_diff_inverse2)

lemma scan_blocks_correct:
  assumes "0 < block" "scanned parse limit file pos chunk items" "0 < pos" "pos \<le> length file"
  shows "scan_blocks block parse limit file pos chunk items = all_recent parse limit file"
  using assms(2-4)
proof (induction pos arbitrary: chunk items rule: less_induct)
  case (less pos)
  let ?rest = "drop pos file" and ?r = "min block pos"
  let ?pos' = "pos - ?r"
  let ?blk = "take ?r (drop ?pos' file)"
  let ?V = "valid_lines parse"
  have rest: "drop ?pos' file = ?blk @ ?rest"
    using drop_split [of ?pos' pos "file"] by (simp add: min_def)
  let ?parts = "split_on newline (?blk @ chunk)"
  have chunk: "chunk = hd (split_on newline ?rest)"
    and items: "items = take limit (?V (rev (tl (split_on newline ?rest))))"
    using less.prems(1) by (auto simp: scanned_def)
  have parts: "split_on newline (drop ?pos' file) = ?parts @ tl (split_on newline ?rest)"
    using split_on_block [of newline ?blk ?rest] by (simp only: rest [symmetric] chunk [symmetric])
  have ne: "?parts \<noteq> []" by simp
  show ?case
  proof (cases "length items < limit")
    case False
    have "length (take limit (?V (rev (tl (split_on newline ?rest))))) = limit"
      using False items by simp
    moreover have "split_on newline file = split_on newline (take pos file @ ?rest)" by simp
    then have "\<exists>ls. split_on newline file = ls @ tl (split_on newline ?rest)"
      by (metis split_on_append append_Cons append_assoc append_Nil)
    then obtain ls where "split_on newline file = ls @ tl (split_on newline ?rest)" by blast
    ultimately have "all_recent parse limit file = items"
      by (simp add: all_recent_def valid_lines_append items)
    then show ?thesis using False by (subst scan_blocks.simps) simp
  next
    case True
    have lines: "take_lines parse limit ls items = take limit (?V (rev (tl (split_on newline ?rest)) @ ls))" for ls
      by (simp only: take_lines_eq [OF True] valid_lines_append) (simp only: items take_append_take)
    show ?thesis
    proof (cases "0 < ?pos'")
      case pos': True
      have "scanned parse limit file ?pos' (hd ?parts) (take_lines parse limit (rev (tl ?parts)) items)"
        using ne by (simp add: scanned_def parts lines)
      moreover have "?pos' < pos" using assms(1) less.prems(2) by simp
      moreover have "?pos' \<le> length file" using less.prems(3) by simp
      ultimately have "scan_blocks block parse limit file ?pos' (hd ?parts)
          (take_lines parse limit (rev (tl ?parts)) items) = all_recent parse limit file"
        using less.IH pos' by blast
      then show ?thesis
        using True pos' assms(1) less.prems(2)
        by (subst scan_blocks.simps) (auto simp: Let_def min_def split: if_splits)
    next
      case pos': False
      then have "split_on newline file = ?parts @ tl (split_on newline ?rest)" using parts by simp
      then have "take_lines parse limit (rev ?parts) items = all_recent parse limit file"
        by (simp add: lines all_recent_def)
      then show ?thesis
        using True pos' assms(1) less.prems(2)
        by (subst scan_blocks.simps) (simp add: Let_def scan_blocks.simps)
    qed
  qed
qed

text \<open>The blocks are read back to the start of the file.\<close>

lemma recent_history_all:
  "recent_history parse limit h = all_recent parse (nat (max 0 limit)) (hi_file h)"
proof (cases "nat (max 0 limit) = 0 \<or> hi_file h = []")
  case True
  then show ?thesis
    by (auto simp: recent_history_def all_recent_def valid_lines_def valid_line_def blank_line_def strip_by_def)
next
  case False
  have "scan_blocks block_size parse (nat (max 0 limit)) (hi_file h) (length (hi_file h)) [] []
    = all_recent parse (nat (max 0 limit)) (hi_file h)"
    by (rule scan_blocks_correct) (use False in \<open>simp_all add: block_size_def scanned_def valid_lines_def\<close>)
  with False show ?thesis by (simp add: recent_history_def Let_def)
qed

section \<open>Properties\<close>

text \<open>
  C29. The tail scan is equivalent to reading the whole file: whatever the file holds, corrupt and
  blank lines and a last line without a newline included, \<open>recent(limit)\<close> is the list of the last
  \<open>limit\<close> valid records, newest first.
\<close>

theorem recent_history_correct:
  "recent_history parse limit h = all_recent parse (nat (max 0 limit)) (hi_file h)"
  by (rule recent_history_all)

text \<open>Appending, with what is asked of the encoder: one line per record that reads back.\<close>

fun append_runs ::
    "(record_items \<Rightarrow> int list) \<Rightarrow> (pystr \<times> record_items) list \<Rightarrow> history
     \<Rightarrow> record_items list \<times> history" where
  "append_runs encode [] h = ([], h)"
| "append_runs encode ((stamp, r) # rs) h =
     (case append_run encode stamp r h of
        (item, h1) \<Rightarrow> (case append_runs encode rs h1 of (items, h2) \<Rightarrow> (item # items, h2)))"

definition line_codec ::
    "(record_items \<Rightarrow> int list) \<Rightarrow> (int list \<Rightarrow> record_items option)
     \<Rightarrow> record_items \<Rightarrow> bool" where
  "line_codec encode parse item \<longleftrightarrow>
     newline \<notin> set (encode item) \<and> \<not> blank_line (encode item) \<and> parse (encode item) = Some item"

lemma split_on_line: "newline \<notin> set l \<Longrightarrow> split_on newline (l @ newline # xs) = l # split_on newline xs"
  by (simp add: split_on_append split_on_no_sep)

lemma append_runs_file:
  assumes "append_runs encode rs h = (items, h')" "list_all (line_codec encode parse) items"
  shows "hi_file h' = hi_file h @ concat (map (\<lambda>i. encode i @ [newline]) items)
    \<and> hi_count h' = hi_count h + int (length rs) \<and> length items = length rs
    \<and> map (\<lambda>i. map_of i (u ''index'')) items = map (\<lambda>k. Some (FVal (IntV (hi_count h + int k)))) [1..<Suc (length rs)]"
  using assms
proof (induction rs arbitrary: h items h')
  case (Cons p rs)
  obtain stamp r where p: "p = (stamp, r)" by fastforce
  obtain item h1 where a: "append_run encode stamp r h = (item, h1)" by fastforce
  obtain its h2 where b: "append_runs encode rs h1 = (its, h2)" by fastforce
  have i: "items = item # its" "h' = h2" using Cons.prems(1) by (auto simp: p a b)
  have h1: "hi_file h1 = hi_file h @ encode item @ [newline]" "hi_count h1 = hi_count h + 1"
    "map_of item (u ''index'') = Some (FVal (IntV (hi_count h + 1)))"
    using a by (auto simp: append_run_def Let_def dict_get_update)
  note ih = Cons.IH [OF b, simplified h1]
  have "map (\<lambda>k. Some (FVal (IntV (hi_count h + 1 + int k)))) [1..<Suc (length rs)]
    = map (\<lambda>k. Some (FVal (IntV (hi_count h + int k)))) (map Suc [1..<Suc (length rs)])"
    by simp
  also have "map Suc [1..<Suc (length rs)] = [2..<Suc (Suc (length rs))]"
    by (simp add: map_Suc_upt numeral_2_eq_2 del: upt_Suc)
  finally have idx: "map (\<lambda>k. Some (FVal (IntV (hi_count h + 1 + int k)))) [1..<Suc (length rs)]
    = map (\<lambda>k. Some (FVal (IntV (hi_count h + int k)))) [2..<Suc (Suc (length rs))]" .
  have "[1..<Suc (Suc (length rs))] = 1 # [2..<Suc (Suc (length rs))]"
    by (simp add: upt_conv_Cons numeral_2_eq_2 del: upt_Suc)
  then show ?case
    using ih Cons.prems(2) by (simp add: i h1 idx [unfolded One_nat_def] del: upt_Suc)
qed simp

lemma split_on_lines:
  "list_all (line_codec encode parse) items \<Longrightarrow>
     split_on newline (concat (map (\<lambda>i. encode i @ [newline]) items)) = map encode items @ [[]]"
  by (induction items) (auto simp: split_on_line line_codec_def)


definition index_codec :: "record_items \<Rightarrow> int list" where
  "index_codec r = [65]"


end
