(* ===== verification/Sessions.thy ===== *)
theory Sessions
  imports Errors
begin

text \<open>
  \<open>sessions.py\<close>: the session manager. Its three dictionaries are kept apart as the code keeps them;
  \<open>sync\<close> states that they have the same keys. A coordinator is an opaque value of type \<open>'c\<close>, the
  factory's answer and the clock readings are arguments.
\<close>

section \<open>Model\<close>

record 'c manager =
  sm_ttl :: "real option"
  sm_max :: "int option"
  sm_sessions :: "(pystr \<times> 'c) list"
  sm_last :: "(pystr \<times> real) list"
  sm_created :: "(pystr \<times> real) list"

definition new_manager :: "real option \<Rightarrow> int option \<Rightarrow> 'c manager" where
  "new_manager ttl mx =
     \<lparr>sm_ttl = ttl, sm_max = mx, sm_sessions = [], sm_last = [], sm_created = []\<rparr>"

definition drop_session :: "pystr \<Rightarrow> 'c manager \<Rightarrow> 'c manager" where
  "drop_session i s =
     s\<lparr>sm_sessions := AList.delete i (sm_sessions s), sm_last := AList.delete i (sm_last s),
       sm_created := AList.delete i (sm_created s)\<rparr>"

definition get_or :: "('k \<times> 'v) list \<Rightarrow> 'k \<Rightarrow> 'v \<Rightarrow> 'v" where
  "get_or d k x = (case map_of d k of None \<Rightarrow> x | Some v \<Rightarrow> v)"

fun expire_sessions :: "real \<Rightarrow> real \<Rightarrow> pystr list \<Rightarrow> 'c manager \<Rightarrow> 'c manager \<times> pystr list" where
  "expire_sessions now ttl [] s = (s, [])"
| "expire_sessions now ttl (i # is) s =
     (if get_or (sm_last s) i now + ttl \<le> now
      then (case expire_sessions now ttl is (drop_session i s) of (s', ev) \<Rightarrow> (s', i # ev))
      else expire_sessions now ttl is s)"

definition evict :: "real \<Rightarrow> int option \<Rightarrow> 'c manager \<Rightarrow> 'c manager \<times> pystr list" where
  "evict now keep s =
     (case (case sm_ttl s of
              None \<Rightarrow> (s, [])
            | Some ttl \<Rightarrow> expire_sessions now ttl (dkeys (sm_sessions s)) s) of
        (s1, ev) \<Rightarrow>
          (case keep of
             None \<Rightarrow> (s1, ev)
           | Some k \<Rightarrow>
               if k < int (length (sm_sessions s1))
               then
                 (let by_age = sort_key (\<lambda>i. get_or (sm_last s1) i 0) (dkeys (sm_sessions s1));
                      out = slice_to (int (length (sm_sessions s1)) - k) by_age
                  in (fold drop_session out s1, ev @ out))
               else (s1, ev)))"

definition get_or_create :: "real \<Rightarrow> real \<Rightarrow> 'c \<Rightarrow> pystr \<Rightarrow> 'c manager \<Rightarrow> 'c \<times> 'c manager" where
  "get_or_create now evict_now fresh i s =
     (case map_of (sm_sessions s) i of
        Some c \<Rightarrow> (c, s\<lparr>sm_last := AList.update i now (sm_last s)\<rparr>)
      | None \<Rightarrow>
          (let keep = (case sm_max s of None \<Rightarrow> None | Some m \<Rightarrow> if m \<noteq> 0 then Some (m - 1) else None);
               s1 = fst (evict evict_now keep s)
           in (fresh,
               s1\<lparr>sm_sessions := AList.update i fresh (sm_sessions s1),
                  sm_created := AList.update i now (sm_created s1),
                  sm_last := AList.update i now (sm_last s1)\<rparr>)))"

definition get_session :: "pystr \<Rightarrow> 'c manager \<Rightarrow> 'c option" where
  "get_session i s = map_of (sm_sessions s) i"

definition touch :: "real \<Rightarrow> pystr \<Rightarrow> 'c manager \<Rightarrow> 'c manager" where
  "touch now i s =
     (if map_of (sm_sessions s) i \<noteq> None then s\<lparr>sm_last := AList.update i now (sm_last s)\<rparr> else s)"

definition delete_session :: "pystr \<Rightarrow> 'c manager \<Rightarrow> bool \<times> 'c manager" where
  "delete_session i s = (map_of (sm_sessions s) i \<noteq> None, drop_session i s)"

definition cleanup_sessions :: "real \<Rightarrow> 'c manager \<Rightarrow> pystr list \<times> 'c manager" where
  "cleanup_sessions now s = (case evict now (sm_max s) s of (s', ev) \<Rightarrow> (ev, s'))"

definition session_ids :: "'c manager \<Rightarrow> pystr list" where
  "session_ids s = dkeys (sm_sessions s)"

definition session_stats ::
    "('c \<Rightarrow> nat) \<Rightarrow> 'c manager \<Rightarrow> nat \<times> (pystr \<times> real option \<times> real option \<times> nat) list" where
  "session_stats messages s =
     (length (sm_sessions s),
      map (\<lambda>(i, c). (i, map_of (sm_created s) i, map_of (sm_last s) i, messages c)) (sm_sessions s))"

section \<open>Invariant\<close>

definition sync :: "'c manager \<Rightarrow> bool" where
  "sync s \<longleftrightarrow> dict_ok (sm_sessions s) \<and> dict_ok (sm_last s) \<and> dict_ok (sm_created s)
     \<and> set (dkeys (sm_last s)) = set (dkeys (sm_sessions s))
     \<and> set (dkeys (sm_created s)) = set (dkeys (sm_sessions s))"

definition bound_of :: "'c manager \<Rightarrow> nat option" where
  "bound_of s = (case sm_max s of None \<Rightarrow> None | Some m \<Rightarrow> if 0 < m then Some (nat m) else None)"

definition manager_ok :: "'c manager \<Rightarrow> bool" where
  "manager_ok s \<longleftrightarrow>
     sync s \<and> (case bound_of s of None \<Rightarrow> True | Some n \<Rightarrow> length (sm_sessions s) \<le> n)"

lemma dkeys_drop [simp]: "dkeys (sm_sessions (drop_session i s)) = filter (\<lambda>x. x \<noteq> i) (dkeys (sm_sessions s))"
  by (simp add: drop_session_def dkeys_delete)

lemma drop_const [simp]: "sm_max (drop_session i s) = sm_max s" "sm_ttl (drop_session i s) = sm_ttl s"
  by (simp_all add: drop_session_def)

lemma sync_drop: "sync s \<Longrightarrow> sync (drop_session i s)"
  by (auto simp: sync_def drop_session_def dkeys_delete)

lemma drop_last: "map_of (sm_last (drop_session i s)) j = (if j = i then None else map_of (sm_last s) j)"
  by (simp add: drop_session_def dict_get_delete)

lemma fold_drop:
  "sync s \<Longrightarrow> sync (fold drop_session is s)"
  "dkeys (sm_sessions (fold drop_session is s)) = filter (\<lambda>x. x \<notin> set is) (dkeys (sm_sessions s))"
  "sm_max (fold drop_session is s) = sm_max s"
  "j \<notin> set is \<Longrightarrow> map_of (sm_last (fold drop_session is s)) j = map_of (sm_last s) j"
proof (induction "is" arbitrary: s)
  case (Cons i "is")
  {
    case 1 then show ?case using Cons(1) [of "drop_session i s"] by (simp add: sync_drop)
  next
    case 2 show ?case using Cons(2) [of "drop_session i s"] by (auto intro: filter_cong)
  next
    case 3 show ?case using Cons(3) [of "drop_session i s"] by simp
  next
    case 4 then show ?case using Cons(4) [of "drop_session i s"] by (simp add: drop_last)
  }
qed simp_all

text \<open>The expiry pass drops exactly the expired sessions.\<close>

lemma expire_sessions_fold:
  assumes "distinct is"
  shows "expire_sessions now ttl is s =
    (let ev = filter (\<lambda>i. get_or (sm_last s) i now + ttl \<le> now) is in (fold drop_session ev s, ev))"
  using assms
proof (induction "is" arbitrary: s)
  case (Cons i "is")
  have "filter (\<lambda>j. get_or (sm_last (drop_session i s)) j now + ttl \<le> now) is
      = filter (\<lambda>j. get_or (sm_last s) j now + ttl \<le> now) is"
    by (rule filter_cong [OF refl]) (use Cons.prems in \<open>auto simp: get_or_def drop_last\<close>)
  then show ?case using Cons by (simp add: Let_def)
qed simp

lemma length_filter_notin:
  "distinct xs \<Longrightarrow> distinct ys \<Longrightarrow> set ys \<subseteq> set xs \<Longrightarrow> length (filter (\<lambda>x. x \<notin> set ys) xs) = length xs - length ys"
proof -
  assume d: "distinct xs" "distinct ys" "set ys \<subseteq> set xs"
  have "set (filter (\<lambda>x. x \<notin> set ys) xs) = set xs - set ys" by auto
  then have "length (filter (\<lambda>x. x \<notin> set ys) xs) = card (set xs - set ys)"
    using distinct_card [of "filter (\<lambda>x. x \<notin> set ys) xs"] d(1) by simp
  also have "\<dots> = length xs - length ys"
    using d by (simp add: card_Diff_subset distinct_card)
  finally show ?thesis .
qed

text \<open>What \<open>_evict_locked\<close> does: \<open>ev\<close> leaves, everything else stays as it was.\<close>

definition is_expired :: "real \<Rightarrow> 'c manager \<Rightarrow> pystr \<Rightarrow> bool" where
  "is_expired now s i \<longleftrightarrow>
     (case (sm_ttl s, map_of (sm_last s) i) of (Some ttl, Some l) \<Rightarrow> l + ttl \<le> now | _ \<Rightarrow> False)"

lemma sorted_take_drop:
  assumes "sorted (map f xs)" "x \<in> set (take n xs)" "y \<in> set (drop n xs)"
  shows "f x \<le> f y"
proof -
  have "sorted (map f (take n xs) @ map f (drop n xs))"
    using assms(1) by (metis append_take_drop_id map_append)
  with assms(2,3) show ?thesis by (auto simp: sorted_append)
qed

lemma sync_last: "sync s \<Longrightarrow> i \<in> set (dkeys (sm_sessions s)) \<Longrightarrow> \<exists>l. map_of (sm_last s) i = Some l"
  by (cases "map_of (sm_last s) i") (auto simp: sync_def map_of_eq_None_iff)

lemma evict_spec:
  assumes "sync s" "evict now keep s = (s', ev)"
  shows "sync s'" "sm_max s' = sm_max s"
    "dkeys (sm_sessions s') = filter (\<lambda>i. i \<notin> set ev) (dkeys (sm_sessions s))"
    "\<And>i. i \<in> set (dkeys (sm_sessions s')) \<Longrightarrow> \<not> is_expired now s i"
    "\<And>k. keep = Some k \<Longrightarrow> length (sm_sessions s') \<le> nat (max 0 k)"
    "\<And>i j. i \<in> set ev \<Longrightarrow> j \<in> set (dkeys (sm_sessions s')) \<Longrightarrow>
       is_expired now s i \<or> get_or (sm_last s) i 0 \<le> get_or (sm_last s) j 0"
    "\<And>i. i \<in> set ev \<Longrightarrow> is_expired now s i
       \<or> (\<exists>k. keep = Some k \<and> k < int (length (filter (\<lambda>i. \<not> is_expired now s i) (dkeys (sm_sessions s)))))"
proof -
  let ?K = "dkeys (sm_sessions s)"
  let ?ex = "filter (is_expired now s) ?K"
  define s1 where "s1 = fold drop_session ?ex s"
  define ex where "ex = ?ex"
  have dist: "distinct ?K" using assms(1) by (simp add: sync_def dict_ok_def)
  have first: "(case sm_ttl s of None \<Rightarrow> (s, []) | Some ttl \<Rightarrow> expire_sessions now ttl ?K s) = (s1, ex)"
  proof (cases "sm_ttl s")
    case None
    then show ?thesis by (simp add: is_expired_def [abs_def] s1_def ex_def)
  next
    case (Some ttl)
    have "filter (\<lambda>i. get_or (sm_last s) i now + ttl \<le> now) ?K = ?ex"
    proof (rule filter_cong [OF refl])
      fix i assume "i \<in> set ?K"
      then obtain l where "map_of (sm_last s) i = Some l" using sync_last [OF assms(1)] by blast
      then show "(get_or (sm_last s) i now + ttl \<le> now) = is_expired now s i"
        by (simp add: get_or_def is_expired_def Some)
    qed
    then show ?thesis by (simp add: Some expire_sessions_fold [OF dist] Let_def s1_def ex_def)
  qed
  note f1 = fold_drop [where s = s and ?is = ?ex, folded s1_def]
  have sync1: "sync s1" by (rule f1(1) [OF assms(1)])
  have keys1: "dkeys (sm_sessions s1) = filter (\<lambda>i. \<not> is_expired now s i) ?K"
    unfolding f1(2) by (rule filter_cong) auto
  have last1: "i \<in> set (dkeys (sm_sessions s1)) \<Longrightarrow> get_or (sm_last s1) i x = get_or (sm_last s) i x" for i x
    using f1(4) [of i] by (auto simp: keys1 get_or_def)
  have len1: "length (sm_sessions s1) = length (filter (\<lambda>i. \<not> is_expired now s i) ?K)"
    using keys1 by (metis length_map)
  define out where "out k = slice_to (int (length (sm_sessions s1)) - k)
      (sort_key (\<lambda>i. get_or (sm_last s1) i 0) (dkeys (sm_sessions s1)))" for k
  have ev: "(s', ev) = (case keep of None \<Rightarrow> (s1, ex)
      | Some k \<Rightarrow> if k < int (length (sm_sessions s1)) then (fold drop_session (out k) s1, ex @ out k)
                 else (s1, ex))"
    using assms(2) unfolding evict_def first out_def Let_def prod.case by (rule sym)
  consider (few) "s' = s1" "ev = ex" "\<And>k. keep = Some k \<Longrightarrow> int (length (sm_sessions s1)) \<le> k"
    | (many) k where "keep = Some k" "k < int (length (sm_sessions s1))"
        "s' = fold drop_session (out k) s1" "ev = ex @ out k"
  proof (cases keep)
    case None
    show thesis by (rule few) (use ev in \<open>simp_all add: None\<close>)
  next
    case (Some k)
    show thesis
    proof (cases "k < int (length (sm_sessions s1))")
      case True
      show thesis by (rule many [OF Some True]) (use ev True in \<open>simp_all add: Some\<close>)
    next
      case False
      show thesis by (rule few) (use ev False in \<open>simp_all add: Some\<close>)
    qed
  qed
  then have all: "sync s' \<and> sm_max s' = sm_max s
    \<and> dkeys (sm_sessions s') = filter (\<lambda>i. i \<notin> set ev) ?K
    \<and> (\<forall>i \<in> set (dkeys (sm_sessions s')). \<not> is_expired now s i)
    \<and> (\<forall>k. keep = Some k \<longrightarrow> length (sm_sessions s') \<le> nat (max 0 k))
    \<and> (\<forall>i \<in> set ev. \<forall>j \<in> set (dkeys (sm_sessions s')).
         is_expired now s i \<or> get_or (sm_last s) i 0 \<le> get_or (sm_last s) j 0)
    \<and> (\<forall>i \<in> set ev. is_expired now s i \<or> (\<exists>k. keep = Some k \<and> k < int (length (sm_sessions s1))))"
  proof cases
    case few
    have "length (sm_sessions s1) \<le> nat (max 0 k)" if "keep = Some k" for k
      using few(3) [OF that] by linarith
    moreover have "filter (\<lambda>i. \<not> is_expired now s i) ?K = filter (\<lambda>i. i \<notin> set ex) ?K"
      by (rule filter_cong) (auto simp: ex_def)
    ultimately show ?thesis using sync1 keys1 f1(3) by (auto simp: few(1,2) ex_def)
  next
    case (many k)
    let ?n = "nat (int (length (sm_sessions s1)) - k)"
    let ?srt = "sort_key (\<lambda>i. get_or (sm_last s1) i 0) (dkeys (sm_sessions s1))"
    have out: "out k = take ?n ?srt" using many(2) by (simp add: slice_to_def out_def)
    have ds: "distinct ?srt" "set ?srt = set (dkeys (sm_sessions s1))"
      using sync1 by (simp_all add: sync_def dict_ok_def)
    have keys': "dkeys (sm_sessions s') = filter (\<lambda>i. i \<notin> set (take ?n ?srt)) (dkeys (sm_sessions s1))"
      unfolding many(3) out by (rule fold_drop(2))
    have "sync s'" "sm_max s' = sm_max s" unfolding many(3) using fold_drop(1) [OF sync1] f1(3) by (simp_all add: fold_drop(3))
    moreover have "dkeys (sm_sessions s') = filter (\<lambda>i. i \<notin> set ev) ?K"
      unfolding keys' keys1 many(4) out filter_filter by (rule filter_cong) (auto simp: ex_def)
    moreover have "\<forall>i \<in> set (dkeys (sm_sessions s')). \<not> is_expired now s i" unfolding keys' keys1 by auto
    moreover have "length (sm_sessions s') \<le> nat (max 0 k)"
    proof -
      have "length (sm_sessions s') = length (dkeys (sm_sessions s'))" by simp
      also have "\<dots> = length (dkeys (sm_sessions s1)) - length (take ?n ?srt)"
        unfolding keys' using sync1 ds
        by (intro length_filter_notin) (auto simp: sync_def dict_ok_def dest: in_set_takeD)
      finally show ?thesis using many(2) by auto
    qed
    moreover have "get_or (sm_last s) i 0 \<le> get_or (sm_last s) j 0"
      if "i \<in> set (take ?n ?srt)" "j \<in> set (dkeys (sm_sessions s'))" for i j
    proof -
      have j: "j \<in> set ?srt" "j \<notin> set (take ?n ?srt)" using that(2) ds by (auto simp: keys')
      then have "j \<in> set (drop ?n ?srt)" by (metis Un_iff append_take_drop_id set_append)
      from sorted_take_drop [where f = "\<lambda>i. get_or (sm_last s1) i 0", OF _ that(1) this] have
        "get_or (sm_last s1) i 0 \<le> get_or (sm_last s1) j 0" by (simp add: sorted_sort_key)
      moreover have "i \<in> set (dkeys (sm_sessions s1))" using in_set_takeD [OF that(1)] ds(2) by blast
      ultimately show ?thesis using last1 [of i 0] last1 [of j 0] j(1) ds(2) by metis
    qed
    ultimately show ?thesis using many(1,2) unfolding many(4) out by (auto simp: ex_def)
  qed
  note c = all [THEN conjunct1] all [THEN conjunct2]
  note d = c(2) [THEN conjunct1] c(2) [THEN conjunct2, THEN conjunct1]
    c(2) [THEN conjunct2, THEN conjunct2]
  note e = d(3) [THEN conjunct1] d(3) [THEN conjunct2, THEN conjunct1]
    d(3) [THEN conjunct2, THEN conjunct2]
  show "sync s'" by (rule c(1))
  show "sm_max s' = sm_max s" by (rule d(1))
  show "dkeys (sm_sessions s') = filter (\<lambda>i. i \<notin> set ev) ?K" by (rule d(2))
  show "\<not> is_expired now s i" if "i \<in> set (dkeys (sm_sessions s'))" for i by (rule bspec [OF e(1) that])
  show "length (sm_sessions s') \<le> nat (max 0 k)" if "keep = Some k" for k using e(2) that by simp
  show "is_expired now s i \<or> get_or (sm_last s) i 0 \<le> get_or (sm_last s) j 0"
    if "i \<in> set ev" "j \<in> set (dkeys (sm_sessions s'))" for i j
    by (rule bspec [OF bspec [OF e(3) [THEN conjunct1] that(1)] that(2)])
  show "is_expired now s i
      \<or> (\<exists>k. keep = Some k \<and> k < int (length (filter (\<lambda>i. \<not> is_expired now s i) ?K)))"
    if "i \<in> set ev" for i
    by (rule bspec [OF e(3) [THEN conjunct2, unfolded len1] that])
qed

section \<open>The manager as a machine\<close>

datatype 'c session_op =
    GetOrCreate real real 'c pystr
  | Touch real pystr
  | DeleteSession pystr
  | Cleanup real

definition session_step :: "'c manager \<Rightarrow> 'c session_op \<Rightarrow> 'c manager" where
  "session_step s e =
     (case e of
        GetOrCreate now enow fresh i \<Rightarrow> snd (get_or_create now enow fresh i s)
      | Touch now i \<Rightarrow> touch now i s
      | DeleteSession i \<Rightarrow> snd (delete_session i s)
      | Cleanup now \<Rightarrow> snd (cleanup_sessions now s))"

lemma sync_touch: "sync s \<Longrightarrow> i \<in> set (dkeys (sm_sessions s)) \<Longrightarrow> sync (s\<lparr>sm_last := AList.update i x (sm_last s)\<rparr>)"
  by (auto simp: sync_def dkeys_update)

lemma touch_ok:
  "manager_ok s \<Longrightarrow> i \<in> set (dkeys (sm_sessions s)) \<Longrightarrow> manager_ok (s\<lparr>sm_last := AList.update i x (sm_last s)\<rparr>)"
  using sync_touch [of s i x] by (auto simp: manager_ok_def bound_of_def split: option.splits)

lemma sync_create:
  "sync s \<Longrightarrow> sync (s\<lparr>sm_sessions := AList.update i c (sm_sessions s),
      sm_created := AList.update i x (sm_created s), sm_last := AList.update i y (sm_last s)\<rparr>)"
  by (auto simp: sync_def dkeys_update)

lemma evict_ok:
  assumes "manager_ok s"
  shows "manager_ok (fst (evict now keep s))" "sm_max (fst (evict now keep s)) = sm_max s"
proof -
  obtain s' ev where e: "evict now keep s = (s', ev)" by fastforce
  have sy: "sync s" using assms by (simp add: manager_ok_def)
  note spec = evict_spec [OF sy e]
  have "length (dkeys (sm_sessions s')) \<le> length (dkeys (sm_sessions s))"
    unfolding spec(3) by (rule length_filter_le)
  with assms spec(1,2) show "manager_ok (fst (evict now keep s))" "sm_max (fst (evict now keep s)) = sm_max s"
    by (auto simp: e manager_ok_def bound_of_def split: option.splits)
qed

lemma get_or_create_ok: "manager_ok s \<Longrightarrow> manager_ok (snd (get_or_create now enow c i s))"
proof (cases "map_of (sm_sessions s) i")
  case (Some d)
  assume ok: "manager_ok s"
  have "i \<in> set (dkeys (sm_sessions s))" using Some by (force dest: map_of_SomeD)
  with ok show ?thesis by (simp add: get_or_create_def Some touch_ok)
next
  case None
  assume ok: "manager_ok s"
  let ?keep = "case sm_max s of None \<Rightarrow> None | Some m \<Rightarrow> if m \<noteq> 0 then Some (m - 1) else None"
  obtain s1 ev where e: "evict enow ?keep s = (s1, ev)" by fastforce
  have sy: "sync s" using ok by (simp add: manager_ok_def)
  note spec = evict_spec [OF sy e]
  have "i \<notin> set (dkeys (sm_sessions s1))" using None unfolding spec(3) by (simp add: map_of_eq_None_iff)
  then have len: "length (AList.update i c (sm_sessions s1)) = Suc (length (sm_sessions s1))"
    by (simp add: length_update)
  have "Suc (length (sm_sessions s1)) \<le> n" if "bound_of s = Some n" for n
  proof -
    have "\<exists>m. sm_max s = Some m \<and> 0 < m \<and> n = nat m"
      using that by (auto simp: bound_of_def split: option.splits if_splits)
    then obtain m where m: "sm_max s = Some m" "0 < m" "n = nat m" by blast
    from m(1,2) have "length (sm_sessions s1) \<le> nat (max 0 (m - 1))" using spec(5) [of "m - 1"] by simp
    with m(2,3) show ?thesis by linarith
  qed
  then show ?thesis
    using sync_create [OF spec(1)] len spec(2)
    by (auto simp: get_or_create_def None Let_def e manager_ok_def bound_of_def split: option.splits)
qed

lemma drop_ok: "manager_ok s \<Longrightarrow> manager_ok (drop_session i s)"
proof -
  assume ok: "manager_ok s"
  have "length (sm_sessions (drop_session i s)) \<le> length (sm_sessions s)"
    by (simp add: drop_session_def AList.length_delete_le)
  with ok show ?thesis by (auto simp: manager_ok_def sync_drop bound_of_def split: option.splits)
qed

interpretation sessions: step_machine session_step manager_ok
proof
  fix s e
  assume ok: "manager_ok s"
  show "manager_ok (session_step s e)"
  proof (cases e)
    case (GetOrCreate now enow c i)
    then show ?thesis using get_or_create_ok [OF ok] by (simp add: session_step_def)
  next
    case (Touch now i)
    then show ?thesis
      using touch_ok [OF ok, of i now] ok by (auto simp: session_step_def touch_def map_of_eq_None_iff)
  next
    case (DeleteSession i)
    then show ?thesis using drop_ok [OF ok] by (simp add: session_step_def delete_session_def)
  next
    case (Cleanup now)
    then show ?thesis
      using evict_ok(1) [OF ok] by (simp add: session_step_def cleanup_sessions_def case_prod_unfold)
  qed
qed

lemma session_step_max: "manager_ok s \<Longrightarrow> sm_max (session_step s e) = sm_max s"
  using evict_ok(2) [of s]
  by (cases e) (auto simp: session_step_def get_or_create_def touch_def delete_session_def
      cleanup_sessions_def case_prod_unfold Let_def split: option.splits)

lemma session_run_max: "manager_ok s \<Longrightarrow> sm_max (foldl session_step s es) = sm_max s"
  by (induction es arbitrary: s) (auto simp: session_step_max sessions.step_inv)

text \<open>What eviction leaves is as it was.\<close>

definition subsessions :: "'c manager \<Rightarrow> 'c manager \<Rightarrow> bool" where
  "subsessions s' s \<longleftrightarrow> (\<forall>j. get_session j s' = get_session j s \<or> get_session j s' = None)"

lemma subsessions_refl: "subsessions s s"
  by (simp add: subsessions_def)

lemma subsessions_trans: "subsessions s2 s1 \<Longrightarrow> subsessions s1 s \<Longrightarrow> subsessions s2 s"
  unfolding subsessions_def by metis

lemma subsessions_drop: "subsessions (drop_session i s) s"
  by (simp add: subsessions_def get_session_def drop_session_def dict_get_delete)

lemma subsessions_fold: "subsessions (fold drop_session is s) s"
  by (induction "is" arbitrary: s) (auto intro: subsessions_refl subsessions_trans [OF _ subsessions_drop])

lemma subsessions_expire: "subsessions (fst (expire_sessions now ttl is s)) s"
  by (induction now ttl "is" s rule: expire_sessions.induct)
    (auto simp: case_prod_unfold intro: subsessions_refl subsessions_trans [OF _ subsessions_drop])

lemma subsessions_evict: "subsessions (fst (evict now keep s)) s"
proof -
  obtain s1 ev where e: "(case sm_ttl s of None \<Rightarrow> (s, [])
      | Some ttl \<Rightarrow> expire_sessions now ttl (dkeys (sm_sessions s)) s) = (s1, ev)" by fastforce
  have s1: "subsessions s1 s"
    using e subsessions_expire [of now _ "dkeys (sm_sessions s)" s] subsessions_refl [of s]
    by (cases "sm_ttl s") (auto, metis fst_conv)
  have "subsessions (fst (evict now keep s)) s1"
    unfolding evict_def e
    by (simp add: Let_def subsessions_refl subsessions_fold split: option.split)
  then show ?thesis by (rule subsessions_trans [OF _ s1])
qed

section \<open>Properties\<close>

text \<open>
  C28. The number of sessions is bounded: with a positive \<open>max_sessions\<close>, no sequence of operations
  leaves more sessions than that, and the three dictionaries of the manager always describe the same
  sessions.
\<close>

theorem sessions_bounded:
  assumes "0 < m"
  shows "length (sm_sessions (foldl session_step (new_manager ttl (Some m)) es)) \<le> nat m
    \<and> sync (foldl session_step (new_manager ttl (Some m)) es)"
proof -
  let ?s0 = "new_manager ttl (Some m) :: 'a manager"
  have ok0: "manager_ok ?s0"
    using assms by (simp add: manager_ok_def sync_def bound_of_def new_manager_def)
  have ok: "manager_ok (foldl session_step ?s0 es)" by (rule sessions.run_inv [OF ok0])
  have "sm_max (foldl session_step ?s0 es) = Some m"
    unfolding session_run_max [OF ok0] by (simp add: new_manager_def)
  with ok assms show ?thesis by (simp add: manager_ok_def bound_of_def)
qed

theorem sessions_bounded_witness:
  "length (sm_sessions (foldl session_step (new_manager None (Some 1))
     [GetOrCreate 0 0 True [1], GetOrCreate 1 1 False [2]])) \<le> 1"
  using sessions_bounded [of 1 None "[GetOrCreate 0 0 True [1], GetOrCreate 1 1 False [2]]"] by simp

text \<open>
  Eviction is exact: afterwards no session that had expired is left and no more than \<open>keep\<close>
  remain; a session that had not expired is evicted only when more than \<open>keep\<close> were live, and then no
  session that stays was idle for longer than one that goes.
\<close>

theorem eviction_exact:
  assumes "sync s" "evict now (Some k) s = (s', ev)" "0 \<le> k"
  shows "dkeys (sm_sessions s') = filter (\<lambda>i. i \<notin> set ev) (dkeys (sm_sessions s))
    \<and> list_all (\<lambda>i. \<not> is_expired now s i) (dkeys (sm_sessions s'))
    \<and> int (length (sm_sessions s')) \<le> k
    \<and> list_all (\<lambda>i. is_expired now s i
         \<or> k < int (length (filter (\<lambda>i. \<not> is_expired now s i) (dkeys (sm_sessions s))))
           \<and> list_all (\<lambda>j. get_or (sm_last s) i 0 \<le> get_or (sm_last s) j 0) (dkeys (sm_sessions s'))) ev"
proof -
  note spec = evict_spec [OF assms(1,2)]
  have "int (length (sm_sessions s')) \<le> k" using spec(5) [OF refl] assms(3) by linarith
  moreover have "list_all (\<lambda>i. \<not> is_expired now s i) (dkeys (sm_sessions s'))"
    using spec(4) unfolding list_all_iff by blast
  moreover have "list_all (\<lambda>i. is_expired now s i
         \<or> k < int (length (filter (\<lambda>i. \<not> is_expired now s i) (dkeys (sm_sessions s))))
           \<and> list_all (\<lambda>j. get_or (sm_last s) i 0 \<le> get_or (sm_last s) j 0) (dkeys (sm_sessions s'))) ev"
    using spec(6,7) unfolding list_all_iff by blast
  ultimately show ?thesis using spec(3) by blast
qed

theorem eviction_exact_witness:
  "int (length (sm_sessions (fst (evict 5 (Some 0) (snd (get_or_create 1 1 True [7] (new_manager None None))))))) \<le> 0"
proof -
  let ?s = "snd (get_or_create 1 1 True [7] (new_manager None None))"
  obtain s' ev where e: "evict 5 (Some 0) ?s = (s', ev)" by fastforce
  have "sync ?s" by (simp add: get_or_create_def new_manager_def evict_def sync_def dict_ok_def)
  from eviction_exact [OF this e] show ?thesis by (simp add: e)
qed

text \<open>
  \<open>get_or_create\<close> hands out one coordinator per session: an existing session keeps its coordinator
  and no other session changes, expired or not; an unknown id gets the fresh one, and the sessions
  that remain keep theirs.
\<close>

theorem get_or_create_stable:
  assumes "sync s" "get_or_create now enow fresh i s = (c, s')"
  shows "get_session i s' = Some c \<and> map_of (sm_last s') i = Some now
    \<and> (case get_session i s of
          Some d \<Rightarrow> c = d \<and> (\<forall>j. get_session j s' = get_session j s)
        | None \<Rightarrow> c = fresh \<and> (\<forall>j. j \<noteq> i \<longrightarrow> get_session j s' = get_session j s \<or> get_session j s' = None))"
proof (cases "map_of (sm_sessions s) i")
  case (Some d)
  with assms(2) show ?thesis
    by (auto simp: get_or_create_def get_session_def dict_get_update)
next
  case None
  let ?s1 = "fst (evict enow (case sm_max s of None \<Rightarrow> None
      | Some m \<Rightarrow> if m \<noteq> 0 then Some (m - 1) else None) s)"
  have "(fresh, ?s1\<lparr>sm_sessions := AList.update i fresh (sm_sessions ?s1),
      sm_created := AList.update i now (sm_created ?s1), sm_last := AList.update i now (sm_last ?s1)\<rparr>) = (c, s')"
    using assms(2) unfolding get_or_create_def None Let_def option.case .
  note pr = this [unfolded prod.inject]
  have c: "fresh = c" by (rule pr [THEN conjunct1])
  have s': "?s1\<lparr>sm_sessions := AList.update i fresh (sm_sessions ?s1),
      sm_created := AList.update i now (sm_created ?s1), sm_last := AList.update i now (sm_last ?s1)\<rparr> = s'"
    by (rule pr [THEN conjunct2])
  have "get_session j s' = get_session j s \<or> get_session j s' = None" if "j \<noteq> i" for j
  proof -
    have "get_session j s' = get_session j ?s1" using that by (simp add: s' [symmetric] get_session_def dict_get_update)
    then show ?thesis using subsessions_evict unfolding subsessions_def by metis
  qed
  then show ?thesis using None c by (auto simp: get_session_def s' [symmetric] dict_get_update)
qed

theorem get_or_create_stable_witness:
  "get_session [7] (snd (get_or_create 1 1 True [7] (new_manager None None))) = Some True"
proof -
  let ?p = "get_or_create 1 1 True [7] (new_manager None None)"
  have p: "?p = (True, snd ?p)" by (simp add: prod_eq_iff get_or_create_def new_manager_def Let_def)
  have "sync (new_manager None None :: bool manager)" by (simp add: new_manager_def sync_def)
  from get_or_create_stable [OF this p] show ?thesis by blast
qed

end
