(* ===== verification/Adapter.thy ===== *)
theory Adapter
  imports Config History Sessions
begin

text \<open>
  \<open>DeepseekAdapter\<close> of \<open>coordinator.py\<close>: the events of the harness turned into operations of a coordinator.
  Coordinators are objects of \<open>sv_coords\<close>, named by their place: the default one and those the session
  manager hands out. An event is the JSON object that came in; the entries that may hold fractional numbers
  are kept apart from it. \<open>site\<close> gathers what comes from outside: the factory of session coordinators, the
  run slots other events give back while one waits, and the JSON of a history line.
\<close>

section \<open>State\<close>

definition DEFAULT_REGISTER_KINDS :: "pystr list" where
  "DEFAULT_REGISTER_KINDS = [u ''mock'', u ''echo'', u ''deepseek'', u ''openai'']"

definition OPT_IN_REGISTER_KINDS :: "pystr list" where
  "OPT_IN_REGISTER_KINDS = [u ''cli'', u ''http'', u ''custom'', u ''fallback'']"

definition MAX_REGISTER_AGENTS :: nat where
  "MAX_REGISTER_AGENTS = 100"

record 'w server =
  sv_rt :: "'w rt"
  sv_coords :: "'w coord list"
  sv_default :: nat
  sv_registry :: "nat manager option"
  sv_history :: "history option"
  sv_prompt_limit :: "int option"
  sv_final_limit :: "int option"
  sv_max :: nat
  sv_free :: nat
  sv_kinds :: "pystr list"

record 'w site =
  si_host :: "'w host"
  si_read :: "pydict \<Rightarrow> 'w kwargs"
  si_factory :: "'w \<Rightarrow> (exn + 'w coord) \<times> 'w"
  si_freed :: "'w \<Rightarrow> nat \<times> 'w"
  si_line :: "record_items \<Rightarrow> int list"
  si_parse :: "int list \<Rightarrow> record_items option"

record event =
  ev_items :: pydict
  ev_timeout :: "real option"
  ev_run_timeout :: "(exn + real) option"
  ev_budget :: run_budget

definition ev_get :: "event \<Rightarrow> string \<Rightarrow> pyval" where
  "ev_get ev k = dget (ev_items ev) k"

text \<open>A dictionary an event handler returns; \<open>Failed\<close> is the one with an \<open>"error"\<close>.\<close>

datatype reply =
    Failed pystr
  | Answered strat_result
  | AgentList "pydict list"
  | Status "pystr list" "pystr option" nat
  | Registered "pystr list"
  | Records "record_items list"
  | NoHistory

definition new_adapter ::
    "'w rt \<Rightarrow> 'w coord list \<Rightarrow> nat \<Rightarrow> nat manager option \<Rightarrow> history option \<Rightarrow> int option \<Rightarrow> int option
     \<Rightarrow> int \<Rightarrow> pystr list option \<Rightarrow> 'w server" where
  "new_adapter rt coords i registry hist prompt_limit final_limit max_runs kinds =
     (let n = nat (max 1 max_runs)
      in \<lparr>sv_rt = rt, sv_coords = coords, sv_default = i, sv_registry = registry, sv_history = hist,
          sv_prompt_limit = prompt_limit, sv_final_limit = final_limit, sv_max = n, sv_free = n,
          sv_kinds = (case kinds of None \<Rightarrow> DEFAULT_REGISTER_KINDS | Some ks \<Rightarrow> ks)\<rparr>)"

definition sv_world :: "'w server \<Rightarrow> 'w" where
  "sv_world s = rt_world (sv_rt s)"

definition set_world :: "'w \<Rightarrow> 'w server \<Rightarrow> 'w server" where
  "set_world w s = s\<lparr>sv_rt := (sv_rt s)\<lparr>rt_world := w\<rparr>\<rparr>"

definition coord_at :: "'w server \<Rightarrow> nat \<Rightarrow> 'w coord" where
  "coord_at s i = sv_coords s ! i"

text \<open>An action of a run, on the coordinator at \<open>i\<close>.\<close>

definition on_coordinator :: "nat \<Rightarrow> ('a, 'w) act \<Rightarrow> 'w server \<Rightarrow> ((exn + 'a) \<times> 'w server) option" where
  "on_coordinator i m s =
     (case m ((sv_rt s)\<lparr>rt_coord := coord_at s i\<rparr>) of
        None \<Rightarrow> None
      | Some (r, t) \<Rightarrow> Some (r, s\<lparr>sv_rt := t, sv_coords := (sv_coords s)[i := rt_coord t]\<rparr>))"

section \<open>The coordinator of an event\<close>

text \<open>A new session evicts others before its coordinator is made; the factory may raise.\<close>

definition session_coordinator ::
    "'w site \<Rightarrow> pystr \<Rightarrow> nat manager \<Rightarrow> 'w server \<Rightarrow> (exn + nat) \<times> 'w server" where
  "session_coordinator si sid m s =
     (let now = x_clock (ho_x (si_host si)) (sv_world s); i = length (sv_coords s)
      in if get_session sid m \<noteq> None
         then (case get_or_create now now i sid m of (c, m1) \<Rightarrow> (Inr c, s\<lparr>sv_registry := Some m1\<rparr>))
         else
           (case si_factory si (sv_world s) of
              (Inl e, w1) \<Rightarrow>
                (Inl e, set_world w1 (s\<lparr>sv_registry :=
                   Some (fst (evict now (case sm_max m of None \<Rightarrow> None | Some k \<Rightarrow> if k \<noteq> 0 then Some (k - 1) else None) m))\<rparr>))
            | (Inr c, w1) \<Rightarrow>
                (case get_or_create now now i sid m of
                   (j, m1) \<Rightarrow>
                     (Inr j, set_world w1 (s\<lparr>sv_registry := Some m1, sv_coords := sv_coords s @ [c]\<rparr>)))))"

definition session_of :: "event \<Rightarrow> pystr option" where
  "session_of ev = (case ev_get ev ''session_id'' of StrV i \<Rightarrow> Some i | _ \<Rightarrow> None)"

definition coordinator_for :: "'w site \<Rightarrow> event \<Rightarrow> 'w server \<Rightarrow> (exn + nat) \<times> 'w server" where
  "coordinator_for si ev s =
     (case (session_of ev, sv_registry s) of
        (Some sid, Some m) \<Rightarrow> if sid = [] then (Inr (sv_default s), s) else session_coordinator si sid m s
      | _ \<Rightarrow> (Inr (sv_default s), s))"

section \<open>Runs\<close>

definition cut_text :: "pystr \<Rightarrow> int option \<Rightarrow> pystr" where
  "cut_text v limit =
     (case limit of
        None \<Rightarrow> v
      | Some l \<Rightarrow>
          (let n = nat (max 0 l)
           in if n = 0 then [] else if length v \<le> n then v else take n v @ ELLIPSIS))"

definition history_record :: "'w server \<Rightarrow> event \<Rightarrow> strat_result \<Rightarrow> record_items" where
  "history_record s ev res =
     [(u ''strategy'', FVal (StrV (sr_strategy res))),
      (u ''prompt'', FVal (StrV (cut_text (sr_prompt res) (sv_prompt_limit s)))),
      (u ''final'', FVal (StrV (cut_text (sr_final res) (sv_final_limit s)))),
      (u ''rounds'', FVal (IntV (int (length (sr_rounds res))))),
      (u ''session_id'', FVal (ev_get ev ''session_id'')),
      (u ''elapsed_seconds'', FNum (mt_elapsed (sr_meta res))),
      (u ''run_id'', FVal (opt_str (mt_run_id (sr_meta res))))]"

definition record_history :: "'w site \<Rightarrow> event \<Rightarrow> strat_result \<Rightarrow> 'w server \<Rightarrow> 'w server" where
  "record_history si ev res s =
     s\<lparr>sv_history := map_option
         (\<lambda>h. snd (append_run (si_line si) (x_stamp (ho_x (si_host si)) (sv_world s)) (history_record s ev res) h))
         (sv_history s)\<rparr>"

text \<open>The names an event lists: the elements of what it iterates over.\<close>

definition names_of :: "pyval \<Rightarrow> pystr list" where
  "names_of v = (case py_iter v of Inl e \<Rightarrow> [] | Inr vs \<Rightarrow> map py_str vs)"

definition given :: "pyval \<Rightarrow> pyval option" where
  "given v = (if v = NoneV then None else Some v)"

definition event_args :: "event \<Rightarrow> run_args" where
  "event_args ev =
     \<lparr>ra_context = (case ev_get ev ''context'' of DictV d \<Rightarrow> Some (DictArg d) | _ \<Rightarrow> None),
      ra_cache = given (ev_get ev ''cache''), ra_session = session_of ev,
      ra_run_timeout = ev_run_timeout ev, ra_budget = ev_budget ev, ra_timeout = map_option Some (ev_timeout ev),
      ra_opts =
        \<lparr>op_rounds = given (ev_get ev ''rounds''), op_judge = map_option py_str (given (ev_get ev ''judge'')),
         op_order = names_of (ev_get ev ''order''), op_supervisor = None,
         op_workers = names_of (ev_get ev ''workers''), op_timeout = None\<rparr>\<rparr>"

text \<open>The bounded semaphore: a slot is taken when one is free at the end of the wait.\<close>

definition take_slot :: "'w site \<Rightarrow> 'w server \<Rightarrow> bool \<times> 'w server" where
  "take_slot si s =
     (case si_freed si (sv_world s) of
        (n, w1) \<Rightarrow>
          (let free = min (sv_max s) (sv_free s + n); s1 = set_world w1 s
           in if free = 0 then (False, s1\<lparr>sv_free := 0\<rparr>) else (True, s1\<lparr>sv_free := free - 1\<rparr>)))"

definition give_slot :: "'w server \<Rightarrow> exn option \<times> 'w server" where
  "give_slot s =
     (if sv_max s \<le> sv_free s then (Some (Exn CValueError (u ''Semaphore released too many times'')), s)
      else (None, s\<lparr>sv_free := sv_free s + 1\<rparr>))"

definition strategy_of :: "event \<Rightarrow> pystr" where
  "strategy_of ev =
     (case map_of (ev_items ev) (u ''strategy'') of None \<Rightarrow> u ''auto'' | Some v \<Rightarrow> py_str v)"

definition handle_run ::
    "'w site \<Rightarrow> event \<Rightarrow> nat \<Rightarrow> 'w server \<Rightarrow> ((exn + reply) \<times> 'w server) option" where
  "handle_run si ev i s =
     (let prompt = ev_get ev ''prompt''
      in if \<not> truthy prompt then Some (Inr (Failed (u ''missing prompt'')), s)
         else
           (case take_slot si s of
              (False, s1) \<Rightarrow> Some (Inr (Failed (u ''too many concurrent runs'')), s1)
            | (True, s1) \<Rightarrow>
                (case on_coordinator i
                        (coordinator_run (si_host si) (py_str prompt) (strategy_of ev) (event_args ev)) s1 of
                   None \<Rightarrow> None
                 | Some (out, s2) \<Rightarrow>
                     (case give_slot s2 of
                        (Some e, s3) \<Rightarrow> Some (Inl e, s3)
                      | (None, s3) \<Rightarrow>
                          (case out of
                             Inl e \<Rightarrow> Some (Inl e, s3)
                           | Inr res \<Rightarrow> Some (Inr (Answered res), record_history si ev res s3))))))"

section \<open>Registration\<close>

text \<open>The kind a config declares: \<open>str((cfg if isinstance(cfg, dict) else {}).get("kind") or "")\<close>.\<close>

definition declared_kind :: "pyval \<Rightarrow> pystr" where
  "declared_kind cfg =
     (let d = (case dict_of cfg of None \<Rightarrow> [] | Some d \<Rightarrow> d)
      in py_lower (py_strip (py_str (or_else (dget d ''kind'') (StrV [])))))"

definition denied_kind :: "pystr list \<Rightarrow> pyval \<Rightarrow> bool" where
  "denied_kind allowed cfg \<longleftrightarrow>
     declared_kind cfg \<in> set OPT_IN_REGISTER_KINDS \<and> declared_kind cfg \<notin> set allowed"

definition opt_in_error :: "pystr \<Rightarrow> pystr" where
  "opt_in_error kind =
     u ''agent kind '' @ quoted kind @ u '' requires explicit opt-in on this adapter (default-allowed kinds: ''
     @ py_repr_strs (py_sorted_set DEFAULT_REGISTER_KINDS) @ u '')''"

fun build_agents :: "'w site \<Rightarrow> pyval list \<Rightarrow> (exn + pystr) + 'w agent list" where
  "build_agents si [] = Inr []"
| "build_agents si (cfg # cfgs) =
     (case agent_of_config (ho_x (si_host si)) (si_read si) cfg of
        Inl e \<Rightarrow>
          Inl (if catches CException e then Inr (u ''invalid agent config (details logged)'') else Inl e)
      | Inr a \<Rightarrow> (case build_agents si cfgs of Inl f \<Rightarrow> Inl f | Inr as \<Rightarrow> Inr (a # as)))"

definition register_all :: "'w agent list \<Rightarrow> 'w coord \<Rightarrow> 'w coord" where
  "register_all as c = fold (\<lambda>a c. case register_agent a True c of Inl e \<Rightarrow> c | Inr c1 \<Rightarrow> c1) as c"

definition handle_register :: "'w site \<Rightarrow> event \<Rightarrow> nat \<Rightarrow> 'w server \<Rightarrow> (exn + reply) \<times> 'w server" where
  "handle_register si ev i s =
     (let configs = (case map_of (ev_items ev) (u ''agents'') of None \<Rightarrow> ListV [] | Some v \<Rightarrow> v)
      in case py_iter configs of
           Inl e \<Rightarrow> (Inl e, s)
         | Inr cfgs \<Rightarrow>
             if MAX_REGISTER_AGENTS < length cfgs
             then (Inr (Failed (u ''too many agents (max '' @ py_int_str (int MAX_REGISTER_AGENTS) @ u '')'')), s)
             else
               (case find (denied_kind (sv_kinds s)) cfgs of
                  Some cfg \<Rightarrow> (Inr (Failed (opt_in_error (declared_kind cfg))), s)
                | None \<Rightarrow>
                    (case build_agents si cfgs of
                       Inl (Inl e) \<Rightarrow> (Inl e, s)
                     | Inl (Inr t) \<Rightarrow> (Inr (Failed t), s)
                     | Inr as \<Rightarrow>
                         (Inr (Registered (map (\<lambda>a. a_name (base_of a)) as)),
                          s\<lparr>sv_coords := (sv_coords s)[i := register_all as (coord_at s i)]\<rparr>))))"

section \<open>The other events\<close>

definition history_limit :: "pyval \<Rightarrow> int" where
  "history_limit v =
     (case py_int (or_else v (IntV 20)) of
        Inl e \<Rightarrow> 20
      | Inr n \<Rightarrow> n)"

definition recent_records :: "'w site \<Rightarrow> int \<Rightarrow> history option \<Rightarrow> reply" where
  "recent_records si limit h =
     (case h of None \<Rightarrow> NoHistory | Some h \<Rightarrow> Records (recent_history (si_parse si) limit h))"

definition status_reply :: "'w coord \<Rightarrow> reply" where
  "status_reply c =
     Status (map (\<lambda>a. a_name (base_of a)) (agents c))
       (if agents c = [] then None else Some (auto_strategy c)) (registry_len (co_runs c))"

definition handle_event ::
    "'w site \<Rightarrow> event \<Rightarrow> 'w server \<Rightarrow> ((exn + reply) \<times> 'w server) option" where
  "handle_event si ev s =
     (case coordinator_for si ev s of
        (Inl e, s1) \<Rightarrow> Some (Inl e, s1)
      | (Inr i, s1) \<Rightarrow>
          (let t = ev_get ev ''type''
           in if t = StrV (u ''run'') then handle_run si ev i s1
              else if t = StrV (u ''agents'') then Some (Inr (AgentList (map describe (agents (coord_at s1 i)))), s1)
              else if t = StrV (u ''status'') then Some (Inr (status_reply (coord_at s1 i)), s1)
              else if t = StrV (u ''register'') then Some (handle_register si ev i s1)
              else if t = StrV (u ''history'')
              then Some (Inr (recent_records si (history_limit (ev_get ev ''limit'')) (sv_history s1)), s1)
              else Some (Inr (Failed (u ''unsupported event type: '' @ py_str t)), s1)))"

section \<open>Lemmas\<close>

text \<open>Eviction only drops sessions.\<close>

definition thinned :: "'c manager \<Rightarrow> 'c manager \<Rightarrow> bool" where
  "thinned m' m \<longleftrightarrow> (\<exists>P. sm_sessions m' = filter P (sm_sessions m))"

lemma thinned_refl [simp]: "thinned m m"
  unfolding thinned_def by (rule exI [of _ "\<lambda>x. True"]) simp

lemma thinned_trans: "thinned m2 m1 \<Longrightarrow> thinned m1 m \<Longrightarrow> thinned m2 m"
  by (auto simp: thinned_def)

lemma thinned_drop: "thinned (drop_session i m) m"
  by (auto simp: thinned_def drop_session_def AList.delete_eq)

lemma thinned_fold: "thinned (fold drop_session is m) m"
  by (induction "is" arbitrary: m) (auto intro: thinned_trans thinned_drop)

lemma thinned_expire: "thinned (fst (expire_sessions now ttl is m)) m"
  by (induction now ttl "is" m rule: expire_sessions.induct)
    (auto simp: case_prod_unfold intro: thinned_trans thinned_drop)

lemma thinned_evict: "thinned (fst (evict now keep m)) m"
proof -
  obtain m1 ev where e: "(case sm_ttl m of None \<Rightarrow> (m, [])
      | Some ttl \<Rightarrow> expire_sessions now ttl (dkeys (sm_sessions m)) m) = (m1, ev)" by fastforce
  have "thinned m1 m"
    using e thinned_expire [of now _ "dkeys (sm_sessions m)" m]
    by (cases "sm_ttl m") (auto, metis fst_conv)
  moreover have "thinned (fst (evict now keep m)) m1"
    unfolding evict_def e by (simp add: Let_def thinned_fold split: option.split)
  ultimately show ?thesis by (blast intro: thinned_trans)
qed

text \<open>Coordinators told apart: no two sessions share one, and none has the default one.\<close>

definition owners_ok :: "nat \<Rightarrow> nat \<Rightarrow> nat manager \<Rightarrow> bool" where
  "owners_ok d n m \<longleftrightarrow>
     manager_ok m \<and> distinct (map snd (sm_sessions m)) \<and> (\<forall>p \<in> set (sm_sessions m). snd p \<noteq> d \<and> snd p < n)"

lemma owners_thinned: "owners_ok d n m \<Longrightarrow> thinned m' m \<Longrightarrow> manager_ok m' \<Longrightarrow> owners_ok d n m'"
  by (auto simp: owners_ok_def thinned_def distinct_map_filter)

lemma owners_touched: "owners_ok d n m \<Longrightarrow> manager_ok m' \<Longrightarrow> sm_sessions m' = sm_sessions m \<Longrightarrow> owners_ok d n m'"
  by (simp add: owners_ok_def)

lemma get_or_create_cases:
  assumes "get_or_create now enow c i m = (j, m')"
  shows "case get_session i m of
      Some d \<Rightarrow> j = d \<and> sm_sessions m' = sm_sessions m
    | None \<Rightarrow> j = c \<and> (\<exists>m1. thinned m1 m \<and> sm_sessions m' = sm_sessions m1 @ [(i, c)])"
proof (cases "map_of (sm_sessions m) i")
  case None
  let ?m1 = "fst (evict enow (case sm_max m of None \<Rightarrow> None | Some k \<Rightarrow> if k \<noteq> 0 then Some (k - 1) else None) m)"
  have th: "thinned ?m1 m" by (rule thinned_evict)
  then have "i \<notin> set (dkeys (sm_sessions ?m1))" using None by (auto simp: thinned_def map_of_eq_None_iff)
  then have "sm_sessions m' = sm_sessions ?m1 @ [(i, c)]"
    using assms None by (auto simp: get_or_create_def Let_def update_fresh)
  moreover have "j = c" using assms None by (simp add: get_or_create_def Let_def)
  ultimately show ?thesis using th None by (auto simp: get_session_def)
qed (use assms in \<open>auto simp: get_or_create_def get_session_def\<close>)

lemma owners_created:
  assumes "owners_ok d n m" "get_session i m = None" "get_or_create now enow n i m = (j, m')" "d < n"
  shows "j = n \<and> owners_ok d (Suc n) m'"
proof -
  obtain m1 where m1: "j = n" "thinned m1 m" "sm_sessions m' = sm_sessions m1 @ [(i, n)]"
    using get_or_create_cases [OF assms(3)] assms(2) by auto
  have ok: "manager_ok m'" using get_or_create_ok [of m now enow n i] assms(1,3) by (simp add: owners_ok_def)
  obtain P where P: "sm_sessions m1 = filter P (sm_sessions m)" using m1(2) by (auto simp: thinned_def)
  have old: "\<forall>p \<in> set (sm_sessions m1). snd p \<noteq> d \<and> snd p < n" using assms(1) by (simp add: P owners_ok_def)
  then have "n \<notin> set (map snd (sm_sessions m1))" by auto
  moreover have "distinct (map snd (sm_sessions m1))" using assms(1) by (simp add: P owners_ok_def distinct_map_filter)
  ultimately have "distinct (map snd (sm_sessions m'))" by (simp add: m1(3))
  moreover have "\<forall>p \<in> set (sm_sessions m'). snd p \<noteq> d \<and> snd p < Suc n"
    using old assms(4) by (auto simp: m1(3) less_Suc_eq)
  ultimately show ?thesis using m1(1) ok by (simp add: owners_ok_def)
qed

definition adapter_ok :: "'w server \<Rightarrow> bool" where
  "adapter_ok s \<longleftrightarrow>
     sv_default s < length (sv_coords s) \<and> sv_free s \<le> sv_max s
     \<and> (case sv_registry s of None \<Rightarrow> True | Some m \<Rightarrow> owners_ok (sv_default s) (length (sv_coords s)) m)"

text \<open>The coordinator an event is about: the session's own, once the session exists.\<close>

definition target_of :: "event \<Rightarrow> 'w server \<Rightarrow> nat option" where
  "target_of ev s =
     (case (session_of ev, sv_registry s) of
        (Some sid, Some m) \<Rightarrow> if sid = [] then Some (sv_default s) else get_session sid m
      | _ \<Rightarrow> Some (sv_default s))"

text \<open>What finding the coordinator leaves alone.\<close>

definition routed :: "'w server \<Rightarrow> 'w server \<Rightarrow> bool" where
  "routed s s1 \<longleftrightarrow>
     adapter_ok s1 \<and> (\<exists>cs. sv_coords s1 = sv_coords s @ cs)
     \<and> sv_max s1 = sv_max s \<and> sv_free s1 = sv_free s \<and> sv_kinds s1 = sv_kinds s \<and> sv_history s1 = sv_history s
     \<and> (sv_rt s1)\<lparr>rt_world := rt_world (sv_rt s)\<rparr> = sv_rt s \<and> sv_default s1 = sv_default s"

lemma set_world_simps [simp]:
  "sv_coords (set_world w s) = sv_coords s" "sv_default (set_world w s) = sv_default s"
  "sv_registry (set_world w s) = sv_registry s" "sv_free (set_world w s) = sv_free s"
  "sv_max (set_world w s) = sv_max s" "sv_history (set_world w s) = sv_history s" "sv_kinds (set_world w s) = sv_kinds s"
  "rt_traces (sv_rt (set_world w s)) = rt_traces (sv_rt s)"
  by (simp_all add: set_world_def)

lemma coordinator_for_spec:
  assumes "adapter_ok s" "coordinator_for si ev s = (out, s1)"
  shows "routed s s1
    \<and> (\<forall>i. out = Inr i \<longrightarrow> i < length (sv_coords s1)
         \<and> (case target_of ev s of Some j \<Rightarrow> i = j | None \<Rightarrow> i = length (sv_coords s)))"
proof -
  consider (default) "target_of ev s = Some (sv_default s)" "out = Inr (sv_default s)" "s1 = s"
    | (session) sid m where "session_of ev = Some sid" "sid \<noteq> []" "sv_registry s = Some m"
        "session_coordinator si sid m s = (out, s1)" "target_of ev s = get_session sid m"
  proof (cases "session_of ev = None \<or> session_of ev = Some [] \<or> sv_registry s = None")
    case True
    then have "coordinator_for si ev s = (Inr (sv_default s), s)" "target_of ev s = Some (sv_default s)"
      by (auto simp: coordinator_for_def target_of_def split: option.split)
    with assms(2) show thesis by (intro default) auto
  next
    case False
    then obtain sid m where "session_of ev = Some sid" "sid \<noteq> []" "sv_registry s = Some m" by auto
    with assms(2) show thesis by (intro session [of sid m]) (simp_all add: coordinator_for_def target_of_def)
  qed
  then show ?thesis
  proof cases
    case default
    with assms(1) show ?thesis by (simp add: routed_def adapter_ok_def)
  next
    case session
    have ow: "owners_ok (sv_default s) (length (sv_coords s)) m" "sv_default s < length (sv_coords s)"
      "sv_free s \<le> sv_max s"
      using assms(1) session(3) by (simp_all add: adapter_ok_def)
    let ?now = "x_clock (ho_x (si_host si)) (sv_world s)"
    show ?thesis
    proof (cases "get_session sid m")
      case (Some d)
      obtain j m1 where g: "get_or_create ?now ?now (length (sv_coords s)) sid m = (j, m1)" by fastforce
      have "sm_sessions m1 = sm_sessions m" "j = d" using get_or_create_cases [OF g] Some by simp_all
      moreover have "manager_ok m1"
        using get_or_create_ok [of m ?now ?now "length (sv_coords s)" sid] ow(1) g by (simp add: owners_ok_def)
      moreover have "(sid, d) \<in> set (sm_sessions m)" using Some by (auto simp: get_session_def dest: map_of_SomeD)
      then have "d < length (sv_coords s)" using ow(1) by (auto simp: owners_ok_def)
      ultimately show ?thesis
        using session(4,5) Some g ow owners_touched [of "sv_default s" "length (sv_coords s)" m m1]
        by (auto simp: session_coordinator_def Let_def routed_def adapter_ok_def)
    next
      case None
      show ?thesis
      proof (cases "si_factory si (sv_world s)")
        case (Pair o1 w1)
        show ?thesis
        proof (cases o1)
          case (Inl e)
          let ?k = "case sm_max m of None \<Rightarrow> None | Some k \<Rightarrow> if k \<noteq> 0 then Some (k - 1) else None"
          have "owners_ok (sv_default s) (length (sv_coords s)) (fst (evict ?now ?k m))"
            using ow(1) by (intro owners_thinned [OF _ thinned_evict] evict_ok) (auto simp: owners_ok_def)
          then show ?thesis
            using session(4) None Pair Inl ow(2,3)
            by (auto simp: session_coordinator_def Let_def routed_def adapter_ok_def set_world_def)
        next
          case (Inr c)
          obtain j m1 where g: "get_or_create ?now ?now (length (sv_coords s)) sid m = (j, m1)" by fastforce
          note oc = owners_created [OF ow(1) None g ow(2)]
          show ?thesis
            using session(4,5) None Pair Inr g oc ow(2,3)
            by (auto simp: session_coordinator_def Let_def routed_def adapter_ok_def set_world_def)
        qed
      qed
    qed
  qed
qed

lemma handle_event_cases:
  assumes "handle_event si ev s = Some (r, s')"
  obtains (unrouted) e where "coordinator_for si ev s = (Inl e, s')" "r = Inl e"
  | (run) i s1 where "coordinator_for si ev s = (Inr i, s1)" "ev_get ev ''type'' = StrV (u ''run'')"
      "handle_run si ev i s1 = Some (r, s')"
  | (registering) i s1 where "coordinator_for si ev s = (Inr i, s1)" "ev_get ev ''type'' = StrV (u ''register'')"
      "handle_register si ev i s1 = (r, s')"
  | (asked) i rep where "coordinator_for si ev s = (Inr i, s')" "r = Inr rep"
      "ev_get ev ''type'' \<noteq> StrV (u ''run'')" "ev_get ev ''type'' \<noteq> StrV (u ''register'')"
proof (cases "coordinator_for si ev s")
  case (Pair o1 s1)
  show thesis
  proof (cases o1)
    case (Inl e)
    with Pair assms show thesis by (intro unrouted [of e]) (simp_all add: handle_event_def)
  next
    case (Inr i)
    have c: "coordinator_for si ev s = (Inr i, s1)" using Pair Inr by simp
    show thesis
      using assms run [OF c] registering [OF c] asked [of i] c
      by (auto simp: handle_event_def Let_def split: if_splits)
  qed
qed

lemma handle_run_cases:
  assumes "handle_run si ev i s = Some (r, s')"
  obtains (missing) "\<not> truthy (ev_get ev ''prompt'')" "r = Inr (Failed (u ''missing prompt''))" "s' = s"
  | (full) "truthy (ev_get ev ''prompt'')" "take_slot si s = (False, s')"
      "r = Inr (Failed (u ''too many concurrent runs''))"
  | (ran) s1 out s2 eo s3 where "truthy (ev_get ev ''prompt'')" "take_slot si s = (True, s1)"
      "on_coordinator i (coordinator_run (si_host si) (py_str (ev_get ev ''prompt'')) (strategy_of ev) (event_args ev)) s1
         = Some (out, s2)" "give_slot s2 = (eo, s3)"
      "r = (case eo of Some e \<Rightarrow> Inl e | None \<Rightarrow> map_sum id Answered out)"
      "s' = (case (eo, out) of (None, Inr res) \<Rightarrow> record_history si ev res s3 | _ \<Rightarrow> s3)"
proof -
  show thesis
  proof (cases "truthy (ev_get ev ''prompt'')")
    case False
    with assms show thesis by (intro missing) (simp_all add: handle_run_def Let_def)
  next
    case True
    obtain b s1 where t: "take_slot si s = (b, s1)" by fastforce
    show thesis
    proof (cases b)
      case False
      with assms True t show thesis by (intro full) (simp_all add: handle_run_def Let_def)
    next
      case b: True
      obtain out s2 where o: "on_coordinator i (coordinator_run (si_host si) (py_str (ev_get ev ''prompt''))
          (strategy_of ev) (event_args ev)) s1 = Some (out, s2)"
        using assms True t b by (auto simp: handle_run_def Let_def split: option.splits)
      obtain eo s3 where g: "give_slot s2 = (eo, s3)" by fastforce
      show thesis
        using assms True t b o g
        by (intro ran [of s1 out s2 eo s3]) (auto simp: handle_run_def Let_def split: option.splits sum.splits)
    qed
  qed
qed

lemma record_history_simps [simp]:
  "sv_coords (record_history si ev res s) = sv_coords s" "sv_default (record_history si ev res s) = sv_default s"
  "sv_registry (record_history si ev res s) = sv_registry s" "sv_free (record_history si ev res s) = sv_free s"
  "sv_max (record_history si ev res s) = sv_max s" "sv_rt (record_history si ev res s) = sv_rt s"
  by (simp_all add: record_history_def)

lemma take_slot_cases:
  assumes "take_slot si s = (b, s1)" "si_freed si (sv_world s) = (n, w1)"
  shows "b \<longleftrightarrow> 0 < min (sv_max s) (sv_free s + n)"
    "s1 = (set_world w1 s)\<lparr>sv_free := min (sv_max s) (sv_free s + n) - 1\<rparr>"
  using assms by (auto simp: take_slot_def Let_def split: if_splits)

lemma on_coordinator_Some:
  "on_coordinator i m s = Some (r, s') \<longleftrightarrow>
     (\<exists>t. m ((sv_rt s)\<lparr>rt_coord := coord_at s i\<rparr>) = Some (r, t)
          \<and> s' = s\<lparr>sv_rt := t, sv_coords := (sv_coords s)[i := rt_coord t]\<rparr>)"
  by (auto simp: on_coordinator_def split: option.splits)

text \<open>What a run event leaves of the server around its coordinator.\<close>

lemma handle_run_spec:
  assumes "handle_run si ev i s = Some (r, s')" "sv_free s \<le> sv_max s"
  shows "sv_registry s' = sv_registry s \<and> sv_default s' = sv_default s \<and> sv_max s' = sv_max s
    \<and> length (sv_coords s') = length (sv_coords s) \<and> sv_free s' \<le> sv_max s'
    \<and> (\<forall>j. j \<noteq> i \<longrightarrow> sv_coords s' ! j = sv_coords s ! j)"
proof -
  obtain n w1 where w: "si_freed si (sv_world s) = (n, w1)" by fastforce
  show ?thesis
    using assms(1)
  proof (cases rule: handle_run_cases)
    case full
    note t = take_slot_cases [OF full(2) w]
    show ?thesis unfolding t(2) using assms(2) by auto
  next
    case (ran s1 out s2 eo s3)
    note t = take_slot_cases [OF ran(2) w]
    from ran(3) obtain q where q: "s2 = s1\<lparr>sv_rt := q, sv_coords := (sv_coords s1)[i := rt_coord q]\<rparr>"
      by (auto simp: on_coordinator_Some)
    have s3: "s3 = (if sv_max s \<le> sv_free s2 then s2 else s2\<lparr>sv_free := sv_free s2 + 1\<rparr>)"
      using ran(4) by (auto simp: give_slot_def q t(2) split: if_splits)
    have "sv_registry s' = sv_registry s3" "sv_default s' = sv_default s3" "sv_max s' = sv_max s3"
      "sv_coords s' = sv_coords s3" "sv_free s' = sv_free s3"
      unfolding ran(6) by (simp_all split: option.split sum.split)
    then show ?thesis using assms(2) by (auto simp: s3 q t(2))
  qed (use assms(2) in auto)
qed

lemma handle_register_spec:
  assumes "handle_register si ev i s = (r, s')"
  shows "s' = s\<lparr>sv_coords := sv_coords s'\<rparr> \<and> length (sv_coords s') = length (sv_coords s)
    \<and> (\<forall>j. j \<noteq> i \<longrightarrow> sv_coords s' ! j = sv_coords s ! j)"
  using assms by (auto simp: handle_register_def Let_def split: sum.splits if_splits option.splits)

text \<open>What an event keeps, by way of the coordinator it is routed to.\<close>

lemma event_isolated:
  assumes "handle_event si ev s = Some (r, s')" "adapter_ok s"
  shows "adapter_ok s'
    \<and> (\<forall>j < length (sv_coords s). target_of ev s \<noteq> Some j \<longrightarrow> sv_coords s' ! j = sv_coords s ! j)"
proof -
  have through: "adapter_ok s'
    \<and> (\<forall>j < length (sv_coords s). target_of ev s \<noteq> Some j \<longrightarrow> sv_coords s' ! j = sv_coords s ! j)"
    if c: "coordinator_for si ev s = (Inr i, s1)"
      and k: "sv_registry s' = sv_registry s1" "sv_default s' = sv_default s1"
        "length (sv_coords s') = length (sv_coords s1)" "sv_free s' \<le> sv_max s'"
        "\<forall>j. j \<noteq> i \<longrightarrow> sv_coords s' ! j = sv_coords s1 ! j" for i s1
  proof -
    note f = coordinator_for_spec [OF assms(2) c]
    then obtain cs where cs: "sv_coords s1 = sv_coords s @ cs" by (auto simp: routed_def)
    have "sv_coords s' ! j = sv_coords s ! j" if "j < length (sv_coords s)" "target_of ev s \<noteq> Some j" for j
    proof -
      have "j \<noteq> i" using f that by (auto split: option.splits)
      with k(5) cs that(1) show ?thesis by (simp add: nth_append)
    qed
    moreover have "adapter_ok s1" using f by (simp add: routed_def)
    then have "adapter_ok s'" using k(1-4) by (cases "sv_registry s1") (simp_all add: adapter_ok_def)
    ultimately show ?thesis by blast
  qed
  show ?thesis
    using assms(1)
  proof (cases rule: handle_event_cases)
    case (unrouted e)
    with coordinator_for_spec [OF assms(2) unrouted(1)] show ?thesis by (auto simp: routed_def nth_append)
  next
    case (run i s1)
    have "sv_free s1 \<le> sv_max s1"
      using coordinator_for_spec [OF assms(2) run(1)] by (simp add: routed_def adapter_ok_def)
    from handle_run_spec [OF run(3) this] show ?thesis by (intro through [OF run(1)]) auto
  next
    case (registering i s1)
    have fr: "sv_free s1 \<le> sv_max s1"
      using coordinator_for_spec [OF assms(2) registering(1)] by (simp add: routed_def adapter_ok_def)
    note g = handle_register_spec [OF registering(3)]
    have "sv_registry s' = sv_registry s1" "sv_default s' = sv_default s1" "sv_free s' = sv_free s1" "sv_max s' = sv_max s1"
      by (subst conjunct1 [OF g], simp)+
    with fr g show ?thesis by (intro through [OF registering(1)]) auto
  next
    case (asked i rep)
    have "sv_free s' \<le> sv_max s'"
      using coordinator_for_spec [OF assms(2) asked(1)] by (simp add: routed_def adapter_ok_def)
    then show ?thesis by (intro through [OF asked(1)]) auto
  qed
qed

text \<open>A name without white space lowers to a name only if it has none around it.\<close>

lemma lower_char_space: "py_space (lower_char c) \<longleftrightarrow> py_space c"
  by (auto simp: lower_char_def py_space_def)

lemma strip_lowered:
  assumes "py_lower s = k" "list_all (\<lambda>c. \<not> py_space c) k"
  shows "py_strip s = s"
proof -
  have "\<not> py_space c" if "c \<in> set s" for c
    using assms that by (auto simp: py_lower_def list_all_iff lower_char_space)
  then have "dropWhile py_space s = s" "dropWhile py_space (rev s) = rev s"
    by (auto simp: dropWhile_eq_self_iff) (metis hd_in_set set_rev rev_is_Nil_conv)
  then show ?thesis by (simp add: py_strip_def strip_by_fixed)
qed

lemma opt_in_no_space: "k \<in> set OPT_IN_REGISTER_KINDS \<Longrightarrow> list_all (\<lambda>c. \<not> py_space c) k \<and> k \<noteq> []"
  unfolding OPT_IN_REGISTER_KINDS_def by (auto simp: u_def py_space_def)

lemma declared_kind_lowered:
  assumes "map_of d (u ''kind'') = Some (StrV k)" "py_lower k \<in> set OPT_IN_REGISTER_KINDS"
  shows "declared_kind (DictV d) = py_lower k"
proof -
  have "py_strip k = k" using opt_in_no_space [OF assms(2)] by (blast intro: strip_lowered)
  moreover have "k \<noteq> []" using opt_in_no_space [OF assms(2)] by (auto simp: py_lower_def)
  ultimately show ?thesis using assms(1) by (simp add: declared_kind_def dget_def or_else_def)
qed

lemma build_agents_Inr:
  "build_agents si cfgs = Inr as \<Longrightarrow> list_all2 (\<lambda>cfg a. agent_of_config (ho_x (si_host si)) (si_read si) cfg = Inr a) cfgs as"
  by (induction cfgs arbitrary: as) (auto split: sum.splits)

section \<open>Properties\<close>


definition smuggled :: pyval where
  "smuggled =
     ListV [ListV [StrV (u ''name''), StrV (u ''x'')], ListV [StrV (u ''kind''), StrV (u ''cli'')],
            ListV [StrV (u ''command''), StrV (u ''sh'')]]"

text \<open>
  The gate on kinds can be passed: a config that is a list of pairs declares no kind to the gate, yet the
  factory reads it as a dictionary, so an adapter that was given no opt-in registers an agent which runs a local
  command.
\<close>

theorem opt_in_gate_bypassed:
  "\<not> denied_kind DEFAULT_REGISTER_KINDS smuggled
   \<and> agent_of_config (ho_x (si_host si)) (si_read si) smuggled
     = create_agent (ho_x (si_host si)) (u ''cli'') (u ''x'') (si_read si [(u ''command'', StrV (u ''sh''))])"
  by (simp add: smuggled_def denied_kind_def declared_kind_def dget_def or_else_def OPT_IN_REGISTER_KINDS_def
      py_lower_def py_strip_def strip_by_def agent_of_config_def py_dict_def py_pair_def from_config_def Let_def)

text \<open>
  C9. Runs are limited and never lose their slot: when no slot comes free in time the event fails fast, with
  every coordinator and every trace as it was; otherwise the run happens in its slot, on the coordinator of the
  event, and the slot is free again when it ends, be it with an exception.
\<close>

theorem run_slot_returned:
  assumes "handle_run si ev i s = Some (r, s')" "truthy (ev_get ev ''prompt'')" "sv_free s \<le> sv_max s"
    "si_freed si (sv_world s) = (n, w1)"
  shows "sv_free s' = min (sv_max s) (sv_free s + n)
    \<and> (if sv_free s' = 0
       then r = Inr (Failed (u ''too many concurrent runs'')) \<and> sv_coords s' = sv_coords s
            \<and> rt_traces (sv_rt s') = rt_traces (sv_rt s) \<and> sv_history s' = sv_history s
       else \<exists>out t. coordinator_run (si_host si) (py_str (ev_get ev ''prompt'')) (strategy_of ev) (event_args ev)
                ((sv_rt s)\<lparr>rt_world := w1, rt_coord := coord_at s i\<rparr>) = Some (out, t)
            \<and> r = map_sum id Answered out \<and> sv_coords s' = (sv_coords s)[i := rt_coord t])"
  using assms(1)
proof (cases rule: handle_run_cases)
  case full
  note t = take_slot_cases [OF full(2) assms(4)]
  then have z: "min (sv_max s) (sv_free s + n) = 0" by auto
  show ?thesis unfolding t(2) full(3) by (simp add: z set_world_def)
next
  case (ran s1 out s2 eo s3)
  note t = take_slot_cases [OF ran(2) assms(4)]
  let ?free = "min (sv_max s) (sv_free s + n)"
  have pos: "0 < ?free" using t(1) by simp
  from ran(3) obtain q where q: "coordinator_run (si_host si) (py_str (ev_get ev ''prompt'')) (strategy_of ev)
      (event_args ev) ((sv_rt s1)\<lparr>rt_coord := coord_at s1 i\<rparr>) = Some (out, q)"
    "s2 = s1\<lparr>sv_rt := q, sv_coords := (sv_coords s1)[i := rt_coord q]\<rparr>"
    by (auto simp: on_coordinator_Some)
  have "eo = None" "s3 = s2\<lparr>sv_free := ?free\<rparr>"
    using ran(4) pos by (auto simp: give_slot_def q(2) t(2) split: if_splits)
  then have "r = map_sum id Answered out" "sv_free s' = ?free" "sv_coords s' = sv_coords s2"
    using ran(5,6) by (auto split: sum.splits)
  then show ?thesis using pos q by (auto simp: t(2) set_world_def coord_at_def)
qed (use assms(2) in simp)

section \<open>Witnesses\<close>

definition sample_site :: "unit site" where
  "sample_site =
     \<lparr>si_host = sample_host,
      si_read = plain_kwargs,
      si_factory = (\<lambda>w. (Inr sample_coord, w)), si_freed = (\<lambda>w. (0, w)), si_line = (\<lambda>r. [65]),
      si_parse = (\<lambda>l. None)\<rparr>"

definition sample_server :: "unit server" where
  "sample_server =
     new_adapter sample_rt [sample_coord] 0 (Some (new_manager None (Some 2))) None (Some 4) None 1 None"

definition sample_event :: "string \<Rightarrow> pydict \<Rightarrow> event" where
  "sample_event t items =
     \<lparr>ev_items = (u ''type'', StrV (u t)) # items, ev_timeout = Some 5, ev_run_timeout = None,
      ev_budget = Option NoBudget\<rparr>"

definition ask_event :: event where
  "ask_event = sample_event ''run'' [(u ''prompt'', StrV (u ''q'')), (u ''strategy'', StrV (u ''broadcast'')),
                                     (u ''session_id'', StrV (u ''s''))]"

definition join_event :: event where
  "join_event = sample_event ''register''
     [(u ''agents'', ListV [DictV [(u ''name'', StrV (u ''n'')), (u ''kind'', StrV (u ''echo''))]])]"

lemma sample_server_ok: "adapter_ok sample_server"
  by (simp add: sample_server_def new_adapter_def adapter_ok_def owners_ok_def new_manager_def manager_ok_def
      sync_def bound_of_def Let_def)

lemma sample_joined:
  "case handle_register sample_site join_event 0 sample_server of
     (Inr (Registered names), s) \<Rightarrow> names = [u ''n''] | _ \<Rightarrow> False"
  by code_simp


lemma sample_run_handled: "returns (handle_run sample_site ask_event 0 sample_server)"
  by code_simp

theorem run_slot_returned_witness:
  "\<exists>r s'. handle_run sample_site ask_event 0 sample_server = Some (r, s') \<and> sv_free s' = 1"
proof -
  obtain v s' where e: "handle_run sample_site ask_event 0 sample_server = Some (Inr v, s')"
    using returnsD [OF sample_run_handled] by blast
  have c: "truthy (ev_get ask_event ''prompt'')" "sv_free sample_server \<le> sv_max sample_server"
    "si_freed sample_site (sv_world sample_server) = (0, ())"
    "min (sv_max sample_server) (sv_free sample_server + 0) = 1" by code_simp+
  from run_slot_returned [OF e c(1-3)] c(4) have "sv_free s' = 1" by simp
  with e show ?thesis by blast
qed

end
