(* ===== verification/HttpText.thy ===== *)
theory HttpText
  imports Errors
begin

text \<open>
  The text handling of \<open>adapters/http.py\<close>: headers and \<open>Content-Length\<close>, query strings, the hosts the server
  counts as local, the redaction of log lines, and the \<open>--role\<close> arguments. What \<open>ipaddress\<close> says of an
  address that is no dotted quad (\<open>None\<close>: no address at all) is an argument.
\<close>

section \<open>Headers\<close>

type_synonym headers = "(pystr \<times> pystr) list"

definition header_all :: "headers \<Rightarrow> string \<Rightarrow> pystr list" where
  "header_all hs name = map snd (filter (\<lambda>(k, v). py_lower k = py_lower (u name)) hs)"

text \<open>\<open>headers.get(name) or ""\<close>.\<close>

definition header :: "headers \<Rightarrow> string \<Rightarrow> pystr" where
  "header hs name = (case header_all hs name of [] \<Rightarrow> [] | v # vs \<Rightarrow> v)"

definition content_length :: "headers \<Rightarrow> exn + int" where
  "content_length hs =
     (let vals = header_all hs ''Content-Length''; distinct_vals = remdups (map py_strip vals)
      in if vals = [] then Inr 0
         else if 1 < length distinct_vals then Inl (Exn CValueError (u ''ambiguous Content-Length''))
         else
           (case parse_int (hd distinct_vals) of
              None \<Rightarrow> Inl (Exn CValueError (u ''invalid Content-Length''))
            | Some n \<Rightarrow> if n < 0 then Inl (Exn CValueError (u ''invalid Content-Length'')) else Inr n))"

section \<open>Query strings\<close>

definition hex_value :: "int \<Rightarrow> int option" where
  "hex_value c =
     (if 48 \<le> c \<and> c \<le> 57 then Some (c - 48)
      else if 65 \<le> c \<and> c \<le> 70 then Some (c - 55)
      else if 97 \<le> c \<and> c \<le> 102 then Some (c - 87) else None)"

text \<open>\<open>unquote\<close> after \<open>+\<close> became a space; a byte outside ASCII is the replacement character.\<close>

fun unquote :: "pystr \<Rightarrow> pystr" where
  "unquote (c # a # b # s) =
     (if c = 37
      then (case (hex_value a, hex_value b) of
              (Some m, Some n) \<Rightarrow> (let x = 16 * m + n in (if x < 128 then x else 65533) # unquote s)
            | _ \<Rightarrow> c # unquote (a # b # s))
      else (if c = 43 then 32 else c) # unquote (a # b # s))"
| "unquote s = map (\<lambda>c. if c = 43 then 32 else c) s"

text \<open>\<open>s.split(sep, 1)\<close> as the part before and the part behind the first separator, if there is one.\<close>

definition split_first :: "int \<Rightarrow> pystr \<Rightarrow> pystr \<times> pystr option" where
  "split_first c s =
     (if c \<in> set s then (takeWhile (\<lambda>x. x \<noteq> c) s, Some (tl (dropWhile (\<lambda>x. x \<noteq> c) s))) else (s, None))"

text \<open>\<open>parse_qs\<close>: the values given for a name; blank ones are not kept.\<close>

definition query_values :: "pystr \<Rightarrow> pystr \<Rightarrow> pystr list" where
  "query_values query name =
     concat (map (\<lambda>field.
        case split_first 61 field of
          (n, Some v) \<Rightarrow> if v \<noteq> [] \<and> unquote n = name then [unquote v] else []
        | (n, None) \<Rightarrow> []) (split_on 38 query))"

definition path_only :: "pystr \<Rightarrow> pystr" where
  "path_only target = hd (split_on 63 target)"

text \<open>The \<open>limit\<close> of \<open>/runs\<close> and \<open>/history\<close>: between 1 and 500, 20 when it is no number.\<close>

definition query_limit :: "pystr \<Rightarrow> int" where
  "query_limit target =
     (case query_values (case split_first 63 target of (p, Some q) \<Rightarrow> q | (p, None) \<Rightarrow> []) (u ''limit'') of
        [] \<Rightarrow> 20
      | v # vs \<Rightarrow> (case parse_int v of None \<Rightarrow> 20 | Some n \<Rightarrow> min 500 (max 1 n)))"

section \<open>Local hosts\<close>

text \<open>An octet of a dotted quad: up to three ASCII digits, no leading zero, at most 255.\<close>

definition octet :: "pystr \<Rightarrow> nat option" where
  "octet s =
     (if s \<noteq> [] \<and> list_all is_digit s \<and> length s \<le> 3 \<and> (length s = 1 \<or> hd s \<noteq> 48)
      then (let n = foldl (\<lambda>a c. 10 * a + nat (c - 48)) 0 s in if n \<le> 255 then Some n else None)
      else None)"

definition dotted_quad :: "pystr \<Rightarrow> nat list option" where
  "dotted_quad s =
     (case map octet (split_on 46 s) of
        [Some a, Some b, Some c, Some d] \<Rightarrow> Some [a, b, c, d]
      | _ \<Rightarrow> None)"

definition is_loopback_bind_host :: "(pystr \<Rightarrow> bool option) \<Rightarrow> pystr \<Rightarrow> bool" where
  "is_loopback_bind_host ipv6 host =
     (let v = py_lower (py_strip host)
      in if v = u ''localhost'' then True
         else (case dotted_quad v of
                 Some (a # rest) \<Rightarrow> a = 127
               | Some [] \<Rightarrow> False
               | None \<Rightarrow> (case ipv6 v of None \<Rightarrow> False | Some b \<Rightarrow> b)))"

definition validate_bind_security ::
    "(pystr \<Rightarrow> bool option) \<Rightarrow> pystr \<Rightarrow> pystr option \<Rightarrow> (pystr \<times> pystr) list \<Rightarrow> bool \<Rightarrow> exn + unit" where
  "validate_bind_security ipv6 host token roles insecure =
     (if is_loopback_bind_host ipv6 host then Inr ()
      else if (case token of None \<Rightarrow> False | Some t \<Rightarrow> t \<noteq> []) \<or> roles \<noteq> [] then Inr ()
      else if insecure then Inr ()
      else Inl (Exn CValueError
        (u ''refusing unauthenticated remote HTTP bind on '' @ py_repr_str host
         @ u ''; configure --token/--role (or DS_AGENT_ROLES), or explicitly pass --allow-insecure-remote for trusted/private networks'')))"

section \<open>Redaction\<close>

text \<open>\<open>(Bearer\s+)[A-Za-z0-9._~+/=-]+\<close>: the prefix to keep and what follows the token.\<close>

definition token_char :: "int \<Rightarrow> bool" where
  "token_char c \<longleftrightarrow> 65 \<le> c \<and> c \<le> 90 \<or> 97 \<le> c \<and> c \<le> 122 \<or> 48 \<le> c \<and> c \<le> 57
     \<or> c \<in> set [46, 95, 126, 43, 47, 61, 45]"

definition bearer_match :: "pystr \<Rightarrow> (pystr \<times> pystr) option" where
  "bearer_match s =
     (if \<not> py_startswith s (u ''Bearer'') then None
      else
        (let r = drop 6 s; sp = takeWhile py_space r; t = dropWhile py_space r
         in if sp = [] \<or> takeWhile token_char t = [] then None
            else Some (u ''Bearer'' @ sp, dropWhile token_char t)))"

lemma bearer_match_length: "bearer_match s = Some (p, rest) \<Longrightarrow> length rest < length s"
  using length_dropWhile_le [of token_char "dropWhile py_space (drop 6 s)"] length_dropWhile_le [of py_space "drop 6 s"]
  by (cases s) (auto simp: bearer_match_def Let_def py_startswith_def u_def split: if_splits)

definition stars :: pystr where
  "stars = u ''***''"

function redact_bearer :: "pystr \<Rightarrow> pystr" where
  "redact_bearer s =
     (case bearer_match s of
        Some (p, rest) \<Rightarrow> p @ stars @ redact_bearer rest
      | None \<Rightarrow> (case s of [] \<Rightarrow> [] | c # cs \<Rightarrow> c # redact_bearer cs))"
  by pat_completeness auto
termination
  by (relation "measure length") (auto dest: bearer_match_length)

declare redact_bearer.simps [simp del]

text \<open>\<open>\b(?:sk|ghp|pypi)-[A-Za-z0-9_-]+\<close>; \<open>wb\<close> tells whether the character before is a word character,
  \<open>uni\<close> being the Unicode word characters outside ASCII.\<close>

definition word_char :: "(int \<Rightarrow> bool) \<Rightarrow> int \<Rightarrow> bool" where
  "word_char uni c \<longleftrightarrow>
     65 \<le> c \<and> c \<le> 90 \<or> 97 \<le> c \<and> c \<le> 122 \<or> 48 \<le> c \<and> c \<le> 57 \<or> c = 95 \<or> 128 \<le> c \<and> uni c"

definition key_tail :: "int \<Rightarrow> bool" where
  "key_tail c \<longleftrightarrow> 65 \<le> c \<and> c \<le> 90 \<or> 97 \<le> c \<and> c \<le> 122 \<or> 48 \<le> c \<and> c \<le> 57 \<or> c = 95 \<or> c = 45"

definition key_prefix :: "pystr \<Rightarrow> nat" where
  "key_prefix s =
     (if py_startswith s (u ''sk-'') then 3
      else if py_startswith s (u ''ghp-'') then 4
      else if py_startswith s (u ''pypi-'') then 5 else 0)"

definition key_match :: "pystr \<Rightarrow> pystr option" where
  "key_match s =
     (let n = key_prefix s
      in if n = 0 \<or> takeWhile key_tail (drop n s) = [] then None else Some (dropWhile key_tail (drop n s)))"

lemma key_match_length: "key_match s = Some rest \<Longrightarrow> length rest < length s"
  using length_dropWhile_le [of key_tail "drop (key_prefix s) s"]
  by (cases s) (auto simp: key_match_def Let_def split: if_splits)

function redact_keys :: "(int \<Rightarrow> bool) \<Rightarrow> bool \<Rightarrow> pystr \<Rightarrow> pystr" where
  "redact_keys uni wb s =
     (case (if wb then None else key_match s) of
        Some rest \<Rightarrow> stars @ redact_keys uni True rest
      | None \<Rightarrow> (case s of [] \<Rightarrow> [] | c # cs \<Rightarrow> c # redact_keys uni (word_char uni c) cs))"
  by pat_completeness auto
termination
  by (relation "measure (\<lambda>(f, b, s). length s)") (auto dest: key_match_length split: if_splits)

declare redact_keys.simps [simp del]

definition redact :: "(int \<Rightarrow> bool) \<Rightarrow> pystr \<Rightarrow> pystr" where
  "redact uni s = redact_keys uni False (redact_bearer s)"

section \<open>Roles on the command line\<close>

text \<open>\<open>parsed\<close> is what \<open>json.loads\<close> made of \<open>$DS_AGENT_ROLES\<close>, when it is set.\<close>

fun env_roles :: "(pystr \<times> pyval) list \<Rightarrow> exn + (pystr \<times> pystr) list" where
  "env_roles [] = Inr []"
| "env_roles ((role, v) # rest) =
     (case v of
        StrV t \<Rightarrow>
          if py_strip t = []
          then Inl (Exn CSystemExit (u ''$DS_AGENT_ROLES role '' @ py_repr_str role @ u '' needs a non-empty token''))
          else map_sum id (\<lambda>r. (role, t) # r) (env_roles rest)
      | _ \<Rightarrow> Inl (Exn CSystemExit (u ''$DS_AGENT_ROLES role '' @ py_repr_str role @ u '' needs a non-empty token'')))"

fun arg_roles :: "pystr list \<Rightarrow> (pystr \<times> pystr) list \<Rightarrow> exn + (pystr \<times> pystr) list" where
  "arg_roles [] roles = Inr roles"
| "arg_roles (pair # rest) roles =
     (case split_first 58 pair of
        (role, Some t) \<Rightarrow>
          if role = [] \<or> t = [] then Inl (Exn CSystemExit (u ''--role expects ROLE:TOKEN, got '' @ py_repr_str pair))
          else arg_roles rest (AList.update role t roles)
      | (role, None) \<Rightarrow> Inl (Exn CSystemExit (u ''--role expects ROLE:TOKEN, got '' @ py_repr_str pair)))"

definition parse_roles :: "pystr list \<Rightarrow> (exn + pyval) option \<Rightarrow> exn + (pystr \<times> pystr) list" where
  "parse_roles pairs parsed =
     (case (case parsed of
              None \<Rightarrow> Inr []
            | Some (Inl e) \<Rightarrow> Inl e
            | Some (Inr v) \<Rightarrow>
                (case dict_of v of
                   None \<Rightarrow> Inl (Exn CSystemExit (u ''$DS_AGENT_ROLES must be a JSON object of {role: token}''))
                 | Some d \<Rightarrow> env_roles d)) of
        Inl e \<Rightarrow> Inl e
      | Inr roles \<Rightarrow> arg_roles pairs roles)"

section \<open>Lemmas\<close>

lemma remdups_one: "length (remdups xs) \<le> 1 \<longleftrightarrow> (\<forall>x \<in> set xs. \<forall>y \<in> set xs. x = y)"
proof
  assume "length (remdups xs) \<le> 1"
  then have "card (set xs) \<le> 1" by (simp add: length_remdups_card_conv)
  then show "\<forall>x \<in> set xs. \<forall>y \<in> set xs. x = y" using card_le_Suc0_iff_eq [of "set xs"] by simp
next
  assume "\<forall>x \<in> set xs. \<forall>y \<in> set xs. x = y"
  then have "card (set xs) \<le> Suc 0" by (subst card_le_Suc0_iff_eq) auto
  then show "length (remdups xs) \<le> 1" by (simp add: length_remdups_card_conv)
qed

lemma hd_remdups: "xs \<noteq> [] \<Longrightarrow> hd (remdups xs) \<in> set xs"
  by (metis hd_in_set remdups_eq_nil_iff set_remdups)

text \<open>An octet is the decimal text of its value.\<close>

lemma digits_small:
  "n < 10 \<Longrightarrow> digits n = [48 + int n]"
  "10 \<le> n \<Longrightarrow> n < 100 \<Longrightarrow> digits n = [48 + int (n div 10), 48 + int (n mod 10)]"
  "100 \<le> n \<Longrightarrow> n < 1000 \<Longrightarrow> digits n = [48 + int (n div 100), 48 + int (n div 10 mod 10), 48 + int (n mod 10)]"
proof -
  have one: "m < 10 \<Longrightarrow> digits m = [48 + int m]" for m by (subst digits.simps) simp
  have two: "10 \<le> m \<Longrightarrow> m < 100 \<Longrightarrow> digits m = [48 + int (m div 10), 48 + int (m mod 10)]" for m
    by (subst digits.simps) (simp add: one)
  show "n < 10 \<Longrightarrow> digits n = [48 + int n]"
    "10 \<le> n \<Longrightarrow> n < 100 \<Longrightarrow> digits n = [48 + int (n div 10), 48 + int (n mod 10)]"
    by (fact one, fact two)
  assume n: "100 \<le> n" "n < 1000"
  then have "10 \<le> n div 10" "n div 10 < 100" "n div 10 div 10 = n div 100" by (simp_all add: div_mult2_eq [symmetric])
  with n show "digits n = [48 + int (n div 100), 48 + int (n div 10 mod 10), 48 + int (n mod 10)]"
    by (subst digits.simps) (simp add: two)
qed

lemma octet_digits: "n \<le> 255 \<Longrightarrow> octet (digits n) = Some n"
proof -
  assume n: "n \<le> 255"
  have "list_all is_digit (digits n)" by (auto simp: list_all_iff is_digit_def dest: digits_chars)
  moreover have "digits n \<noteq> []" by (subst digits.simps) simp
  moreover have "length (digits n) \<le> 3 \<and> (length (digits n) = 1 \<or> hd (digits n) \<noteq> 48)"
    using n digits_small [of n] by (cases "n < 10"; cases "n < 100") (auto simp: div_eq_0_iff)
  ultimately show ?thesis using n by (simp add: octet_def digits_value)
qed

lemma octet_Some: "octet s = Some n \<Longrightarrow> n \<le> 255 \<and> s = digits n"
proof -
  assume o: "octet s = Some n"
  let ?v = "foldl (\<lambda>a c. 10 * a + nat (c - 48)) 0 s"
  from o have s: "s \<noteq> []" "list_all is_digit s" "length s \<le> 3" "length s = 1 \<or> hd s \<noteq> 48" "?v \<le> 255" "n = ?v"
    by (auto simp: octet_def Let_def split: if_splits)
  have dig: "is_digit c \<Longrightarrow> \<exists>k < 10. c = 48 + int k" for c
    by (rule exI [of _ "nat (c - 48)"]) (auto simp: is_digit_def)
  consider (one) a where "s = [a]" | (two) a b where "s = [a, b]" | (three) a b c where "s = [a, b, c]"
    using s(1,3) by (cases s rule: remdups_adj.cases; force simp: length_Suc_conv le_Suc_eq)
  then have "s = digits ?v"
  proof cases
    case one
    with s(2) obtain k where "k < 10" "a = 48 + int k" using dig by auto
    then show ?thesis by (simp add: one digits_small(1))
  next
    case two
    with s(2) obtain k l where "k < 10" "a = 48 + int k" "l < 10" "b = 48 + int l" using dig by (auto, metis)
    moreover from this have "k \<noteq> 0" using s(4) two by auto
    ultimately show ?thesis by (simp add: two digits_small(2))
  next
    case three
    with s(2) obtain k l m where k: "k < 10" "a = 48 + int k" "l < 10" "b = 48 + int l" "m < 10" "c = 48 + int m"
      using dig by (auto, metis)
    moreover from k have "k \<noteq> 0" using s(4) three by auto
    moreover obtain p where p: "p = 10 * k + l" by blast
    moreover have v: "foldl (\<lambda>a c. 10 * a + nat (c - 48)) 0 s = 10 * p + m" using k by (simp add: three p)
    moreover have "(10 * p + m) div 10 = p" "(10 * p + m) mod 10 = m" using k(5) by simp_all
    moreover have "p div 10 = k" "p mod 10 = l" using k(3) by (simp_all add: p)
    moreover from this have "(10 * p + m) div 100 = k" using div_mult2_eq [of "10 * p + m" 10 10] k(5) by simp
    moreover have "100 \<le> 10 * p + m" "10 * p + m < 1000" using k \<open>k \<noteq> 0\<close> by (simp_all add: p)
    ultimately show ?thesis unfolding v by (simp add: three digits_small(3))
  qed
  with s(5,6) show ?thesis by simp
qed

lemma octet_iff: "octet s = Some n \<longleftrightarrow> n \<le> 255 \<and> s = digits n"
  using octet_Some octet_digits by blast

definition quad :: "nat \<Rightarrow> nat \<Rightarrow> nat \<Rightarrow> nat \<Rightarrow> pystr" where
  "quad a b c d = digits a @ [46] @ digits b @ [46] @ digits c @ [46] @ digits d"

lemma split_on_join: "c \<notin> set xs \<Longrightarrow> split_on c (xs @ [c] @ ys) = xs # split_on c ys"
  by (induction xs) auto

lemma split_on_none: "c \<notin> set xs \<Longrightarrow> split_on c xs = [xs]"
  by (induction xs) auto

lemma split_on_inv: "split_on c xs = p # q # ps \<Longrightarrow> \<exists>ys. xs = p @ [c] @ ys \<and> split_on c ys = q # ps"
proof (induction xs arbitrary: p)
  case (Cons x xs)
  show ?case
  proof (cases "x = c")
    case False
    with Cons.prems obtain p' where "split_on c xs = p' # q # ps" "p = x # p'"
      by (auto split: list.splits)
    with Cons.IH show ?thesis by fastforce
  qed (use Cons.prems in auto)
qed simp

lemma split_on_single: "split_on c xs = [p] \<Longrightarrow> xs = p"
  by (induction xs arbitrary: p) (auto split: if_splits list.splits)

lemma no_dot: "46 \<notin> set (digits n)"
  using digits_chars [of 46 n] by auto

lemma dotted_quad_quad:
  assumes "a \<le> 255" "b \<le> 255" "c \<le> 255" "d \<le> 255"
  shows "dotted_quad (quad a b c d) = Some [a, b, c, d]"
proof -
  have "split_on 46 (quad a b c d) = [digits a, digits b, digits c, digits d]"
    unfolding quad_def by (simp add: split_on_join [OF no_dot, simplified] split_on_none [OF no_dot])
  with assms show ?thesis by (simp add: dotted_quad_def octet_digits)
qed

lemma dotted_quad_Some:
  assumes "dotted_quad s = Some ns"
  shows "\<exists>a b c d. ns = [a, b, c, d] \<and> s = quad a b c d \<and> a \<le> 255 \<and> b \<le> 255 \<and> c \<le> 255 \<and> d \<le> 255"
proof -
  from assms obtain a b c d where m: "map octet (split_on 46 s) = [Some a, Some b, Some c, Some d]" "ns = [a, b, c, d]"
    by (auto simp: dotted_quad_def split: list.splits option.splits)
  then obtain p q r t where sp: "split_on 46 s = [p, q, r, t]"
    and o: "octet p = Some a" "octet q = Some b" "octet r = Some c" "octet t = Some d"
    by (auto simp: map_eq_Cons_conv)
  from split_on_inv [OF sp] obtain s1 where s1: "s = p @ [46] @ s1" "split_on 46 s1 = [q, r, t]" by blast
  from split_on_inv [OF s1(2)] obtain s2 where s2: "s1 = q @ [46] @ s2" "split_on 46 s2 = [r, t]" by blast
  from split_on_inv [OF s2(2)] obtain s3 where s3: "s2 = r @ [46] @ s3" "split_on 46 s3 = [t]" by blast
  note s4 = split_on_single [OF s3(2)]
  show ?thesis using m(2) o by (auto simp: octet_iff quad_def s1(1) s2(1) s3(1) s4)
qed

text \<open>Redaction copies everything but what it replaces by stars: a star-free piece at the start of the
  output was there before.\<close>

lemma prefix_stars: "prefix p (q @ stars @ r) \<Longrightarrow> 42 \<notin> set p \<Longrightarrow> prefix p q"
  by (auto simp: prefix_append stars_def u_def prefix_Cons)

lemma bearer_start: "py_startswith s (u ''Bearer'') \<Longrightarrow> s = u ''Bearer'' @ drop 6 s"
proof -
  assume "py_startswith s (u ''Bearer'')"
  then obtain t where "s = u ''Bearer'' @ t" unfolding py_startswith_def by (metis append_take_drop_id)
  then show ?thesis by (simp add: u_def)
qed

lemma no_match_Nil [simp]: "bearer_match [] = None" "key_match [] = None"
  by (simp_all add: bearer_match_def key_match_def key_prefix_def py_startswith_def)

lemma redact_Nil [simp]: "redact_bearer [] = []" "redact_keys uni wb [] = []"
  by (simp_all add: redact_bearer.simps redact_keys.simps)

lemma redact_bearer_Cons: "bearer_match (c # cs) = None \<Longrightarrow> redact_bearer (c # cs) = c # redact_bearer cs"
  by (simp add: redact_bearer.simps)

lemma star_chars [simp]: "\<not> py_space 42" "\<not> token_char 42" "42 \<notin> set (u ''Bearer'')"
  by (simp_all add: py_space_def token_char_def u_def)

lemma redact_bearer_copies: "prefix p (redact_bearer s) \<Longrightarrow> 42 \<notin> set p \<Longrightarrow> prefix p s"
proof (induction s arbitrary: p rule: redact_bearer.induct)
  case (1 s)
  show ?case
  proof (cases "bearer_match s")
    case None
    show ?thesis
    proof (cases s)
      case (Cons c cs)
      with 1 None show ?thesis by (subst (asm) (3) redact_bearer.simps) (cases p; auto)
    qed (use 1(3) in simp)
  next
    case (Some q)
    obtain p0 rest where q: "q = (p0, rest)" by fastforce
    have "prefix p (p0 @ stars @ redact_bearer rest)" using 1(3) Some q by (subst (asm) redact_bearer.simps) simp
    then have "prefix p p0" using 1(4) by (rule prefix_stars)
    moreover have "prefix p0 s"
    proof -
      let ?r = "drop 6 s"
      from Some q have st: "py_startswith s (u ''Bearer'')" and p0: "p0 = u ''Bearer'' @ takeWhile py_space ?r"
        by (auto simp: bearer_match_def Let_def split: if_splits)
      have "s = u ''Bearer'' @ ?r" using st by (rule bearer_start)
      moreover have "prefix (takeWhile py_space ?r) ?r" by (metis prefixI takeWhile_dropWhile_id)
      ultimately show ?thesis unfolding p0 by (metis same_prefix_prefix)
    qed
    ultimately show ?thesis by (rule prefix_order.trans)
  qed
qed

lemma redact_keys_copies: "prefix p (redact_keys uni wb s) \<Longrightarrow> 42 \<notin> set p \<Longrightarrow> prefix p s"
proof (induction uni wb s arbitrary: p rule: redact_keys.induct)
  case (1 uni wb s)
  show ?case
  proof (cases "if wb then None else key_match s")
    case None
    show ?thesis
    proof (cases s)
      case (Cons c cs)
      with 1 None show ?thesis by (subst (asm) (3) redact_keys.simps) (cases p; auto split: if_splits)
    qed (use 1(3) in simp)
  next
    case (Some rest)
    then have "prefix p (stars @ redact_keys uni True rest)" using 1(3) by (subst (asm) redact_keys.simps) simp
    then have "p = []" using prefix_stars [of p "[]"] 1(4) by simp
    then show ?thesis by simp
  qed
qed

text \<open>A credential behind \<open>Bearer\<close>: its first character and all before it.\<close>

definition bearer_head :: "pystr \<Rightarrow> bool" where
  "bearer_head p \<longleftrightarrow> (\<exists>sp c. p = u ''Bearer'' @ sp @ [c] \<and> sp \<noteq> [] \<and> list_all py_space sp \<and> token_char c)"

lemma token_no_space: "token_char c \<Longrightarrow> \<not> py_space c"
  by (auto simp: token_char_def py_space_def)

lemma bearer_head_no_star: "bearer_head p \<Longrightarrow> 42 \<notin> set p"
  using star_chars by (auto simp: bearer_head_def list_all_iff simp del: star_chars)

lemma bearer_match_iff: "bearer_match s \<noteq> None \<longleftrightarrow> (\<exists>p. bearer_head p \<and> prefix p s)"
proof
  assume "bearer_match s \<noteq> None"
  then have st: "py_startswith s (u ''Bearer'')" and sp: "takeWhile py_space (drop 6 s) \<noteq> []"
    and tk: "takeWhile token_char (dropWhile py_space (drop 6 s)) \<noteq> []"
    by (auto simp: bearer_match_def Let_def split: if_splits)
  obtain c cs where c: "dropWhile py_space (drop 6 s) = c # cs" "token_char c"
    using tk by (cases "dropWhile py_space (drop 6 s)") (auto split: if_splits)
  have "s = u ''Bearer'' @ drop 6 s" using st by (rule bearer_start)
  also have "drop 6 s = takeWhile py_space (drop 6 s) @ c # cs" using c(1) takeWhile_dropWhile_id by metis
  finally have "s = (u ''Bearer'' @ takeWhile py_space (drop 6 s) @ [c]) @ cs" by simp
  moreover have "list_all py_space (takeWhile py_space (drop 6 s))" by (auto simp: list_all_iff dest: set_takeWhileD)
  ultimately show "\<exists>p. bearer_head p \<and> prefix p s" using sp c(2) unfolding bearer_head_def prefix_def by blast
next
  assume "\<exists>p. bearer_head p \<and> prefix p s"
  then obtain sp c t where s: "s = u ''Bearer'' @ sp @ c # t" "sp \<noteq> []" "list_all py_space sp" "token_char c"
    by (auto simp: bearer_head_def prefix_def)
  have "takeWhile py_space (sp @ c # t) = sp" "dropWhile py_space (sp @ c # t) = c # t"
    using s(3,4) token_no_space by (auto simp: list_all_iff)
  with s show "bearer_match s \<noteq> None" by (simp add: bearer_match_def Let_def py_startswith_def)
qed

lemma bearer_head_parts: "bearer_head p \<Longrightarrow> \<not> prefix p (u ''Bearer'' @ sp)" if "list_all py_space sp"
proof
  assume "bearer_head p" "prefix p (u ''Bearer'' @ sp)"
  then obtain sp' c where "prefix (sp' @ [c]) sp" "token_char c" by (auto simp: bearer_head_def)
  then have "c \<in> set sp" by (auto simp: prefix_def)
  with that \<open>token_char c\<close> show False using token_no_space by (auto simp: list_all_iff)
qed

lemma bearer_head_B: "bearer_head p \<Longrightarrow> \<exists>t. p = 66 # t"
  by (auto simp: bearer_head_def u_def)

lemma stars_first:
  assumes "suffix r stars" "r \<noteq> []" "t = r @ x"
  shows "bearer_match t = None"
proof -
  have "hd t = 42" using assms by (auto simp: stars_def u_def suffix_Cons)
  then have "\<not> (bearer_head p \<and> prefix p t)" for p using bearer_head_B [of p] by (auto simp: prefix_def)
  then show ?thesis using bearer_match_iff by blast
qed

lemma redact_bearer_free: "suffix t (redact_bearer s) \<Longrightarrow> bearer_match t = None"
proof (induction s rule: redact_bearer.induct)
  case (1 s)
  show ?case
  proof (cases "bearer_match s")
    case None
    have "bearer_match (redact_bearer s) = None"
      using None redact_bearer_copies [of _ s] bearer_head_no_star bearer_match_iff by metis
    with 1(1,3) None show ?thesis
      by (cases s) (auto simp: redact_bearer_Cons suffix_Cons)
  next
    case (Some q)
    obtain p0 rest where q: "q = (p0, rest)" by fastforce
    obtain sp where p0: "p0 = u ''Bearer'' @ sp" "list_all py_space sp"
      using Some q by (auto simp: bearer_match_def Let_def list_all_iff dest: set_takeWhileD split: if_splits)
    have "suffix t (p0 @ stars @ redact_bearer rest)" using 1(3) Some q by (subst (asm) redact_bearer.simps) simp
    then consider (rest) "suffix t (redact_bearer rest)" | (stars) r where "suffix r stars" "r \<noteq> []" "t = r @ redact_bearer rest"
      | (head) r where "suffix r p0" "t = r @ stars @ redact_bearer rest"
      by (auto simp: suffix_append) blast
    then show ?thesis
    proof cases
      case rest
      then show ?thesis using 1(2) Some q by auto
    next
      case stars
      from stars_first [OF this] show ?thesis .
    next
      case head
      have "\<not> (bearer_head p \<and> prefix p t)" for p
      proof
        assume p: "bearer_head p \<and> prefix p t"
        then have "prefix p r" using prefix_stars bearer_head_no_star unfolding head(2) by blast
        moreover obtain y where "p = 66 # y" using p bearer_head_B by blast
        ultimately obtain z where "r = 66 # z" by (auto simp: prefix_def)
        moreover have "66 \<notin> set sp" using p0(2) by (auto simp: list_all_iff py_space_def)
        ultimately have "r = p0" using head(1) by (auto simp: p0(1) u_def suffix_def Cons_eq_append_conv)
        with \<open>prefix p r\<close> p bearer_head_parts [OF p0(2)] show False by (auto simp: p0(1))
      qed
      then show ?thesis using bearer_match_iff by blast
    qed
  qed
qed

lemma redact_keys_suffix:
  "suffix t (redact_keys uni wb s) \<Longrightarrow> bearer_match t \<noteq> None \<Longrightarrow> \<exists>t'. suffix t' s \<and> bearer_match t' \<noteq> None"
proof (induction uni wb s rule: redact_keys.induct)
  case (1 uni wb s)
  show ?case
  proof (cases "if wb then None else key_match s")
    case None
    show ?thesis
    proof (cases s)
      case (Cons c cs)
      have o: "redact_keys uni wb s = c # redact_keys uni (word_char uni c) cs"
        using None Cons by (subst redact_keys.simps) simp
      show ?thesis
      proof (cases "t = redact_keys uni wb s")
        case True
        then have "bearer_match s \<noteq> None"
          using 1(4) redact_keys_copies [of _ uni wb s] bearer_head_no_star bearer_match_iff by metis
        then show ?thesis by blast
      next
        case False
        then have "suffix t (redact_keys uni (word_char uni c) cs)" using 1(3) o by (auto simp: suffix_Cons)
        from 1(1) [OF None Cons this 1(4)] show ?thesis by (auto simp: Cons suffix_Cons)
      qed
    next
      case Nil
      with 1(3) have "t = []" by simp
      with 1(4) show ?thesis by simp
    qed
  next
    case (Some rest)
    have "redact_keys uni wb s = stars @ redact_keys uni True rest" using Some by (subst redact_keys.simps) simp
    with 1(3) consider (rest) "suffix t (redact_keys uni True rest)"
      | (stars) r where "suffix r stars" "r \<noteq> []" "t = r @ redact_keys uni True rest"
      by (auto simp: suffix_append) blast
    then show ?thesis
    proof cases
      case rest
      obtain t' where t': "suffix t' rest" "bearer_match t' \<noteq> None" using 1(2) [OF Some rest 1(4)] by blast
      have "suffix rest s"
        using Some by (auto simp: key_match_def Let_def split: if_splits)
          (metis suffix_dropWhile suffix_drop suffix_order.trans)
      with t' show ?thesis by (blast intro: suffix_order.trans)
    next
      case stars
      from stars_first [OF this] 1(4) show ?thesis by simp
    qed
  qed
qed

section \<open>Properties\<close>

text \<open>
  \<open>Content-Length\<close> is read exactly: the value is 0 without such a header, and otherwise a length is accepted
  just when all headers of that name agree, white space around them apart, on one text that \<open>int\<close> reads as a
  number that is not negative; anything else raises \<open>ValueError\<close>, so no negative length reaches \<open>read\<close>.
\<close>

theorem content_length_exact:
  "(content_length hs = Inr n \<longleftrightarrow>
      (if header_all hs ''Content-Length'' = [] then n = 0
       else 0 \<le> n \<and> (\<exists>t. parse_int t = Some n \<and> py_strip ` set (header_all hs ''Content-Length'') = {t})))
   \<and> (content_length hs = Inl e \<longrightarrow> exc_of e = CValueError)"
proof -
  let ?vs = "header_all hs ''Content-Length''" and ?ds = "map py_strip (header_all hs ''Content-Length'')"
  show ?thesis
  proof (cases "?vs = []")
    case True
    then show ?thesis by (auto simp: content_length_def)
  next
    case ne: False
    have hd: "hd (remdups ?ds) \<in> set ?ds" using ne by (intro hd_remdups) simp
    show ?thesis
    proof (cases "length (remdups ?ds) \<le> 1")
      case False
      then obtain x y where "x \<in> py_strip ` set ?vs" "y \<in> py_strip ` set ?vs" "x \<noteq> y"
        by (subst (asm) remdups_one) auto
      then have "\<not> (\<exists>t. py_strip ` set ?vs = {t})" by (metis singletonD)
      moreover have "content_length hs = Inl (Exn CValueError (u ''ambiguous Content-Length''))"
        using False ne by (simp add: content_length_def Let_def)
      ultimately show ?thesis using ne by auto
    next
      case True
      define h where "h = hd (remdups ?ds)"
      have same: "x = y" if "x \<in> set ?ds" "y \<in> set ?ds" for x y
        using remdups_one [THEN iffD1, OF True] that by blast
      have "set ?ds = {h}" using hd same unfolding h_def by blast
      then have h: "h = hd (remdups ?ds)" "py_strip ` set ?vs = {h}" by (simp only: h_def, simp only: set_map)
      have "content_length hs = (case parse_int h of
          None \<Rightarrow> Inl (Exn CValueError (u ''invalid Content-Length''))
        | Some n \<Rightarrow> if n < 0 then Inl (Exn CValueError (u ''invalid Content-Length'')) else Inr n)"
        using ne True by (simp add: content_length_def Let_def h(1))
      then show ?thesis
        by (cases "parse_int h") (auto simp: ne h(2))
    qed
  qed
qed

theorem content_length_exact_witness:
  "content_length [(u ''content-length'', u '' 12''), (u ''Content-Length'', u ''12 '')] = Inr 12"
proof -
  let ?hs = "[(u ''content-length'', u '' 12''), (u ''Content-Length'', u ''12 '')]"
  have "header_all ?hs ''Content-Length'' = [u '' 12'', u ''12 '']" "parse_int (u ''12'') = Some 12"
    "py_strip (u '' 12'') = u ''12''" "py_strip (u ''12 '') = u ''12''" by code_simp+
  then show ?thesis using content_length_exact [of ?hs 12 undefined] by auto
qed

text \<open>
  C38. The hosts that may be bound without authentication are exactly \<open>localhost\<close> and the loopback addresses, up
  to white space around them and case: as dotted quads precisely the canonical decimal texts \<open>127.b.c.d\<close> with
  every octet at most 255 (so no \<open>127.1\<close>, no leading zeros, no host names), and otherwise what
  \<open>ipaddress\<close> calls a loopback address.
\<close>

theorem loopback_exact:
  "is_loopback_bind_host ipv6 host \<longleftrightarrow>
     (let v = py_lower (py_strip host) in
        v = u ''localhost''
        \<or> (\<exists>b c d. v = quad 127 b c d \<and> b \<le> 255 \<and> c \<le> 255 \<and> d \<le> 255)
        \<or> dotted_quad v = None \<and> ipv6 v = Some True)"
proof -
  let ?v = "py_lower (py_strip host)"
  show ?thesis
  proof (cases "dotted_quad ?v")
    case None
    then have "?v \<noteq> quad 127 b c d" if "b \<le> 255" "c \<le> 255" "d \<le> 255" for b c d
      using dotted_quad_quad [of 127 b c d] that by auto
    with None show ?thesis by (auto simp: is_loopback_bind_host_def Let_def split: option.splits)
  next
    case (Some ns)
    from dotted_quad_Some [OF this] obtain a b c d where ns: "ns = [a, b, c, d]" "?v = quad a b c d"
      "a \<le> 255" "b \<le> 255" "c \<le> 255" "d \<le> 255" by blast
    have "(\<exists>b c d. ?v = quad 127 b c d \<and> b \<le> 255 \<and> c \<le> 255 \<and> d \<le> 255) \<longleftrightarrow> a = 127"
    proof
      assume "\<exists>b c d. ?v = quad 127 b c d \<and> b \<le> 255 \<and> c \<le> 255 \<and> d \<le> 255"
      then obtain b' c' d' where "?v = quad 127 b' c' d'" "b' \<le> 255" "c' \<le> 255" "d' \<le> 255" by blast
      with dotted_quad_quad [of 127 b' c' d'] Some ns(1) show "a = 127" by simp
    qed (use ns in blast)
    with Some ns(1) show ?thesis by (simp add: is_loopback_bind_host_def Let_def)
  qed
qed

theorem loopback_exact_witness:
  "is_loopback_bind_host (\<lambda>s. None) (u '' 127.0.0.1'') \<and> \<not> is_loopback_bind_host (\<lambda>s. None) (u ''127.1'')"
proof
  have "quad 127 0 0 1 = py_lower (py_strip (u '' 127.0.0.1''))" by code_simp
  then show "is_loopback_bind_host (\<lambda>s. None) (u '' 127.0.0.1'')"
    unfolding loopback_exact Let_def by (metis zero_le le_numeral_extra(4) one_le_numeral)
  show "\<not> is_loopback_bind_host (\<lambda>s. None) (u ''127.1'')" by code_simp
qed


end
