(* ===== verification/Security.thy ===== *)
theory Security
  imports Errors
begin

text \<open>
  \<open>security.py\<close>: the role lattice of the HTTP adapter, the table of minimum roles and the token
  authenticator. A configured token that is not a string is \<open>None\<close>.
\<close>

section \<open>Model\<close>

definition ROLE_LEVELS :: "(pystr \<times> nat) list" where
  "ROLE_LEVELS = [(u ''readonly'', 0), (u ''user'', 1), (u ''operator'', 2), (u ''admin'', 3)]"

definition REQUIRED_ROLE :: "(pystr \<times> pystr) list" where
  "REQUIRED_ROLE =
     [(u ''health'', u ''readonly''), (u ''agents'', u ''readonly''), (u ''status'', u ''readonly''),
      (u ''run'', u ''user''), (u ''runs.list'', u ''operator''), (u ''runs.get'', u ''operator''),
      (u ''history'', u ''operator''), (u ''sessions.stats'', u ''operator''),
      (u ''sessions.delete'', u ''operator''), (u ''sessions.cleanup'', u ''operator''),
      (u ''register'', u ''admin'')]"

type_synonym token_config = "(pystr \<times> pystr option) list"
type_synonym authenticator = "(pystr \<times> pystr) list"

fun check_tokens :: "token_config \<Rightarrow> (pystr \<times> pystr) list \<Rightarrow> exn + unit" where
  "check_tokens [] seen = Inr ()"
| "check_tokens ((role, token) # rest) seen =
     (case token of
        None \<Rightarrow> Inl (Exn CValueError (u ''empty token for role '' @ py_repr_str role))
      | Some t \<Rightarrow>
          if py_strip t = [] then Inl (Exn CValueError (u ''empty token for role '' @ py_repr_str role))
          else
            (case map_of seen t of
               Some prior \<Rightarrow>
                 if prior \<noteq> role
                 then Inl (Exn CValueError
                        (u ''token reused across roles '' @ py_repr_str prior @ u '' and '' @ py_repr_str role))
                 else check_tokens rest (AList.update t role seen)
             | None \<Rightarrow> check_tokens rest (AList.update t role seen)))"

text \<open>The constructor: the dictionary \<open>_by_token\<close>, token first.\<close>

definition new_authenticator :: "token_config \<Rightarrow> exn + authenticator" where
  "new_authenticator roles =
     (let unknown = filter (\<lambda>r. map_of ROLE_LEVELS r = None) (dkeys roles)
      in if unknown \<noteq> []
         then Inl (Exn CValueError
                (u ''unknown roles: '' @ py_repr_strs (py_sorted_set unknown) @ u '' (known: ''
                 @ py_repr_strs (py_sorted_set (dkeys ROLE_LEVELS)) @ u '')''))
         else (case check_tokens roles [] of
                 Inl e \<Rightarrow> Inl e
               | Inr _ \<Rightarrow>
                   Inr (fold (\<lambda>(role, t). case t of None \<Rightarrow> id | Some x \<Rightarrow> AList.update x role) roles [])))"

text \<open>\<open>hmac.compare_digest\<close> on strings: equality, a \<open>TypeError\<close> outside ASCII.\<close>

definition is_ascii :: "pystr \<Rightarrow> bool" where
  "is_ascii s = list_all (\<lambda>c. c < 128) s"

definition compare_digest :: "pystr \<Rightarrow> pystr \<Rightarrow> exn + bool" where
  "compare_digest a b =
     (if is_ascii a \<and> is_ascii b then Inr (a = b)
      else Inl (Exn CTypeError (u ''comparing strings with non-ASCII characters is not supported'')))"

fun find_role :: "pystr \<Rightarrow> authenticator \<Rightarrow> exn + pystr option" where
  "find_role token [] = Inr None"
| "find_role token ((known, role) # rest) =
     (case compare_digest token known of
        Inl e \<Rightarrow> Inl e
      | Inr eq \<Rightarrow> if eq then Inr (Some role) else find_role token rest)"

definition bearer :: pystr where
  "bearer = u ''Bearer ''"

definition authenticate :: "authenticator \<Rightarrow> pystr \<Rightarrow> exn + pystr option" where
  "authenticate a authorization =
     (if \<not> py_startswith authorization bearer then Inr None
      else find_role (py_strip (drop (length bearer) authorization)) a)"

definition allows :: "pystr \<Rightarrow> pystr \<Rightarrow> exn + bool" where
  "allows role action =
     (case map_of REQUIRED_ROLE action of
        None \<Rightarrow> Inl (Exn CValueError (u ''unknown action: '' @ action))
      | Some required \<Rightarrow>
          (case (map_of ROLE_LEVELS role, map_of ROLE_LEVELS required) of
             (Some l, Some m) \<Rightarrow> Inr (m \<le> l)
           | (None, _) \<Rightarrow> Inl (Exn CKeyError (py_repr_str role))
           | (_, None) \<Rightarrow> Inl (Exn CKeyError (py_repr_str required))))"

section \<open>Lemmas\<close>

definition config_ok :: "token_config \<Rightarrow> bool" where
  "config_ok roles \<longleftrightarrow>
     (\<forall>(r, t) \<in> set roles. map_of ROLE_LEVELS r \<noteq> None \<and> (\<exists>x. t = Some x \<and> py_strip x \<noteq> []))
     \<and> distinct (map snd roles)"

lemma check_tokens_Inr:
  assumes "distinct (dkeys roles)" "\<forall>(t, r) \<in> set seen. r \<notin> set (dkeys roles)" "dict_ok seen"
  shows "check_tokens roles seen = Inr () \<longleftrightarrow>
    (\<forall>(r, t) \<in> set roles. \<exists>x. t = Some x \<and> py_strip x \<noteq> [] \<and> x \<notin> set (dkeys seen)) \<and> distinct (map snd roles)"
  using assms
proof (induction roles arbitrary: seen)
  case (Cons p rest)
  obtain role token where p: "p = (role, token)" by fastforce
  show ?case
  proof (cases token)
    case None
    then show ?thesis by (simp add: p)
  next
    case (Some t)
    show ?thesis
    proof (cases "py_strip t = [] \<or> map_of seen t \<noteq> None")
      case True
      then show ?thesis
      proof (cases "py_strip t = []")
        case False
        then obtain prior where pr: "map_of seen t = Some prior" using True by auto
        then have "(t, prior) \<in> set seen" by (rule map_of_SomeD)
        then have "prior \<noteq> role" "t \<in> set (dkeys seen)" using Cons.prems(2) by (force simp: p)+
        with False pr Some show ?thesis by (auto simp: p)
      qed (simp add: Some p)
    next
      case False
      then have fresh: "t \<notin> set (dkeys seen)" by (simp add: map_of_eq_None_iff)
      have upd: "AList.update t role seen = seen @ [(t, role)]" by (rule update_fresh [OF fresh])
      have ok: "dict_ok (seen @ [(t, role)])" using Cons.prems(3) fresh by (simp add: dict_ok_def)
      have "check_tokens rest (AList.update t role seen) = Inr () \<longleftrightarrow>
          (\<forall>(r, s) \<in> set rest. \<exists>x. s = Some x \<and> py_strip x \<noteq> [] \<and> x \<notin> set (dkeys (seen @ [(t, role)])))
          \<and> distinct (map snd rest)"
        unfolding upd by (rule Cons.IH) (use Cons.prems ok in \<open>auto simp: p\<close>)
      then show ?thesis
        using False fresh Some by (fastforce simp: p image_iff)
    qed
  qed
qed simp

lemma dkeys_levels: "map_of ROLE_LEVELS r \<noteq> None \<longleftrightarrow> r \<in> set (dkeys ROLE_LEVELS)"
  by (simp add: map_of_eq_None_iff)

definition tokens_of :: "token_config \<Rightarrow> authenticator" where
  "tokens_of roles = map (\<lambda>(r, t). (the t, r)) roles"

lemma fold_tokens:
  assumes "distinct (map snd roles)" "\<forall>(r, t) \<in> set roles. \<exists>x. t = Some x \<and> x \<notin> set (dkeys acc)"
  shows "fold (\<lambda>(role, t). case t of None \<Rightarrow> id | Some x \<Rightarrow> AList.update x role) roles acc
    = acc @ tokens_of roles"
  using assms
proof (induction roles arbitrary: acc)
  case (Cons p roles)
  obtain r x where p: "p = (r, Some x)" "x \<notin> set (dkeys acc)" using Cons.prems(2) by fastforce
  have rest: "\<forall>(r, t) \<in> set roles. \<exists>y. t = Some y \<and> y \<notin> set (dkeys (acc @ [(x, r)]))"
  proof
    fix q assume q: "q \<in> set roles"
    obtain r' t' where q': "q = (r', t')" by fastforce
    have "snd q \<in> snd ` set roles" using q by (rule imageI)
    then have "t' \<noteq> Some x" using Cons.prems(1) by (force simp: p q')
    then show "case q of (r, t) \<Rightarrow> \<exists>y. t = Some y \<and> y \<notin> set (dkeys (acc @ [(x, r)]))"
      using Cons.prems(2) q by (auto simp: q')
  qed
  then show ?case
    using Cons.IH [of "acc @ [(x, r)]"] Cons.prems(1)
    by (simp add: p update_fresh [OF p(2)] tokens_of_def)
qed (simp add: tokens_of_def)

lemma new_authenticator_Inr:
  assumes "dict_ok roles"
  shows "new_authenticator roles = Inr a \<longleftrightarrow> config_ok roles \<and> a = tokens_of roles"
proof -
  have unk: "filter (\<lambda>r. map_of ROLE_LEVELS r = None) (dkeys roles) \<noteq> []
      \<longleftrightarrow> \<not> (\<forall>(r, t) \<in> set roles. map_of ROLE_LEVELS r \<noteq> None)"
    by (force simp: filter_empty_conv)
  have chk: "check_tokens roles [] = Inr () \<longleftrightarrow>
      (\<forall>(r, t) \<in> set roles. \<exists>x. t = Some x \<and> py_strip x \<noteq> []) \<and> distinct (map snd roles)"
    using check_tokens_Inr [of roles "[]"] assms by (simp add: dict_ok_def)
  show ?thesis
  proof (cases "config_ok roles")
    case True
    then have "fold (\<lambda>(role, t). case t of None \<Rightarrow> id | Some x \<Rightarrow> AList.update x role) roles [] = tokens_of roles"
      using fold_tokens [of roles "[]"] by (fastforce simp: config_ok_def)
    moreover have "check_tokens roles [] = Inr ()" using True by (auto simp: chk config_ok_def)
    moreover have "\<not> filter (\<lambda>r. map_of ROLE_LEVELS r = None) (dkeys roles) \<noteq> []"
      using True unfolding unk by (auto simp: config_ok_def)
    ultimately show ?thesis using True by (auto simp: new_authenticator_def Let_def)
  next
    case False
    then have "filter (\<lambda>r. map_of ROLE_LEVELS r = None) (dkeys roles) \<noteq> [] \<or> check_tokens roles [] \<noteq> Inr ()"
      unfolding unk chk by (fastforce simp: config_ok_def)
    then show ?thesis using False by (auto simp: new_authenticator_def Let_def split: sum.splits)
  qed
qed

lemma find_role_ascii:
  assumes "is_ascii token" "\<forall>(t, r) \<in> set a. is_ascii t"
  shows "find_role token a = Inr (map_of a token)"
  using assms(2)
  by (induction a) (auto simp: compare_digest_def assms(1))

definition ascii_config :: "token_config \<Rightarrow> bool" where
  "ascii_config roles \<longleftrightarrow> list_all (\<lambda>(r, t). case t of None \<Rightarrow> True | Some x \<Rightarrow> is_ascii x) roles"

lemma dict_ok_tokens: "config_ok roles \<Longrightarrow> dict_ok (tokens_of roles)"
proof -
  assume ok: "config_ok roles"
  have "map snd roles = map Some (dkeys (tokens_of roles))"
    using ok by (fastforce simp: config_ok_def tokens_of_def)
  then have "distinct (map Some (dkeys (tokens_of roles)))" using ok by (simp add: config_ok_def)
  then show ?thesis by (auto simp: dict_ok_def distinct_map inj_on_def)
qed

lemma check_tokens_Inl: "check_tokens roles seen = Inl e \<Longrightarrow> exc_of e = CValueError"
  by (induction roles seen rule: check_tokens.induct) (auto split: option.splits if_splits)

lemma new_authenticator_Inl: "new_authenticator roles = Inl e \<Longrightarrow> exc_of e = CValueError"
  by (auto simp: new_authenticator_def Let_def dest: check_tokens_Inl split: if_splits sum.splits)

lemma py_startswith_iff: "py_startswith s p \<longleftrightarrow> (\<exists>t. s = p @ t)"
  unfolding py_startswith_def by (metis append_eq_conv_conj append_take_drop_id)

text \<open>\<open>compare_digest\<close> does not compare text outside ASCII: such a bearer token is not refused but
  raises.\<close>

lemma non_ascii_token_raises:
  assumes "a \<noteq> []" "py_startswith h bearer" "\<not> is_ascii (py_strip (drop (length bearer) h))"
  shows "\<exists>e. authenticate a h = Inl e \<and> exc_of e = CTypeError"
  using assms by (cases a) (auto simp: authenticate_def compare_digest_def)

section \<open>Properties\<close>

text \<open>
  C27. The authenticator accepts a configuration exactly when every role is known, every token is a
  string that is not blank, and no token serves two roles; it then grants a bearer the role whose
  token equals the one presented, and no other, for tokens of ASCII text.
\<close>

theorem authenticator_exact:
  assumes "dict_ok roles" "ascii_config roles" "is_ascii header"
  shows "case new_authenticator roles of
      Inl e \<Rightarrow> exc_of e = CValueError \<and> \<not> config_ok roles
    | Inr a \<Rightarrow> config_ok roles
        \<and> (\<forall>r. authenticate a header = Inr (Some r) \<longleftrightarrow>
              (\<exists>t. header = bearer @ t \<and> (r, Some (py_strip t)) \<in> set roles))"
proof (cases "config_ok roles")
  case False
  then have "\<exists>e. new_authenticator roles = Inl e"
    using new_authenticator_Inr [OF assms(1)] by (cases "new_authenticator roles") auto
  then show ?thesis using False new_authenticator_Inl by auto
next
  case True
  then have a: "new_authenticator roles = Inr (tokens_of roles)"
    using new_authenticator_Inr [OF assms(1)] by simp
  have asc: "\<forall>(t, r) \<in> set (tokens_of roles). is_ascii t"
    using assms(2) True by (fastforce simp: ascii_config_def config_ok_def tokens_of_def list_all_iff)
  have "roles = map (\<lambda>(t, r). (r, Some t)) (tokens_of roles)"
    unfolding tokens_of_def map_map
    by (rule map_idI [symmetric]) (use True in \<open>auto simp: config_ok_def\<close>)
  then have "set roles = (\<lambda>(t, r). (r, Some t)) ` set (tokens_of roles)" by (metis list.set_map)
  then have mem: "(t, r) \<in> set (tokens_of roles) \<longleftrightarrow> (r, Some t) \<in> set roles" for t r by force
  have "authenticate (tokens_of roles) header = Inr (Some r) \<longleftrightarrow>
      (\<exists>t. header = bearer @ t \<and> (r, Some (py_strip t)) \<in> set roles)" for r
  proof (cases "py_startswith header bearer")
    case True
    then obtain t where t: "header = bearer @ t" by (auto simp: py_startswith_iff)
    have "set (py_strip t) \<subseteq> set header"
      unfolding t py_strip_def using set_strip_by [of py_space t] by auto
    then have "is_ascii (py_strip t)" using assms(3) by (auto simp: is_ascii_def list_all_iff)
    then have "find_role (py_strip t) (tokens_of roles) = Inr (map_of (tokens_of roles) (py_strip t))"
      by (rule find_role_ascii [OF _ asc])
    moreover have "drop (length bearer) header = t" by (simp add: t)
    ultimately have "authenticate (tokens_of roles) header = Inr (map_of (tokens_of roles) (py_strip t))"
      using True unfolding authenticate_def by presburger
    moreover have "map_of (tokens_of roles) (py_strip t) = Some r \<longleftrightarrow> (r, Some (py_strip t)) \<in> set roles"
      using dict_get_in [OF dict_ok_tokens [OF \<open>config_ok roles\<close>], of "py_strip t" r] mem by simp
    moreover have "(\<exists>t'. header = bearer @ t' \<and> (r, Some (py_strip t')) \<in> set roles)
        \<longleftrightarrow> (r, Some (py_strip t)) \<in> set roles" by (simp add: t)
    ultimately show ?thesis by (simp only:) simp
  qed (auto simp: authenticate_def py_startswith_iff)
  with True a show ?thesis by simp
qed

theorem authenticator_exact_witness:
  "\<exists>a. new_authenticator [(u ''user'', Some [97])] = Inr a
     \<and> authenticate a (u ''Bearer a '') = Inr (Some (u ''user''))"
proof -
  have ok: "config_ok [(u ''user'', Some [97])]"
    by (simp add: config_ok_def ROLE_LEVELS_def py_strip_def strip_by_def py_space_def)
  have "\<exists>t. u ''Bearer a '' = bearer @ t \<and> (u ''user'', Some (py_strip t)) \<in> set [(u ''user'', Some [97])]"
    by (rule exI [of _ "u ''a ''"]) (simp add: bearer_def u_append [symmetric], simp add: u_def py_strip_def strip_by_def py_space_def)
  moreover have "dict_ok [(u ''user'', Some [97])]" "ascii_config [(u ''user'', Some [97])]"
    "is_ascii (u ''Bearer a '')"
    by (simp add: dict_ok_def, simp add: ascii_config_def is_ascii_def, simp add: is_ascii_def u_def)
  note authenticator_exact [OF this]
  ultimately obtain a where a: "new_authenticator [(u ''user'', Some [97])] = Inr a"
    "\<And>r. authenticate a (u ''Bearer a '') = Inr (Some r) \<longleftrightarrow>
      (\<exists>t. u ''Bearer a '' = bearer @ t \<and> (r, Some (py_strip t)) \<in> set [(u ''user'', Some [97])])"
    using ok by (cases "new_authenticator [(u ''user'', Some [97])]") (simp_all only: sum.case, blast+)
  show ?thesis using a(1) a(2) [of "u ''user''"] \<open>\<exists>t. u ''Bearer a '' = _ t \<and> _ t\<close> by blast
qed

text \<open>
  Access is hierarchical: each action of the table has a minimum role, a role allows exactly the
  actions whose minimum is at or below it in readonly < user < operator < admin, so a higher role
  allows whatever a lower one does; admin allows every action and only admin may register agents.
\<close>

theorem allows_hierarchical:
  "(\<forall>(r, l) \<in> set ROLE_LEVELS. \<forall>(r', l') \<in> set ROLE_LEVELS. \<forall>(a, q) \<in> set REQUIRED_ROLE.
      l \<le> l' \<longrightarrow> allows r a = Inr True \<longrightarrow> allows r' a = Inr True)
   \<and> (\<forall>(a, q) \<in> set REQUIRED_ROLE. allows q a = Inr True \<and> allows (u ''admin'') a = Inr True)
   \<and> (\<forall>(r, l) \<in> set ROLE_LEVELS. allows r (u ''register'') = Inr (r = u ''admin''))
   \<and> (\<forall>a. map_of REQUIRED_ROLE a = None \<longrightarrow> (\<exists>e. \<forall>r. allows r a = Inl e \<and> exc_of e = CValueError))"
  by (simp add: allows_def ROLE_LEVELS_def REQUIRED_ROLE_def)

theorem allows_hierarchical_witness: "allows (u ''operator'') (u ''run'') = Inr True"
  using allows_hierarchical by (simp add: ROLE_LEVELS_def REQUIRED_ROLE_def)

end
