(* ===== verification/Http.thy ===== *)
theory Http
  imports Adapter HttpText Security
begin

text \<open>
  The HTTP server of \<open>adapters/http.py\<close>: access control, the routes of each method, and how a server is built.
  A request is its target, headers and body; a response a status code and what the JSON body is made of.
  \<open>wire\<close> gathers the JSON parser, the version text and the Unicode tables. \<open>Inl\<close> is an exception that leaves the
  handler: the connection is closed without a response.
\<close>

section \<open>State and messages\<close>

definition MAX_REQUEST_BYTES :: int where
  "MAX_REQUEST_BYTES = 1024 * 1024"

record 'w web =
  wb_server :: "'w server"
  wb_token :: "pystr option"
  wb_auth :: "authenticator option"

record request =
  rq_target :: pystr
  rq_headers :: headers
  rq_body :: "int list"

text \<open>The outcome of decoding and parsing a body: an exception, a value that is no object, or an event.\<close>

record wire =
  wi_json :: "int list \<Rightarrow> exn + event option"
  wi_version :: pystr

datatype meth = GET | POST | DELETE

type_synonym fields = "(pystr \<times> field) list"

datatype payload =
    Problem pystr
  | Forbidden pystr
  | InternalProblem
  | Event reply
  | Health pystr "int option"
  | Overview pystr "(pystr \<times> fields) list" nat nat
  | Runs "pydict list"
  | RunDetail "pydict \<times> fields list \<times> pydict list"
  | SessionStats "real option" "int option" "nat \<times> (pystr \<times> real option \<times> real option \<times> nat) list"
  | NoSessions
  | Evicted "pystr list"
  | Deleted pystr

type_synonym response = "int \<times> payload"

section \<open>Access\<close>

text \<open>\<open>_authenticator\<close>: a single token is the admin token; the object made of it is kept.\<close>

definition authenticator_of :: "'w web \<Rightarrow> (exn + authenticator option) \<times> 'w web" where
  "authenticator_of w =
     (case wb_auth w of
        Some a \<Rightarrow> (Inr (Some a), w)
      | None \<Rightarrow>
          (case wb_token w of
             None \<Rightarrow> (Inr None, w)
           | Some t \<Rightarrow>
               if t = [] then (Inr None, w)
               else (case new_authenticator [(u ''admin'', Some t)] of
                       Inl e \<Rightarrow> (Inl e, w)
                     | Inr a \<Rightarrow> (Inr (Some a), w\<lparr>wb_auth := Some a\<rparr>))))"

definition required_role :: "pystr \<Rightarrow> pystr" where
  "required_role action = (case map_of REQUIRED_ROLE action of None \<Rightarrow> [] | Some r \<Rightarrow> r)"

text \<open>\<open>_check_access\<close>: \<open>None\<close> lets the request pass.\<close>

definition check_access :: "pystr option \<Rightarrow> headers \<Rightarrow> 'w web \<Rightarrow> (exn + response option) \<times> 'w web" where
  "check_access action hs w =
     (case authenticator_of w of
        (Inl e, w1) \<Rightarrow> (Inl e, w1)
      | (Inr None, w1) \<Rightarrow> (Inr None, w1)
      | (Inr (Some a), w1) \<Rightarrow>
          (case authenticate a (header hs ''Authorization'') of
             Inl e \<Rightarrow> (Inl e, w1)
           | Inr None \<Rightarrow> (Inr (Some (401, Problem (u ''unauthorized''))), w1)
           | Inr (Some role) \<Rightarrow>
               (case action of
                  None \<Rightarrow> (Inr None, w1)
                | Some act \<Rightarrow>
                    (case allows role act of
                       Inl e \<Rightarrow> (Inl e, w1)
                     | Inr ok \<Rightarrow>
                         if ok then (Inr None, w1)
                         else (Inr (Some (403, Forbidden (required_role act))), w1)))))"

section \<open>GET\<close>

definition get_actions :: "(pystr \<times> pystr) list" where
  "get_actions =
     [(u ''/health'', u ''health''), (u ''/agents'', u ''agents''), (u ''/status'', u ''status''),
      (u ''/runs'', u ''runs.list''), (u ''/sessions'', u ''sessions.stats''), (u ''/history'', u ''history'')]"

definition get_action :: "pystr \<Rightarrow> pystr option" where
  "get_action path =
     (case map_of get_actions path of
        Some a \<Rightarrow> Some a
      | None \<Rightarrow> if py_startswith path (u ''/runs/'') then Some (u ''runs.get'') else None)"

definition main_coord :: "'w server \<Rightarrow> 'w coord" where
  "main_coord s = coord_at s (sv_default s)"

text \<open>\<open>path[len(prefix):].strip("/")\<close>.\<close>

definition tail_of :: "string \<Rightarrow> pystr \<Rightarrow> pystr" where
  "tail_of p path = strip_by (\<lambda>c. c = 47) (drop (length p) path)"

definition overview :: "pystr \<Rightarrow> 'w server \<Rightarrow> payload" where
  "overview version s =
     (let c = main_coord s
      in Overview version (map (\<lambda>a. (a_name (base_of a), health_snapshot (health_of (a_name (base_of a)) c))) (agents c))
           (registry_len (co_runs c)) (case sv_registry s of None \<Rightarrow> 0 | Some m \<Rightarrow> length (sm_sessions m)))"

text \<open>\<open>GET /sessions\<close> evicts before it counts.\<close>

definition sessions_page :: "real \<Rightarrow> 'w server \<Rightarrow> payload \<times> 'w server" where
  "sessions_page now s =
     (case sv_registry s of
        None \<Rightarrow> (NoSessions, s)
      | Some m \<Rightarrow>
          (case cleanup_sessions now m of
             (ev, m1) \<Rightarrow>
               (SessionStats (sm_ttl m1) (sm_max m1)
                  (session_stats (\<lambda>i. store_len (co_memory (coord_at s i))) m1),
                s\<lparr>sv_registry := Some m1\<rparr>)))"

definition get_page :: "'w site \<Rightarrow> wire \<Rightarrow> pystr \<Rightarrow> 'w server \<Rightarrow> response \<times> 'w server" where
  "get_page si wi target s =
     (let path = path_only target
      in if path = u ''/health'' then ((200, Health (wi_version wi) (map_option history_len (sv_history s))), s)
         else if path = u ''/agents'' then ((200, Event (AgentList (map describe (agents (main_coord s))))), s)
         else if path = u ''/status'' then ((200, overview (wi_version wi) s), s)
         else if path = u ''/runs''
         then ((200, Runs (recent_runs (query_limit target) (co_runs (main_coord s)))), s)
         else if py_startswith path (u ''/runs/'')
         then (case get_run (tail_of ''/runs/'' path) (co_runs (main_coord s)) of
                 None \<Rightarrow> ((404, Problem (u ''run not found'')), s)
               | Some t \<Rightarrow> ((200, RunDetail (trace_to_dict t)), s))
         else if path = u ''/sessions''
         then (case sessions_page (x_clock (ho_x (si_host si)) (sv_world s)) s of (p, s1) \<Rightarrow> ((200, p), s1))
         else if path = u ''/history''
         then ((200, Event (recent_records si (query_limit target) (sv_history s))), s)
         else ((404, Problem (u ''not found'')), s))"

definition on_server :: "('w server \<Rightarrow> response \<times> 'w server) \<Rightarrow> 'w web \<Rightarrow> (exn + response) \<times> 'w web" where
  "on_server f w = (case f (wb_server w) of (r, s) \<Rightarrow> (Inr r, w\<lparr>wb_server := s\<rparr>))"

definition do_GET :: "'w site \<Rightarrow> wire \<Rightarrow> request \<Rightarrow> 'w web \<Rightarrow> (exn + response) \<times> 'w web" where
  "do_GET si wi rq w =
     (case check_access (get_action (path_only (rq_target rq))) (rq_headers rq) w of
        (Inl e, w1) \<Rightarrow> (Inl e, w1)
      | (Inr (Some denied), w1) \<Rightarrow> (Inr denied, w1)
      | (Inr None, w1) \<Rightarrow> on_server (get_page si wi (rq_target rq)) w1)"

section \<open>DELETE\<close>

definition delete_action :: "pystr \<Rightarrow> pystr option" where
  "delete_action path = (if py_startswith path (u ''/sessions/'') then Some (u ''sessions.delete'') else None)"

definition delete_page :: "pystr \<Rightarrow> 'w server \<Rightarrow> response \<times> 'w server" where
  "delete_page path s =
     (if \<not> py_startswith path (u ''/sessions/'') then ((404, Problem (u ''not found'')), s)
      else
        (let sid = tail_of ''/sessions/'' path
         in case sv_registry s of
              None \<Rightarrow> ((404, Problem (u ''session not found'')), s)
            | Some m \<Rightarrow>
                if sid = [] then ((404, Problem (u ''session not found'')), s)
                else
                  (case delete_session sid m of
                     (found, m1) \<Rightarrow>
                       (if found then (200, Deleted sid) else (404, Problem (u ''session not found'')),
                        s\<lparr>sv_registry := Some m1\<rparr>))))"

definition do_DELETE :: "request \<Rightarrow> 'w web \<Rightarrow> (exn + response) \<times> 'w web" where
  "do_DELETE rq w =
     (let path = path_only (rq_target rq)
      in case check_access (delete_action path) (rq_headers rq) w of
           (Inl e, w1) \<Rightarrow> (Inl e, w1)
         | (Inr (Some denied), w1) \<Rightarrow> (Inr denied, w1)
         | (Inr None, w1) \<Rightarrow> on_server (delete_page path) w1)"

section \<open>POST\<close>

definition post_action :: "pystr \<Rightarrow> pystr option" where
  "post_action path =
     map_of [(u ''/run'', u ''run''), (u ''/register'', u ''register''), (u ''/sessions/cleanup'', u ''sessions.cleanup'')] path"

definition cleanup_page :: "real \<Rightarrow> 'w server \<Rightarrow> response \<times> 'w server" where
  "cleanup_page now s =
     (case sv_registry s of
        None \<Rightarrow> ((200, Evicted []), s)
      | Some m \<Rightarrow> (case cleanup_sessions now m of (ev, m1) \<Rightarrow> ((200, Evicted ev), s\<lparr>sv_registry := Some m1\<rparr>)))"

definition media_type :: "headers \<Rightarrow> pystr" where
  "media_type hs = py_lower (py_strip (hd (split_on 59 (header hs ''Content-Type''))))"

definition no_event :: event where
  "no_event = \<lparr>ev_items = [], ev_timeout = None, ev_run_timeout = None, ev_budget = Option NoBudget\<rparr>"

definition read_event :: "wire \<Rightarrow> request \<Rightarrow> exn + event" where
  "read_event wi rq =
     (case content_length (rq_headers rq) of
        Inl e \<Rightarrow> Inl e
      | Inr n \<Rightarrow>
          if MAX_REQUEST_BYTES < n then Inl (Exn CValueError (u ''request body too large''))
          else
            (let raw = take (nat n) (rq_body rq)
             in if raw = [] then Inr no_event
                else
                  (case wi_json wi raw of
                     Inl e \<Rightarrow>
                       if catches CException e then Inl (Exn CValueError (u ''invalid json: '' @ exc_msg e)) else Inl e
                   | Inr None \<Rightarrow> Inl (Exn CValueError (u ''event must be a JSON object''))
                   | Inr (Some ev) \<Rightarrow> Inr ev)))"

definition reply_code :: "reply \<Rightarrow> int" where
  "reply_code r =
     (case r of Failed t \<Rightarrow> if t = u ''too many concurrent runs'' then 429 else 400 | _ \<Rightarrow> 200)"

definition post_event ::
    "'w site \<Rightarrow> event \<Rightarrow> 'w server \<Rightarrow> ((exn + response) \<times> 'w server) option" where
  "post_event si ev s =
     (case handle_event si ev s of
        None \<Rightarrow> None
      | Some (Inr r, s1) \<Rightarrow> Some (Inr (reply_code r, Event r), s1)
      | Some (Inl e, s1) \<Rightarrow>
          Some (if catches CException e then Inr (500, InternalProblem) else Inl e, s1))"

definition post_page ::
    "'w site \<Rightarrow> wire \<Rightarrow> request \<Rightarrow> 'w server \<Rightarrow> ((exn + response) \<times> 'w server) option" where
  "post_page si wi rq s =
     (let path = path_only (rq_target rq)
      in if path = u ''/sessions/cleanup''
         then (case cleanup_page (x_clock (ho_x (si_host si)) (sv_world s)) s of (r, s1) \<Rightarrow> Some (Inr r, s1))
         else if path \<noteq> u ''/run'' \<and> path \<noteq> u ''/register'' then Some (Inr (404, Problem (u ''not found'')), s)
         else if media_type (rq_headers rq) \<noteq> u ''application/json''
         then Some (Inr (415, Problem (u ''Content-Type must be application/json'')), s)
         else
           (case content_length (rq_headers rq) of
              Inl e \<Rightarrow> Some (Inr (400, Problem (u ''invalid Content-Length'')), s)
            | Inr n \<Rightarrow>
                if MAX_REQUEST_BYTES < n then Some (Inr (413, Problem (u ''request body too large'')), s)
                else
                  (case read_event wi rq of
                     Inl e \<Rightarrow>
                       if catches CValueError e
                       then Some (Inr (if py_contains (exc_msg e) (u ''too large'') then 413 else 400, Problem (exc_msg e)), s)
                       else Some (Inl e, s)
                   | Inr ev \<Rightarrow> post_event si ev s)))"

definition do_POST ::
    "'w site \<Rightarrow> wire \<Rightarrow> request \<Rightarrow> 'w web \<Rightarrow> ((exn + response) \<times> 'w web) option" where
  "do_POST si wi rq w =
     (case check_access (post_action (path_only (rq_target rq))) (rq_headers rq) w of
        (Inl e, w1) \<Rightarrow> Some (Inl e, w1)
      | (Inr (Some denied), w1) \<Rightarrow> Some (Inr denied, w1)
      | (Inr None, w1) \<Rightarrow>
          (case post_page si wi rq (wb_server w1) of
             None \<Rightarrow> None
           | Some (r, s) \<Rightarrow> Some (r, w1\<lparr>wb_server := s\<rparr>)))"

definition serve_request ::
    "'w site \<Rightarrow> wire \<Rightarrow> meth \<Rightarrow> request \<Rightarrow> 'w web \<Rightarrow> ((exn + response) \<times> 'w web) option" where
  "serve_request si wi m rq w =
     (case m of
        GET \<Rightarrow> Some (do_GET si wi rq w)
      | DELETE \<Rightarrow> Some (do_DELETE rq w)
      | POST \<Rightarrow> do_POST si wi rq w)"

section \<open>Building a server\<close>

definition demo_agent :: "'w ext \<Rightarrow> (pydict \<Rightarrow> 'w kwargs) \<Rightarrow> string \<Rightarrow> string \<Rightarrow> exn + 'w agent" where
  "demo_agent x read name template =
     create_agent x (u ''mock'') (u name) (read [(u ''message_template'', StrV (u template))])"

definition register_demo_agents :: "'w ext \<Rightarrow> (pydict \<Rightarrow> 'w kwargs) \<Rightarrow> 'w coord \<Rightarrow> exn + 'w coord" where
  "register_demo_agents x read c =
     (case demo_agent x read ''alpha'' ''alpha received: {msg}'' of
        Inl e \<Rightarrow> Inl e
      | Inr a \<Rightarrow>
          (case register_agent a True c of
             Inl e \<Rightarrow> Inl e
           | Inr c1 \<Rightarrow>
               (case demo_agent x read ''beta'' ''beta processed: {msg}'' of
                  Inl e \<Rightarrow> Inl e
                | Inr b \<Rightarrow> register_agent b True c1)))"

record server_options =
  so_token :: "pystr option"
  so_roles :: "(pystr \<times> pystr) list"
  so_sessions :: bool
  so_ttl :: "real option"
  so_max_sessions :: "int option"
  so_history :: "history option"
  so_prompt_limit :: "int option"
  so_final_limit :: "int option"
  so_max_runs :: int
  so_kinds :: "pystr list option"
  so_insecure :: bool

definition build_server ::
    "(pystr \<Rightarrow> bool option) \<Rightarrow> pystr \<Rightarrow> server_options \<Rightarrow> 'w rt \<Rightarrow> 'w coord \<Rightarrow> exn + 'w web" where
  "build_server ipv6 host k rt c =
     (case validate_bind_security ipv6 host (so_token k) (so_roles k) (so_insecure k) of
        Inl e \<Rightarrow> Inl e
      | Inr _ \<Rightarrow>
          (let registry = (if so_sessions k then Some (new_manager (so_ttl k) (so_max_sessions k)) else None);
               w = \<lparr>wb_server = new_adapter rt [c] 0 registry (so_history k) (so_prompt_limit k) (so_final_limit k)
                                  (so_max_runs k) (so_kinds k),
                    wb_token = so_token k, wb_auth = None\<rparr>
           in if so_roles k = [] then Inr w
              else (case new_authenticator (map (\<lambda>(r, t). (r, Some t)) (so_roles k)) of
                      Inl e \<Rightarrow> Inl e
                    | Inr a \<Rightarrow> Inr (w\<lparr>wb_auth := Some a\<rparr>))))"

section \<open>Lemmas\<close>

definition action_of :: "meth \<Rightarrow> request \<Rightarrow> pystr option" where
  "action_of m rq =
     (let path = path_only (rq_target rq)
      in case m of GET \<Rightarrow> get_action path | POST \<Rightarrow> post_action path | DELETE \<Rightarrow> delete_action path)"

text \<open>The request carries a token whose role allows the action of its route.\<close>

definition permitted :: "authenticator \<Rightarrow> meth \<Rightarrow> request \<Rightarrow> bool" where
  "permitted a m rq \<longleftrightarrow>
     (case authenticate a (header (rq_headers rq) ''Authorization'') of
        Inr (Some role) \<Rightarrow> (case action_of m rq of None \<Rightarrow> True | Some act \<Rightarrow> allows role act = Inr True)
      | _ \<Rightarrow> False)"

definition is_denial :: "response \<Rightarrow> bool" where
  "is_denial r \<longleftrightarrow> r = (401, Problem (u ''unauthorized'')) \<or> (\<exists>role. r = (403, Forbidden role))"

lemma authenticator_of_server: "authenticator_of w = (r, w1) \<Longrightarrow> wb_server w1 = wb_server w \<and> wb_token w1 = wb_token w"
  by (auto simp: authenticator_of_def split: option.splits if_splits sum.splits)

lemma check_access_keeps: "check_access act hs w = (r, w1) \<Longrightarrow> wb_server w1 = wb_server w \<and> wb_token w1 = wb_token w"
  by (auto simp: check_access_def dest: authenticator_of_server split: prod.splits sum.splits option.splits if_splits)

lemma check_access_denies:
  assumes "authenticator_of w = (Inr (Some a), w0)" "\<not> permitted a m rq"
    "check_access (action_of m rq) (rq_headers rq) w = (r, w1)"
  shows "case r of Inl e \<Rightarrow> True | Inr None \<Rightarrow> False | Inr (Some d) \<Rightarrow> is_denial d"
  using assms by (auto simp: check_access_def permitted_def is_denial_def split: sum.splits option.splits if_splits)

text \<open>What a request comes to, once its access is known.\<close>

lemma serve_request_cases:
  assumes "serve_request si wi m rq w = Some (r, w')"
  obtains (raised) e where "check_access (action_of m rq) (rq_headers rq) w = (Inl e, w')" "r = Inl e"
  | (denied) d where "check_access (action_of m rq) (rq_headers rq) w = (Inr (Some d), w')" "r = Inr d"
  | (passed) w1 s where "check_access (action_of m rq) (rq_headers rq) w = (Inr None, w1)"
      "w' = w1\<lparr>wb_server := s\<rparr>"
proof -
  obtain o1 w1 where c: "check_access (action_of m rq) (rq_headers rq) w = (o1, w1)" by fastforce
  show thesis
  proof (cases o1)
    case (Inl e)
    with assms c show thesis
      by (intro raised [of e]) (auto simp: serve_request_def do_GET_def do_DELETE_def do_POST_def action_of_def Let_def split: meth.splits)
  next
    case (Inr d)
    show thesis
    proof (cases d)
      case None
      with assms c Inr have "\<exists>s. w' = w1\<lparr>wb_server := s\<rparr>"
        by (auto simp: serve_request_def do_GET_def do_DELETE_def do_POST_def action_of_def Let_def on_server_def
            split: meth.splits prod.splits option.splits)
      with c Inr None passed show thesis by blast
    next
      case (Some d')
      with assms c Inr show thesis
        by (intro denied [of d'])
          (auto simp: serve_request_def do_GET_def do_DELETE_def do_POST_def action_of_def Let_def split: meth.splits)
    qed
  qed
qed

text \<open>A server that asks for a token goes on asking for one.\<close>

definition asks_token :: "'w web \<Rightarrow> bool" where
  "asks_token w \<longleftrightarrow> wb_auth w \<noteq> None \<or> (case wb_token w of None \<Rightarrow> False | Some t \<Rightarrow> t \<noteq> [])"

lemma asks_token_kept:
  assumes "serve_request si wi m rq w = Some (r, w')" "asks_token w"
  shows "asks_token w'"
proof -
  have one: "asks_token w1" if "check_access act hs w = (x, w1)" for act hs x and w1 :: "'a web"
    using that assms(2)
    by (auto simp: check_access_def authenticator_of_def asks_token_def
        split: prod.splits sum.splits option.splits if_splits)
  from assms(1) show ?thesis
  proof (cases rule: serve_request_cases)
    case (passed w1 s)
    with one [OF passed(1)] show ?thesis by (simp add: asks_token_def)
  qed (use one in blast)+
qed

primrec serve_all :: "'w site \<Rightarrow> wire \<Rightarrow> (meth \<times> request) list \<Rightarrow> 'w web \<Rightarrow> 'w web option" where
  "serve_all si wi [] w = Some w"
| "serve_all si wi (x # xs) w =
     (case serve_request si wi (fst x) (snd x) w of None \<Rightarrow> None | Some (r, w1) \<Rightarrow> serve_all si wi xs w1)"

lemma asks_token_all: "serve_all si wi xs w = Some w' \<Longrightarrow> asks_token w \<Longrightarrow> asks_token w'"
  by (induction xs arbitrary: w) (auto split: option.splits prod.splits dest: asks_token_kept)

lemma asks_token_auth: "asks_token w \<Longrightarrow> authenticator_of w = (r, w1) \<Longrightarrow> (\<exists>e. r = Inl e) \<or> (\<exists>a. r = Inr (Some a))"
  by (auto simp: asks_token_def authenticator_of_def split: option.splits if_splits sum.splits)

section \<open>Properties\<close>


text \<open>
  C10. A server on a remote address is never open by accident: whatever is built for a host that is not
  loopback, without the explicit opt-in to insecurity, answers a request without credentials with 401 or not at
  all and changes nothing for it, at any time in its life.
\<close>

theorem remote_server_closed:
  assumes "build_server ipv6 host k rt c = Inr w0" "\<not> is_loopback_bind_host ipv6 host" "\<not> so_insecure k"
    "serve_all si wi rqs w0 = Some w" "header (rq_headers rq) ''Authorization'' = []"
    "serve_request si wi m rq w = Some (r, w')"
  shows "wb_server w' = wb_server w \<and> (case r of Inl e \<Rightarrow> True | Inr d \<Rightarrow> d = (401, Problem (u ''unauthorized'')))"
proof -
  have "asks_token w0"
    using assms(1-3) by (auto simp: build_server_def validate_bind_security_def asks_token_def Let_def
        split: sum.splits if_splits option.splits)
  with assms(4) have ask: "asks_token w" by (rule asks_token_all)
  obtain o1 w1 where a: "authenticator_of w = (o1, w1)" by fastforce
  have no: "authenticate x [] = Inr None" for x by (simp add: authenticate_def py_startswith_def bearer_def)
  have "\<exists>x. check_access (action_of m rq) (rq_headers rq) w = (x, w1)
      \<and> (case x of Inl e \<Rightarrow> True | Inr d \<Rightarrow> d = Some (401, Problem (u ''unauthorized'')))"
    using asks_token_auth [OF ask a] a assms(5) no by (auto simp: check_access_def)
  then obtain x where x: "check_access (action_of m rq) (rq_headers rq) w = (x, w1)"
    "case x of Inl e \<Rightarrow> True | Inr d \<Rightarrow> d = Some (401, Problem (u ''unauthorized''))" by blast
  from assms(6) show ?thesis
  proof (cases rule: serve_request_cases)
    case (raised e)
    with check_access_keeps [OF raised(1)] show ?thesis by simp
  next
    case (denied d)
    with check_access_keeps [OF denied(1)] x show ?thesis by (auto split: sum.splits)
  next
    case (passed w2 s)
    with x show ?thesis by (auto split: sum.splits)
  qed
qed

definition is_failed :: "reply \<Rightarrow> bool" where
  "is_failed r = (case r of Failed t \<Rightarrow> True | _ \<Rightarrow> False)"


section \<open>Witnesses\<close>

definition sample_wire :: wire where
  "sample_wire = \<lparr>wi_json = (\<lambda>b. Inr (Some join_event)), wi_version = u ''1''\<rparr>"

definition user_web :: "unit web" where
  "user_web = \<lparr>wb_server = sample_server, wb_token = None, wb_auth = Some [(u ''t'', u ''user'')]\<rparr>"

definition post_to :: "string \<Rightarrow> string \<Rightarrow> request" where
  "post_to path token =
     \<lparr>rq_target = u path,
      rq_headers = (if token = [] then [] else [(u ''Authorization'', bearer @ u token)])
        @ [(u ''Content-Type'', u ''application/json; charset=utf-8''), (u ''Content-Length'', u ''2'')],
      rq_body = [123, 125]\<rparr>"

text \<open>
  The role of a route does not guard the event: a token of role user, which may not register agents, registers
  one by sending the register event to \<open>/run\<close>, because the adapter goes by the type inside the body; the same
  event sent to \<open>/register\<close> is refused.
\<close>

theorem run_route_registers:
  "(case serve_request sample_site sample_wire POST (post_to ''/register'' ''t'') user_web of
      Some (Inr r, w) \<Rightarrow> r = (403, Forbidden (u ''admin'')) | _ \<Rightarrow> False)
   \<and> (case serve_request sample_site sample_wire POST (post_to ''/run'' ''t'') user_web of
        Some (Inr r, w) \<Rightarrow> r = (200, Event (Registered [u ''n'']))
          \<and> map fst (co_agents (main_coord (wb_server w))) = [u ''a'', u ''b'', u ''n'']
      | _ \<Rightarrow> False)"
  by code_simp

lemma refused_post:
  "case serve_request sample_site sample_wire POST (post_to ''/register'' ''t'') user_web of
     Some (Inr r, w) \<Rightarrow> r = (403, Forbidden (u ''admin'')) | _ \<Rightarrow> False"
  by code_simp

lemma user_not_permitted: "\<not> permitted [(u ''t'', u ''user'')] POST (post_to ''/register'' ''t'')"
  by code_simp


definition remote_options :: server_options where
  "remote_options =
     \<lparr>so_token = Some (u ''t''), so_roles = [], so_sessions = True, so_ttl = None, so_max_sessions = None,
      so_history = None, so_prompt_limit = None, so_final_limit = None, so_max_runs = 4, so_kinds = None,
      so_insecure = False\<rparr>"

lemma remote_built: "case build_server (\<lambda>s. None) (u ''0.0.0.0'') remote_options sample_rt sample_coord of
    Inl e \<Rightarrow> False
  | Inr w \<Rightarrow> (case serve_request sample_site sample_wire POST (post_to ''/run'' []) w of
                Some (Inr r, w1) \<Rightarrow> fst r = 401 | _ \<Rightarrow> False)"
  by code_simp

theorem remote_server_closed_witness:
  "\<exists>w p w'. build_server (\<lambda>s. None) (u ''0.0.0.0'') remote_options sample_rt sample_coord = Inr w
     \<and> serve_request sample_site sample_wire POST (post_to ''/run'' []) w = Some (Inr (401, p), w')
     \<and> wb_server w' = wb_server w"
proof -
  obtain w where b: "build_server (\<lambda>s. None) (u ''0.0.0.0'') remote_options sample_rt sample_coord = Inr w"
    and f: "case serve_request sample_site sample_wire POST (post_to ''/run'' []) w of
              Some (Inr r, w1) \<Rightarrow> fst r = 401 | _ \<Rightarrow> False"
    using remote_built by (cases "build_server (\<lambda>s. None) (u ''0.0.0.0'') remote_options sample_rt sample_coord") auto
  from f obtain p w' where e: "serve_request sample_site sample_wire POST (post_to ''/run'' []) w = Some (Inr (401, p), w')"
    by (auto split: option.splits prod.splits sum.splits)
  have "\<not> is_loopback_bind_host (\<lambda>s. None) (u ''0.0.0.0'')" "\<not> so_insecure remote_options"
    "header (rq_headers (post_to ''/run'' [])) ''Authorization'' = []" by code_simp+
  moreover have "serve_all sample_site sample_wire [] w = Some w" by simp
  ultimately have "wb_server w' = wb_server w" using remote_server_closed [OF b _ _ _ _ e] by blast
  with b e show ?thesis by blast
qed

lemma posted: "case post_page sample_site sample_wire (post_to ''/run'' ''t'') sample_server of
    Some (Inr r, s) \<Rightarrow> fst r = 200 | _ \<Rightarrow> False"
  by code_simp


end
