(* ===== verification/Server.thy ===== *)
theory Server
  imports Http
begin

text \<open>
  The life of an HTTP server: the requests it serves one after the other, from the one it is built for. Its
  contract is that of a state machine whose invariant is the adapter's.
\<close>

lemma owners_cleaned:
  assumes "owners_ok d n m" "cleanup_sessions now m = (ev, m1)"
  shows "owners_ok d n m1"
proof -
  have "m1 = fst (evict now (sm_max m) m)" using assms(2) by (auto simp: cleanup_sessions_def split: prod.splits)
  moreover have "manager_ok (fst (evict now (sm_max m) m))" using assms(1) by (simp add: owners_ok_def evict_ok)
  ultimately show ?thesis by (simp add: owners_thinned [OF assms(1) thinned_evict])
qed

lemma owners_deleted: "owners_ok d n m \<Longrightarrow> delete_session i m = (found, m1) \<Longrightarrow> owners_ok d n m1"
  by (auto simp: delete_session_def intro!: owners_thinned [OF _ thinned_drop] drop_ok) (auto simp: owners_ok_def)

text \<open>Requests without an event only ever touch the dictionary of sessions.\<close>

definition settled :: "'w server \<Rightarrow> 'w server \<Rightarrow> bool" where
  "settled s s' \<longleftrightarrow> sv_coords s' = sv_coords s \<and> (adapter_ok s \<longrightarrow> adapter_ok s')"

lemma settled_registry:
  assumes "\<And>d n. owners_ok d n m \<Longrightarrow> owners_ok d n m1" "sv_registry s = Some m"
  shows "settled s (s\<lparr>sv_registry := Some m1\<rparr>)"
  using assms by (simp add: settled_def adapter_ok_def)

lemma settled_self: "settled s s"
  by (simp add: settled_def)

lemma sessions_page_settled: "sessions_page now s = (p, s') \<Longrightarrow> settled s s'"
  by (auto simp: sessions_page_def settled_self intro: settled_registry owners_cleaned split: option.splits prod.splits)

lemma get_page_settled: "get_page si wi t s = (r, s') \<Longrightarrow> settled s s'"
  by (auto simp: get_page_def Let_def settled_self split: if_splits option.splits prod.splits dest: sessions_page_settled)

lemma cleanup_page_settled: "cleanup_page now s = (r, s') \<Longrightarrow> settled s s'"
  by (auto simp: cleanup_page_def settled_self intro: settled_registry owners_cleaned split: option.splits prod.splits)

lemma delete_page_settled: "delete_page path s = (r, s') \<Longrightarrow> settled s s'"
  by (auto simp: delete_page_def Let_def settled_self intro: settled_registry owners_deleted
      split: if_splits option.splits prod.splits)

section \<open>One request\<close>

text \<open>The coordinator a request is about: that of the event in its body, if it has one.\<close>

definition touched :: "wire \<Rightarrow> meth \<Rightarrow> request \<Rightarrow> 'w server \<Rightarrow> nat option" where
  "touched wi m rq s =
     (case (m, read_event wi rq) of (POST, Inr ev) \<Rightarrow> target_of ev s | _ \<Rightarrow> None)"

definition isolated :: "nat option \<Rightarrow> 'w server \<Rightarrow> 'w server \<Rightarrow> bool" where
  "isolated i s s' \<longleftrightarrow>
     adapter_ok s' \<and> (\<forall>j < length (sv_coords s). i \<noteq> Some j \<longrightarrow> sv_coords s' ! j = sv_coords s ! j)"

lemma settled_isolated: "settled s s' \<Longrightarrow> adapter_ok s \<Longrightarrow> isolated i s s'"
  by (simp add: settled_def isolated_def)

lemma post_page_isolated:
  assumes "post_page si wi rq s = Some (r, s')" "adapter_ok s"
  shows "isolated (touched wi POST rq s) s s'"
proof -
  have self: "isolated i s s" for i using assms(2) by (simp add: isolated_def)
  consider (page) r1 where "cleanup_page (x_clock (ho_x (si_host si)) (sv_world s)) s = (r1, s')"
    | (same) "s' = s"
    | (event) ev r1 where "read_event wi rq = Inr ev" "handle_event si ev s = Some (r1, s')"
    using assms(1)
    by (auto simp: post_page_def post_event_def Let_def split: if_splits sum.splits option.splits prod.splits)
  then show ?thesis
  proof cases
    case page
    then show ?thesis by (intro settled_isolated cleanup_page_settled assms(2))
  next
    case event
    with event_isolated [OF event(2) assms(2)] show ?thesis by (simp add: isolated_def touched_def)
  qed (simp add: self)
qed

lemma request_isolated:
  assumes "serve_request si wi m rq w = Some (r, w')" "adapter_ok (wb_server w)"
  shows "isolated (touched wi m rq (wb_server w)) (wb_server w) (wb_server w')"
proof -
  have self: "isolated i (wb_server w) (wb_server w)" for i using assms(2) by (simp add: isolated_def)
  from assms(1) show ?thesis
  proof (cases rule: serve_request_cases)
    case (raised e)
    with check_access_keeps [OF raised(1)] self show ?thesis by simp
  next
    case (denied d)
    with check_access_keeps [OF denied(1)] self show ?thesis by simp
  next
    case (passed w1 s)
    have w1: "wb_server w1 = wb_server w" using check_access_keeps [OF passed(1)] by simp
    have c: "check_access (action_of m rq) (rq_headers rq) w = (Inr None, w1)" by (rule passed(1))
    show ?thesis
    proof (cases m)
      case GET
      then obtain r1 where "get_page si wi (rq_target rq) (wb_server w) = (r1, wb_server w')"
        using assms(1) c w1 by (auto simp: serve_request_def do_GET_def action_of_def Let_def on_server_def split: prod.splits)
      then show ?thesis by (intro settled_isolated get_page_settled assms(2))
    next
      case DELETE
      then obtain r1 where "delete_page (path_only (rq_target rq)) (wb_server w) = (r1, wb_server w')"
        using assms(1) c w1 by (auto simp: serve_request_def do_DELETE_def action_of_def Let_def on_server_def split: prod.splits)
      then show ?thesis by (intro settled_isolated delete_page_settled assms(2))
    next
      case POST
      then have "post_page si wi rq (wb_server w) = Some (r, wb_server w')"
        using assms(1) c w1 by (auto simp: serve_request_def do_POST_def action_of_def Let_def split: option.splits prod.splits)
      from post_page_isolated [OF this assms(2)] POST show ?thesis by simp
    qed
  qed
qed

section \<open>A life of requests\<close>

text \<open>A request that is never answered leaves the server to the others as it was.\<close>

definition serve_step :: "'w site \<Rightarrow> wire \<Rightarrow> 'w web \<Rightarrow> meth \<times> request \<Rightarrow> 'w web" where
  "serve_step si wi w x = (case serve_request si wi (fst x) (snd x) w of None \<Rightarrow> w | Some (r, w') \<Rightarrow> w')"

interpretation server: step_machine "serve_step si wi" "\<lambda>w. adapter_ok (wb_server w)" for si wi
proof unfold_locales
  fix w :: "'a web" and x
  assume "adapter_ok (wb_server w)"
  then show "adapter_ok (wb_server (serve_step si wi w x))"
    by (auto simp: serve_step_def isolated_def split: option.split dest: request_isolated)
qed

lemma serve_all_steps: "serve_all si wi xs w = Some w' \<Longrightarrow> w' = foldl (serve_step si wi) w xs"
  by (induction xs arbitrary: w) (auto simp: serve_step_def split: option.splits prod.splits)

lemma new_adapter_ok:
  "(\<And>m. reg = Some m \<Longrightarrow> owners_ok 0 1 m) \<Longrightarrow> adapter_ok (new_adapter rt [c] 0 reg hist pl fl n ks)"
  by (simp add: new_adapter_def adapter_ok_def Let_def split: option.split)

lemma new_manager_owners: "owners_ok d n (new_manager ttl mx)"
  by (simp add: owners_ok_def new_manager_def manager_ok_def sync_def bound_of_def split: option.split)

lemma built_ok:
  assumes "build_server ipv6 host k rt c = Inr w"
  shows "adapter_ok (wb_server w)"
proof -
  have "wb_server w = new_adapter rt [c] 0 (if so_sessions k then Some (new_manager (so_ttl k) (so_max_sessions k)) else None)
      (so_history k) (so_prompt_limit k) (so_final_limit k) (so_max_runs k) (so_kinds k)"
    using assms by (simp add: build_server_def Let_def split: sum.splits if_splits) auto
  then show ?thesis by (auto intro!: new_adapter_ok new_manager_owners split: if_splits)
qed

text \<open>
  C4. Sessions stay isolated over the whole life of an HTTP server: whatever requests it has answered since it
  was built, no two sessions share a coordinator, none has the default one and no more runs than allowed hold a
  slot; and the next request, on whatever route, changes at most the coordinator its event is about.
\<close>

theorem server_isolates_sessions:
  assumes "build_server ipv6 host k rt c = Inr w0" "serve_all si wi rqs w0 = Some w"
    "serve_request si wi m rq w = Some (r, w')"
  shows "adapter_ok (wb_server w')
    \<and> (\<forall>j < length (sv_coords (wb_server w)). touched wi m rq (wb_server w) \<noteq> Some j
         \<longrightarrow> sv_coords (wb_server w') ! j = sv_coords (wb_server w) ! j)"
proof -
  have "adapter_ok (wb_server w)"
    using server.run_inv [OF built_ok [OF assms(1)]] serve_all_steps [OF assms(2)] by blast
  from request_isolated [OF assms(3) this] show ?thesis by (simp add: isolated_def)
qed

lemma life_served: "case build_server (\<lambda>s. None) (u ''0.0.0.0'') remote_options sample_rt sample_coord of
    Inl e \<Rightarrow> False
  | Inr w \<Rightarrow> (case serve_all sample_site sample_wire [(POST, post_to ''/register'' ''t'')] w of
      None \<Rightarrow> False
    | Some w1 \<Rightarrow> (case serve_request sample_site sample_wire POST (post_to ''/register'' ''t'') w1 of
        Some (Inr r, w2) \<Rightarrow> fst r = 200 | _ \<Rightarrow> False))"
  by code_simp

theorem server_isolates_sessions_witness:
  "\<exists>w0 w r w'. build_server (\<lambda>s. None) (u ''0.0.0.0'') remote_options sample_rt sample_coord = Inr w0
     \<and> serve_all sample_site sample_wire [(POST, post_to ''/register'' ''t'')] w0 = Some w
     \<and> serve_request sample_site sample_wire POST (post_to ''/register'' ''t'') w = Some (Inr r, w') \<and> fst r = 200
     \<and> adapter_ok (wb_server w')"
proof -
  obtain w0 where b: "build_server (\<lambda>s. None) (u ''0.0.0.0'') remote_options sample_rt sample_coord = Inr w0"
    using life_served by (cases "build_server (\<lambda>s. None) (u ''0.0.0.0'') remote_options sample_rt sample_coord") auto
  obtain w where s: "serve_all sample_site sample_wire [(POST, post_to ''/register'' ''t'')] w0 = Some w"
    using life_served unfolding b sum.case by (auto simp del: serve_all.simps split: option.splits)
  obtain r w' where q: "serve_request sample_site sample_wire POST (post_to ''/register'' ''t'') w = Some (Inr r, w')"
    and f: "fst r = 200"
    using life_served unfolding b s sum.case option.case by (auto split: option.splits prod.splits sum.splits)
  from server_isolates_sessions [OF b s q] have "adapter_ok (wb_server w')" by simp
  with b s q f show ?thesis by blast
qed

end
