(* ===== verification/Mcp.thy ===== *)
theory Mcp
  imports Http
begin

text \<open>
  The MCP server of \<open>adapters/mcp.py\<close>: JSON-RPC requests, one per line, turned into tool calls on the adapter.
  A request is its JSON object; the entries of \<open>arguments\<close> that may hold fractional numbers stand beside it. What
  a tool returns is kept as it is, its JSON text being \<open>json.dumps\<close> of it. \<open>Inl\<close> is an exception that leaves the
  loop, and with it the server.
\<close>

section \<open>Tools\<close>

definition PROTOCOL_VERSION :: pystr where
  "PROTOCOL_VERSION = u ''2025-03-26''"

definition SUPPORTED_PROTOCOL_VERSIONS :: "pystr list" where
  "SUPPORTED_PROTOCOL_VERSIONS =
     [u ''2025-03-26'', u ''2025-06-18'', u ''2025-11-25'', u ''2024-11-05'', u ''2024-10-07'']"

definition STRATEGY_NAMES :: "pystr list" where
  "STRATEGY_NAMES = u ''auto'' # STRATEGIES"

definition strategy_enum :: pyval where
  "strategy_enum = ListV (map StrV STRATEGY_NAMES)"

definition TOOLS :: "(pystr \<times> pyval) list" where
  "TOOLS =
    [(u ''run'', DictV [(u ''description'', StrV (u ''Run a multi-agent collaboration strategy and return the final answer plus per-''
          @ u ''round details. Strategies: broadcast (parallel discussion), sequential (chain-''
          @ u ''of-agents), debate (multi-round with judge), supervisor (task decomposition + ''
          @ u ''parallel workers), consensus (propose + vote), relay (pass-the-baton draft ref''
          @ u ''inement).'')),
        (u ''inputSchema'', DictV [(u ''type'', StrV (u ''object'')),
            (u ''properties'', DictV [(u ''prompt'', DictV [(u ''type'', StrV (u ''string'')),
                    (u ''description'', StrV (u ''The task or question for the agents.''))]),
                (u ''strategy'', DictV [(u ''type'', StrV (u ''string'')),
                    (u ''enum'', strategy_enum)]),
                (u ''rounds'', DictV [(u ''type'', StrV (u ''integer'')),
                    (u ''minimum'', IntV 1),
                    (u ''description'', StrV (u ''Debate/broadcast rounds (default 1).''))]),
                (u ''session_id'', DictV [(u ''type'', StrV (u ''string'')),
                    (u ''description'', StrV (u ''Optional session id; isolates memory and registry per session.''))]),
                (u ''judge'', DictV [(u ''type'', StrV (u ''string'')),
                    (u ''description'', StrV (u ''Debate/consensus judge agent name.''))]),
                (u ''order'', DictV [(u ''type'', StrV (u ''array'')),
                    (u ''items'', DictV [(u ''type'', StrV (u ''string''))]),
                    (u ''description'', StrV (u ''Sequential strategy speaking order.''))]),
                (u ''workers'', DictV [(u ''type'', StrV (u ''array'')),
                    (u ''items'', DictV [(u ''type'', StrV (u ''string''))]),
                    (u ''description'', StrV (u ''Supervisor worker agent names.''))]),
                (u ''timeout'', DictV [(u ''type'', StrV (u ''number'')),
                    (u ''description'', StrV (u ''Per-agent timeout in seconds.''))])]),
            (u ''required'', ListV [StrV (u ''prompt'')])])]),
     (u ''agents'', DictV [(u ''description'', StrV (u ''List registered agents (name, role, provider, model, token usage).'')),
        (u ''inputSchema'', DictV [(u ''type'', StrV (u ''object'')),
            (u ''properties'', DictV [])])]),
     (u ''register'', DictV [(u ''description'', StrV (u ''Register agents. Each entry: {name, kind: mock|echo|http|deepseek|openai|custo''
          @ u ''m, plus kind-specific fields like system_prompt, model, url}.'')),
        (u ''inputSchema'', DictV [(u ''type'', StrV (u ''object'')),
            (u ''properties'', DictV [(u ''session_id'', DictV [(u ''type'', StrV (u ''string''))]),
                (u ''agents'', DictV [(u ''type'', StrV (u ''array'')),
                    (u ''items'', DictV [(u ''type'', StrV (u ''object''))]),
                    (u ''description'', StrV (u ''Agent config dicts (same shape as the HTTP register event).''))])]),
            (u ''required'', ListV [StrV (u ''agents'')])])]),
     (u ''status'', DictV [(u ''description'', StrV (u ''Adapter status: agent names, auto strategy, session count.'')),
        (u ''inputSchema'', DictV [(u ''type'', StrV (u ''object'')),
            (u ''properties'', DictV [])])]),
     (u ''history'', DictV [(u ''description'', StrV ([26597, 35810, 26368, 36817, 30340, 22810, 26234, 33021, 20307, 21327, 20316, 36816, 34892, 21382, 21490, 65288]
          @ [38656, 26381, 21153, 20197]
          @ u '' --history ''
          @ [21551, 21160, 65289, 65292, 36820, 22238, 26368, 26032, 22312, 21069, 30340, 35760, 24405, 21015, 34920, 12290])),
        (u ''inputSchema'', DictV [(u ''type'', StrV (u ''object'')),
            (u ''properties'', DictV [(u ''limit'', DictV [(u ''type'', StrV (u ''integer'')),
                    (u ''minimum'', IntV 1),
                    (u ''description'', StrV ([36820, 22238, 26368, 36817]
          @ u '' N ''
          @ [26465, 35760, 24405, 65288, 40664, 35748]
          @ u '' 20''
          @ [65289, 12290]))])])])]),
     (u ''runs'', DictV [(u ''description'', StrV ([26597, 35810, 26368, 36817, 36816, 34892, 30340]
          @ u '' trace''
          @ [65288, 21487, 35266, 27979, 24615, 65289, 12290, 19981, 24102]
          @ u '' run_id ''
          @ [26102, 36820, 22238, 26368, 36817, 36816, 34892, 30340, 25688, 35201, 21015, 34920, 65307, 24102]
          @ u '' run_id ''
          @ [26102, 36820, 22238, 35813, 27425, 36816, 34892, 30340, 23436, 25972]
          @ u '' span/task ''
          @ [26126, 32454, 12290])),
        (u ''inputSchema'', DictV [(u ''type'', StrV (u ''object'')),
            (u ''properties'', DictV [(u ''run_id'', DictV [(u ''type'', StrV (u ''string'')),
                    (u ''description'', StrV ([25351, 23450]
          @ u '' run ''
          @ [30340]
          @ u '' id''
          @ [65288]
          @ u ''meta.run_id''
          @ [65289, 65292, 36820, 22238, 23436, 25972, 26126, 32454, 12290]))]),
                (u ''limit'', DictV [(u ''type'', StrV (u ''integer'')),
                    (u ''minimum'', IntV 1),
                    (u ''description'', StrV ([25688, 35201, 21015, 34920, 38271, 24230, 65288, 40664, 35748]
          @ u '' 20''
          @ [65289, 12290]))])])])])]"

record mcp_request =
  mq_items :: pydict
  mq_timeout :: "real option"
  mq_run_timeout :: "(exn + real) option"
  mq_budget :: run_budget

datatype tool_value =
    Adapted reply
  | AdapterStatus reply pystr "nat option"
  | RunList "pydict list"
  | RunTrace "pydict \<times> fields list \<times> pydict list"

datatype rpc_value =
    Initialized pystr pystr
  | Pong
  | ToolList "(pystr \<times> pyval) list"
  | ToolText tool_value
  | ToolError pystr

datatype rpc_response =
    Result pyval rpc_value
  | RpcError pyval int pystr

fun response_id :: "rpc_response \<Rightarrow> pyval" where
  "response_id (Result i v) = i"
| "response_id (RpcError i c t) = i"

section \<open>Calling a tool\<close>

definition bare_event :: "pydict \<Rightarrow> event" where
  "bare_event d = \<lparr>ev_items = d, ev_timeout = None, ev_run_timeout = None, ev_budget = Option NoBudget\<rparr>"

definition value_error :: "pystr \<Rightarrow> exn" where
  "value_error t = Exn CValueError t"

text \<open>\<open>args.get(...)\<close> needs a dictionary, where \<open>dict(args)\<close> takes pairs as well.\<close>

definition args_get :: "pyval \<Rightarrow> string \<Rightarrow> exn + pyval" where
  "args_get v k = (case dict_of v of None \<Rightarrow> Inl no_get_attr | Some d \<Rightarrow> Inr (dget d k))"

definition run_tool ::
    "'w site \<Rightarrow> event \<Rightarrow> 'w server \<Rightarrow> ((exn + tool_value) \<times> 'w server) option" where
  "run_tool si ev s =
     (case handle_event si ev s of
        None \<Rightarrow> None
      | Some (Inl e, s1) \<Rightarrow> Some (Inl e, s1)
      | Some (Inr r, s1) \<Rightarrow> Some (case r of Failed t \<Rightarrow> Inl (value_error t) | _ \<Rightarrow> Inr (Adapted r), s1))"

definition ask_adapter ::
    "'w site \<Rightarrow> event \<Rightarrow> (reply \<Rightarrow> tool_value) \<Rightarrow> 'w server \<Rightarrow> ((exn + tool_value) \<times> 'w server) option" where
  "ask_adapter si ev f s =
     (case handle_event si ev s of
        None \<Rightarrow> None
      | Some (r, s1) \<Rightarrow> Some (map_sum id f r, s1))"

text \<open>The \<open>runs\<close> tool reads the registry of the default coordinator.\<close>

definition runs_tool :: "pyval \<Rightarrow> 'w server \<Rightarrow> exn + tool_value" where
  "runs_tool args s =
     (case args_get args ''run_id'' of
        Inl e \<Rightarrow> Inl e
      | Inr i \<Rightarrow>
          (let runs = co_runs (main_coord s)
           in if truthy i
              then (case get_run (py_str i) runs of
                      None \<Rightarrow> Inl (value_error (u ''run not found: '' @ py_str i))
                    | Some t \<Rightarrow> Inr (RunTrace (trace_to_dict t)))
              else
                (case args_get args ''limit'' of
                   Inl e \<Rightarrow> Inl e
                 | Inr n \<Rightarrow>
                     (case py_int (or_else n (IntV 20)) of
                        Inl e \<Rightarrow> Inl e
                      | Inr limit \<Rightarrow> Inr (RunList (recent_runs limit runs))))))"

definition call_tool ::
    "'w site \<Rightarrow> pystr \<Rightarrow> mcp_request \<Rightarrow> pyval \<Rightarrow> pyval \<Rightarrow> 'w server
     \<Rightarrow> ((exn + tool_value) \<times> 'w server) option" where
  "call_tool si version rq name args s =
     (case py_dict args of
        Inl e \<Rightarrow> Some (Inl e, s)
      | Inr d \<Rightarrow>
          (let ev = \<lparr>ev_items = AList.update (u ''type'') name d, ev_timeout = mq_timeout rq,
                     ev_run_timeout = mq_run_timeout rq, ev_budget = mq_budget rq\<rparr>;
               asks = (\<lambda>k. case args_get args k of
                         Inl e \<Rightarrow> Inl e
                       | Inr v \<Rightarrow> Inr (bare_event [(u ''type'', name), (u k, v)]))
           in if name = StrV (u ''run'') then run_tool si ev s
              else if name = StrV (u ''agents'')
              then (case asks ''session_id'' of
                      Inl e \<Rightarrow> Some (Inl e, s) | Inr ev1 \<Rightarrow> ask_adapter si ev1 Adapted s)
              else if name = StrV (u ''register'') then ask_adapter si ev Adapted s
              else if name = StrV (u ''status'')
              then (case asks ''session_id'' of
                      Inl e \<Rightarrow> Some (Inl e, s)
                    | Inr ev1 \<Rightarrow>
                        (case ask_adapter si ev1 Adapted s of
                           None \<Rightarrow> None
                         | Some (Inr (Adapted r), s1) \<Rightarrow>
                             Some (Inr (AdapterStatus r version
                                     (map_option (\<lambda>m. length (sm_sessions m)) (sv_registry s1))), s1)
                         | Some (r, s1) \<Rightarrow> Some (r, s1)))
              else if name = StrV (u ''history'')
              then (case asks ''limit'' of
                      Inl e \<Rightarrow> Some (Inl e, s) | Inr ev1 \<Rightarrow> ask_adapter si ev1 Adapted s)
              else if name = StrV (u ''runs'') then Some (runs_tool args s, s)
              else Some (Inl (value_error (u ''unknown tool: '' @ py_str name)), s)))"

section \<open>Requests\<close>

definition unhashable :: "pyval \<Rightarrow> bool" where
  "unhashable v = (case v of ListV vs \<Rightarrow> True | DictV d \<Rightarrow> True | _ \<Rightarrow> False)"

text \<open>The version asked for when it is supported; what is no string is in no set of strings, or in none at all.\<close>

definition negotiate :: "pyval \<Rightarrow> exn + pystr" where
  "negotiate params =
     (case map_of (case dict_of params of None \<Rightarrow> [] | Some d \<Rightarrow> d) (u ''protocolVersion'') of
        None \<Rightarrow> Inr PROTOCOL_VERSION
      | Some (StrV v) \<Rightarrow> Inr (if v \<in> set SUPPORTED_PROTOCOL_VERSIONS then v else PROTOCOL_VERSION)
      | Some v \<Rightarrow> if unhashable v then Inl (Exn CTypeError (u ''unhashable type'')) else Inr PROTOCOL_VERSION)"

definition tool_request ::
    "'w site \<Rightarrow> pystr \<Rightarrow> mcp_request \<Rightarrow> 'w server \<Rightarrow> ((exn + tool_value) \<times> 'w server) option" where
  "tool_request si version rq s =
     (case dict_of (or_else (dget (mq_items rq) ''params'') (DictV [])) of
        None \<Rightarrow> Some (Inl no_get_attr, s)
      | Some ps \<Rightarrow>
          call_tool si version rq (case map_of ps (u ''name'') of None \<Rightarrow> StrV [] | Some n \<Rightarrow> n)
            (or_else (dget ps ''arguments'') (DictV [])) s)"

definition handle_request ::
    "'w site \<Rightarrow> pystr \<Rightarrow> mcp_request \<Rightarrow> 'w server \<Rightarrow> ((exn + rpc_response option) \<times> 'w server) option" where
  "handle_request si version rq s =
     (let m = (case map_of (mq_items rq) (u ''method'') of None \<Rightarrow> StrV [] | Some v \<Rightarrow> v);
          i = dget (mq_items rq) ''id''
      in if m = StrV (u ''initialize'')
         then Some (map_sum id (\<lambda>v. Some (Result i (Initialized v version))) (negotiate (dget (mq_items rq) ''params'')), s)
         else if m = StrV (u ''notifications/initialized'') then Some (Inr None, s)
         else if m = StrV (u ''ping'') then Some (Inr (Some (Result i Pong)), s)
         else if m = StrV (u ''tools/list'') then Some (Inr (Some (Result i (ToolList TOOLS))), s)
         else if m = StrV (u ''tools/call'')
         then
           (case tool_request si version rq s of
              None \<Rightarrow> None
            | Some (Inr v, s1) \<Rightarrow> Some (Inr (Some (Result i (ToolText v))), s1)
            | Some (Inl e, s1) \<Rightarrow>
                Some (if catches CException e then Inr (Some (Result i (ToolError (u ''error: '' @ exc_msg e)))) else Inl e, s1))
         else if i \<noteq> NoneV
         then Some (Inr (Some (RpcError i (-32601) (u ''method not found: '' @ py_str m))), s)
         else Some (Inr None, s))"

section \<open>The loop\<close>

text \<open>What \<open>json.loads\<close> makes of a line: an exception, a value that is no object, or a request.\<close>

definition serve_line ::
    "'w site \<Rightarrow> pystr \<Rightarrow> (pystr \<Rightarrow> exn + mcp_request option) \<Rightarrow> pystr \<Rightarrow> 'w server
     \<Rightarrow> ((exn + rpc_response list) \<times> 'w server) option" where
  "serve_line si version parse line s =
     (let l = py_strip line
      in if l = [] then Some (Inr [], s)
         else
           (case parse l of
              Inl e \<Rightarrow>
                Some (if catches CValueError e then Inr [RpcError NoneV (-32700) (u ''Parse error'')] else Inl e, s)
            | Inr None \<Rightarrow> Some (Inr [RpcError NoneV (-32600) (u ''Invalid Request'')], s)
            | Inr (Some rq) \<Rightarrow>
                (case handle_request si version rq s of
                   None \<Rightarrow> None
                 | Some (Inr None, s1) \<Rightarrow> Some (Inr [], s1)
                 | Some (Inr (Some r), s1) \<Rightarrow> Some (Inr [r], s1)
                 | Some (Inl e, s1) \<Rightarrow>
                     (if \<not> catches CException e then Some (Inl e, s1)
                      else
                        (let i = dget (mq_items rq) ''id''
                         in Some (Inr (if i = NoneV then []
                                       else [RpcError i (-32603) (u ''internal error: '' @ exc_msg e)]), s1))))))"

fun serve_lines ::
    "'w site \<Rightarrow> pystr \<Rightarrow> (pystr \<Rightarrow> exn + mcp_request option) \<Rightarrow> pystr list \<Rightarrow> 'w server
     \<Rightarrow> (rpc_response list \<times> exn option \<times> 'w server) option" where
  "serve_lines si version parse [] s = Some ([], None, s)"
| "serve_lines si version parse (l # ls) s =
     (case serve_line si version parse l s of
        None \<Rightarrow> None
      | Some (Inl e, s1) \<Rightarrow> Some ([], Some e, s1)
      | Some (Inr out, s1) \<Rightarrow>
          (case serve_lines si version parse ls s1 of
             None \<Rightarrow> None
           | Some (outs, e, s2) \<Rightarrow> Some (out @ outs, e, s2)))"

text \<open>\<open>_version\<close>: what the metadata of the installed package says.\<close>

definition mcp_version :: "exn + pystr \<Rightarrow> exn + pystr" where
  "mcp_version found =
     (case found of Inl e \<Rightarrow> if catches CException e then Inr (u ''0.0.0'') else Inl e | Inr v \<Rightarrow> Inr v)"

definition session_registry :: "nat manager" where
  "session_registry = new_manager None None"

section \<open>Properties\<close>

lemma map_sum_id_iff [simp]:
  "map_sum id f x = Inr y \<longleftrightarrow> (\<exists>v. x = Inr v \<and> f v = y)" "map_sum id f x = Inl e \<longleftrightarrow> x = Inl e"
  by (cases x; auto)+

lemma request_response:
  assumes "handle_request si version rq s = Some (Inr (Some r), s')"
  shows "response_id r = dget (mq_items rq) ''id''"
  using assms by (auto simp: handle_request_def Let_def split: if_splits option.splits sum.splits)

lemma request_silent:
  assumes "handle_request si version rq s = Some (Inr None, s')"
  shows "dget (mq_items rq) ''id'' = NoneV \<or> dget (mq_items rq) ''method'' = StrV (u ''notifications/initialized'')"
  using assms by (auto simp: handle_request_def dget_def Let_def split: if_splits option.splits sum.splits)

lemma request_raises:
  assumes "handle_request si version rq s = Some (Inl e, s')"
  shows "catches CException e \<longrightarrow> exc_of e = CTypeError"
  using assms
  by (auto simp: handle_request_def negotiate_def Let_def split: if_splits option.splits sum.splits pyval.splits)


text \<open>
  The loop survives its input: it stops before the last line only for an exception that is no \<open>Exception\<close>, or
  for one of the parser that is no \<open>ValueError\<close>; and the responses sent until then are those of the lines before.
\<close>

theorem loop_survives:
  assumes "serve_lines si version parse ls s = Some (outs, Some e, s')"
  shows "\<not> catches CException e
    \<or> \<not> catches CValueError e \<and> (\<exists>l \<in> set ls. parse (py_strip l) = Inl e)"
  using assms
proof (induction ls arbitrary: s outs)
  case (Cons l ls)
  obtain res s1 where l: "serve_line si version parse l s = Some (res, s1)"
    using Cons.prems by (cases "serve_line si version parse l s") auto
  show ?case
  proof (cases res)
    case (Inl e')
    with Cons.prems l have "e' = e" by simp
    with l Inl show ?thesis
      by (auto simp: serve_line_def Let_def split: if_splits sum.splits option.splits)
  next
    case (Inr out)
    with Cons.prems l obtain outs' where "serve_lines si version parse ls s1 = Some (outs', Some e, s')"
      by (auto split: option.splits)
    from Cons.IH [OF this] show ?thesis by auto
  qed
qed simp

text \<open>
  The protocol version answered is always a supported one, and the one asked for when that is supported.
\<close>

theorem version_negotiated:
  assumes "negotiate params = Inr v"
  shows "v \<in> set SUPPORTED_PROTOCOL_VERSIONS
    \<and> (\<forall>d w. params = DictV d \<longrightarrow> map_of d (u ''protocolVersion'') = Some (StrV w) \<longrightarrow>
         w \<in> set SUPPORTED_PROTOCOL_VERSIONS \<longrightarrow> v = w)"
proof -
  have "PROTOCOL_VERSION \<in> set SUPPORTED_PROTOCOL_VERSIONS"
    by (simp add: PROTOCOL_VERSION_def SUPPORTED_PROTOCOL_VERSIONS_def)
  with assms show ?thesis by (auto simp: negotiate_def split: option.splits pyval.splits if_splits)
qed

text \<open>A request without an id asks for no response; some get one, with a null id.\<close>

lemma notification_answered:
  "map_of (mq_items rq) (u ''method'') = Some (StrV (u ''ping'')) \<Longrightarrow> map_of (mq_items rq) (u ''id'') = None \<Longrightarrow>
     handle_request si version rq s = Some (Inr (Some (Result NoneV Pong)), s)"
  by (simp add: handle_request_def dget_def)

section \<open>Witnesses\<close>

definition sample_parse :: "pystr \<Rightarrow> exn + mcp_request option" where
  "sample_parse l =
     (if l = u ''ask''
      then Inr (Some \<lparr>mq_items = [(u ''id'', IntV 7), (u ''method'', StrV (u ''tools/call'')),
                        (u ''params'', DictV [(u ''name'', StrV (u ''register'')),
                           (u ''arguments'', DictV [(u ''agents'', ListV [DictV [(u ''name'', StrV (u ''n'')),
                              (u ''kind'', StrV (u ''echo''))]])])])],
                      mq_timeout = None, mq_run_timeout = None, mq_budget = Option NoBudget\<rparr>)
      else if l = u ''deep'' then Inl (Exn CRuntimeError (u ''maximum recursion depth exceeded''))
      else Inl (Exn CValueError []))"

lemma sample_line: "case serve_line sample_site (u ''1'') sample_parse (u '' ask '') sample_server of
    Some (Inr outs, s) \<Rightarrow> map response_id outs = [IntV 7] | _ \<Rightarrow> False"
  by code_simp


lemma sample_loop: "case serve_lines sample_site (u ''1'') sample_parse [u ''x'', u ''deep'', u ''x''] sample_server of
    Some (outs, Some e, s) \<Rightarrow> outs = [RpcError NoneV (-32700) (u ''Parse error'')] \<and> \<not> catches CValueError e | _ \<Rightarrow> False"
  by code_simp

theorem loop_survives_witness:
  "\<exists>outs e s. serve_lines sample_site (u ''1'') sample_parse [u ''x'', u ''deep'', u ''x''] sample_server
       = Some (outs, Some e, s)
     \<and> (\<not> catches CException e \<or> \<not> catches CValueError e \<and> (\<exists>l \<in> set [u ''x'', u ''deep'', u ''x'']. sample_parse (py_strip l) = Inl e))"
proof -
  obtain outs e s where l: "serve_lines sample_site (u ''1'') sample_parse [u ''x'', u ''deep'', u ''x''] sample_server
      = Some (outs, Some e, s)"
    using sample_loop by (auto split: option.splits prod.splits)
  with loop_survives [OF l] show ?thesis by blast
qed

theorem version_negotiated_witness:
  "PROTOCOL_VERSION \<in> set SUPPORTED_PROTOCOL_VERSIONS"
  using version_negotiated [of "DictV []" PROTOCOL_VERSION] by (simp add: negotiate_def)

end
