(* ===== verification/Cli.thy ===== *)
theory Cli
  imports Mcp
begin

text \<open>
  The entry points: the command line of \<open>adapters/cli.py\<close> and the server set-ups of the two \<open>main\<close> functions of
  \<open>adapters/http.py\<close> and \<open>adapters/mcp.py\<close>. Arguments are what \<open>argparse\<close> made of the command line; a
  configuration file is the outcome of loading it. Output is a list of lines, a JSON dump being what is dumped.
\<close>

section \<open>The team\<close>

definition plain_coordinator :: "'w coord" where
  "plain_coordinator = new_coordinator None 15 None False None"

definition demo_coordinator :: "'w site \<Rightarrow> exn + 'w coord" where
  "demo_coordinator si = register_demo_agents (ho_x (si_host si)) (si_read si) plain_coordinator"

text \<open>\<open>[n.strip() for n in s.split(",") if n.strip()]\<close>.\<close>

definition comma_list :: "pystr \<Rightarrow> pystr list" where
  "comma_list s = stripped (split_on 44 s)"

definition comma_option :: "pystr option \<Rightarrow> pystr list" where
  "comma_option s = (case s of None \<Rightarrow> [] | Some t \<Rightarrow> comma_list t)"

fun register_mocks :: "'w site \<Rightarrow> pystr list \<Rightarrow> 'w coord \<Rightarrow> exn + 'w coord" where
  "register_mocks si [] c = Inr c"
| "register_mocks si (n # ns) c =
     (case create_agent (ho_x (si_host si)) (u ''mock'') n (si_read si []) of
        Inl e \<Rightarrow> Inl e
      | Inr a \<Rightarrow> (case register_agent a True c of Inl e \<Rightarrow> Inl e | Inr c1 \<Rightarrow> register_mocks si ns c1))"

record team_args =
  ta_config :: "(exn + team_config) option"
  ta_demo :: bool
  ta_agents :: "pystr option"

definition configured :: "'w site \<Rightarrow> (exn + team_config) \<Rightarrow> exn + 'w coord" where
  "configured si cfg =
     (case cfg of Inl e \<Rightarrow> Inl e | Inr c \<Rightarrow> build_coordinator (ho_x (si_host si)) (si_read si) c)"

definition build_team :: "'w site \<Rightarrow> team_args \<Rightarrow> exn + 'w coord" where
  "build_team si a =
     (case ta_config a of
        Some cfg \<Rightarrow> configured si cfg
      | None \<Rightarrow>
          if ta_demo a then demo_coordinator si
          else
            (let names = comma_option (ta_agents a)
             in if names = []
                then Inl (Exn CSystemExit (u ''no agents: pass --config FILE, --demo, or --agents a,b,c''))
                else register_mocks si names plain_coordinator))"

section \<open>run\<close>

datatype out_line =
    Line pystr
  | DumpResult strat_result
  | DumpStep step_record
  | DumpUsage run_meta
  | DumpTrace "pydict \<times> fields list \<times> pydict list"
  | DumpAgents "pydict list"
  | DumpAgent pydict

record cli_run =
  cr_team :: team_args
  cr_prompt :: pystr
  cr_strategy :: pystr
  cr_rounds :: int
  cr_judge :: "pystr option"
  cr_order :: "pystr option"
  cr_workers :: "pystr option"
  cr_timeout :: "real option"
  cr_window :: "int option"
  cr_max_chars :: "int option"
  cr_cache :: bool
  cr_json :: bool
  cr_usage :: bool
  cr_trace :: bool

text \<open>The time-out is passed even when it is \<open>None\<close>: then calls have none.\<close>

definition cli_args :: "cli_run \<Rightarrow> run_args" where
  "cli_args a =
     \<lparr>ra_context =
        (if cr_window a \<noteq> None \<or> cr_max_chars a \<noteq> None
         then Some (PolicyArg \<lparr>p_window = cr_window a, p_max_chars = cr_max_chars a, p_hide_own = False\<rparr>) else None),
      ra_cache = (if cr_cache a then Some (BoolV True) else None), ra_session = None, ra_run_timeout = None,
      ra_budget = Option NoBudget, ra_timeout = Some (cr_timeout a),
      ra_opts = \<lparr>op_rounds = Some (IntV (cr_rounds a)), op_judge = cr_judge a, op_order = comma_option (cr_order a),
                 op_supervisor = None, op_workers = comma_option (cr_workers a), op_timeout = None\<rparr>\<rparr>"

definition step_lines :: "step_record list \<Rightarrow> out_line list" where
  "step_lines records =
     concat (map (\<lambda>(i, r). [Line (u ''--- step '' @ py_int_str (int i) @ u '' ---''), DumpStep r])
               (zip [1..<Suc (length records)] records))"

definition trace_lines :: "bool \<Rightarrow> strat_result \<Rightarrow> registry \<Rightarrow> out_line list" where
  "trace_lines wanted res reg =
     (if \<not> wanted then []
      else
        (case mt_run_id (sr_meta res) of
           None \<Rightarrow> []
         | Some i \<Rightarrow>
             if i = [] then []
             else (case get_run i reg of
                     None \<Rightarrow> []
                   | Some t \<Rightarrow> [Line (u ''== TRACE ==''), DumpTrace (trace_to_dict t)])))"

definition print_result :: "cli_run \<Rightarrow> strat_result \<Rightarrow> registry \<Rightarrow> out_line list" where
  "print_result a res reg =
     (if cr_json a then [DumpResult res]
      else
        [Line (u ''== strategy: '' @ sr_strategy res @ u '' =='')] @ step_lines (sr_rounds res)
        @ [Line (u ''== FINAL ==''), Line (sr_final res)]
        @ (if cr_usage a then [Line (u ''== USAGE ==''), DumpUsage (sr_meta res)] else []))
     @ trace_lines (cr_trace a) res reg"

definition fresh_rt :: "'w coord \<Rightarrow> 'w \<Rightarrow> 'w rt" where
  "fresh_rt c w =
     \<lparr>rt_coord = c, rt_traces = [], rt_budgets = [], rt_trace_var = cvar_empty, rt_deadline_var = cvar_empty,
      rt_budget_var = cvar_empty, rt_world = w\<rparr>"

definition cmd_run :: "'w site \<Rightarrow> cli_run \<Rightarrow> 'w \<Rightarrow> ((exn + out_line list) \<times> 'w) option" where
  "cmd_run si a w =
     (case build_team si (cr_team a) of
        Inl e \<Rightarrow> Some (Inl e, w)
      | Inr c \<Rightarrow>
          (case coordinator_run (si_host si) (cr_prompt a) (cr_strategy a) (cli_args a) (fresh_rt c w) of
             None \<Rightarrow> None
           | Some (Inl e, s) \<Rightarrow> Some (Inl e, rt_world s)
           | Some (Inr res, s) \<Rightarrow> Some (Inr (print_result a res (co_runs (rt_coord s))), rt_world s)))"

definition cmd_agents :: "'w site \<Rightarrow> team_args \<Rightarrow> bool \<Rightarrow> exn + out_line list" where
  "cmd_agents si a json =
     map_sum id (\<lambda>c. if json then [DumpAgents (map describe (agents c))] else map (\<lambda>x. DumpAgent (describe x)) (agents c))
       (build_team si a)"

section \<open>serve\<close>

record serve_args =
  sa_team :: team_args
  sa_host :: pystr
  sa_token :: "pystr option"
  sa_history :: "history option"
  sa_prompt_limit :: "int option"
  sa_final_limit :: "int option"

definition cmd_serve ::
    "'w site \<Rightarrow> (pystr \<Rightarrow> bool option) \<Rightarrow> serve_args \<Rightarrow> 'w \<Rightarrow> exn + 'w web" where
  "cmd_serve si ipv6 a w =
     (case build_team si (sa_team a) of
        Inl e \<Rightarrow> Inl e
      | Inr c \<Rightarrow>
          build_server ipv6 (sa_host a)
            \<lparr>so_token = sa_token a, so_roles = [],
             so_sessions = (ta_config (sa_team a) \<noteq> None \<or> ta_demo (sa_team a)), so_ttl = None,
             so_max_sessions = None, so_history = sa_history a, so_prompt_limit = sa_prompt_limit a,
             so_final_limit = sa_final_limit a, so_max_runs = 4, so_kinds = None, so_insecure = False\<rparr>
            (fresh_rt c w) c)"

text \<open>The coordinator of one session: the factory the servers pass on.\<close>

definition session_factory :: "'w site \<Rightarrow> team_args \<Rightarrow> exn + 'w coord" where
  "session_factory si a =
     (case ta_config a of
        Some cfg \<Rightarrow> configured si cfg
      | None \<Rightarrow> if ta_demo a then demo_coordinator si else Inr plain_coordinator)"

record http_args =
  ha_team :: team_args
  ha_host :: pystr
  ha_token :: "pystr option"
  ha_role_args :: "pystr list"
  ha_env_roles :: "(exn + pyval) option"
  ha_insecure :: bool
  ha_history :: "history option"
  ha_prompt_limit :: "int option"
  ha_final_limit :: "int option"
  ha_ttl :: "real option"
  ha_max_sessions :: "int option"
  ha_max_runs :: int
  ha_allow_kinds :: "pystr list"

definition http_main :: "'w site \<Rightarrow> (pystr \<Rightarrow> bool option) \<Rightarrow> http_args \<Rightarrow> 'w \<Rightarrow> exn + 'w web" where
  "http_main si ipv6 a w =
     (case session_factory si (ha_team a) of
        Inl e \<Rightarrow> Inl e
      | Inr c \<Rightarrow>
          (case parse_roles (ha_role_args a) (ha_env_roles a) of
             Inl e \<Rightarrow> Inl e
           | Inr roles \<Rightarrow>
               build_server ipv6 (ha_host a)
                 \<lparr>so_token = (if roles \<noteq> [] then None else ha_token a), so_roles = roles,
                  so_sessions = (ta_config (ha_team a) \<noteq> None \<or> ta_demo (ha_team a)), so_ttl = ha_ttl a,
                  so_max_sessions = ha_max_sessions a, so_history = ha_history a,
                  so_prompt_limit = ha_prompt_limit a, so_final_limit = ha_final_limit a,
                  so_max_runs = ha_max_runs a,
                  so_kinds = Some (py_sorted_set (DEFAULT_REGISTER_KINDS @ ha_allow_kinds a)),
                  so_insecure = ha_insecure a\<rparr>
                 (fresh_rt c w) c))"

definition mcp_main ::
    "'w site \<Rightarrow> team_args \<Rightarrow> history option \<Rightarrow> int option \<Rightarrow> int option \<Rightarrow> 'w \<Rightarrow> exn + 'w server" where
  "mcp_main si a hist prompt_limit final_limit w =
     (case session_factory si a of
        Inl e \<Rightarrow> Inl e
      | Inr c \<Rightarrow>
          Inr (new_adapter (fresh_rt c w) [c] 0 (Some session_registry) hist prompt_limit final_limit 4 None))"

section \<open>Properties\<close>

lemma register_agent_const:
  "register_agent a r c = Inr c' \<Longrightarrow> co_runs c' = co_runs c"
  by (auto simp: register_agent_def Let_def split: if_splits)

lemma register_mocks_runs: "register_mocks si ns c = Inr c' \<Longrightarrow> co_runs c' = co_runs c"
  by (induction ns arbitrary: c) (auto dest!: register_agent_const split: sum.splits)

lemma register_configs_runs: "register_configs x read vs c = Inr c' \<Longrightarrow> co_runs c' = co_runs c"
  by (induction vs arbitrary: c) (auto dest!: register_agent_const split: sum.splits)

lemma build_team_runs: "build_team si a = Inr c \<Longrightarrow> co_runs c = new_registry 100"
  by (auto simp: build_team_def configured_def build_coordinator_def demo_coordinator_def register_demo_agents_def
      plain_coordinator_def new_coordinator_def apply_cache_def Let_def
      dest!: register_configs_runs register_mocks_runs register_agent_const split: option.splits sum.splits if_splits)

lemma get_run_recorded: "get_run (tr_run_id t) (record_run t (new_registry 100)) = Some t"
  by (simp add: get_run_def record_run_def new_registry_def deque_append_def Let_def dict_get_update)

text \<open>
  C37. \<open>--trace\<close> shows the trace of the run that was made: the run of the command line prints its result and then
  the one trace its metadata names, closed with that result, whatever the team and the strategy.
\<close>

theorem cli_prints_own_trace:
  assumes "cmd_run si a w = Some (Inr out, w')" "cr_trace a" "x_uuid (ho_x (si_host si)) w \<noteq> []"
  shows "\<exists>c res s t. build_team si (cr_team a) = Inr c
    \<and> coordinator_run (si_host si) (cr_prompt a) (cr_strategy a) (cli_args a) (fresh_rt c w) = Some (Inr res, s)
    \<and> out = print_result (a\<lparr>cr_trace := False\<rparr>) res (co_runs (rt_coord s))
            @ [Line (u ''== TRACE ==''), DumpTrace (trace_to_dict t)]
    \<and> closes t (Inr res) \<and> tr_prompt t = take 200 (cr_prompt a)"
proof -
  obtain c res s where b: "build_team si (cr_team a) = Inr c"
    and r: "coordinator_run (si_host si) (cr_prompt a) (cr_strategy a) (cli_args a) (fresh_rt c w) = Some (Inr res, s)"
    and o: "out = print_result a res (co_runs (rt_coord s))"
    using assms(1) by (auto simp: cmd_run_def split: sum.splits option.splits)
  have reg: "co_runs (rt_coord (fresh_rt c w)) = new_registry 100"
    using build_team_runs [OF b] by (simp add: fresh_rt_def)
  have "context_ok (fresh_rt c w)" by (simp add: fresh_rt_def context_ok_def)
  moreover have "traces_ok (fresh_rt c w)"
    using reg by (simp add: traces_ok_def) (simp add: fresh_rt_def new_registry_def)
  moreover have "\<forall>e. ra_run_timeout (cli_args a) \<noteq> Some (Inl e)" by (simp add: cli_args_def)
  ultimately obtain t st where t: "co_runs (rt_coord s) = record_run t (new_registry 100)" "closes t (Inr res)"
    "trace_names t = (0, x_uuid (ho_x (si_host si)) w, take 200 (cr_prompt a), st, ra_session (cli_args a))"
    using run_record [OF r] reg by (auto simp: fresh_rt_def)
  have id: "mt_run_id (sr_meta res) = Some (tr_run_id t)" using t(2) by (simp add: closes_def)
  have "tr_run_id t \<noteq> []" using t(3) assms(3) by (simp add: trace_names_def)
  then have "trace_lines True res (co_runs (rt_coord s)) = [Line (u ''== TRACE ==''), DumpTrace (trace_to_dict t)]"
    using id get_run_recorded [of t] by (simp add: trace_lines_def t(1))
  moreover have "tr_prompt t = take 200 (cr_prompt a)" using t(3) by (simp add: trace_names_def)
  ultimately show ?thesis
    using b r o t(2) assms(2) by (intro exI [of _ c] exI [of _ res] exI [of _ s] exI [of _ t])
      (simp add: print_result_def trace_lines_def)
qed

definition demo_site :: "unit site" where
  "demo_site =
     sample_site\<lparr>si_host := sample_host\<lparr>ho_x := idle\<lparr>x_uuid := (\<lambda>w. u ''run-1'')\<rparr>\<rparr>\<rparr>"

definition demo_run :: cli_run where
  "demo_run =
     \<lparr>cr_team = \<lparr>ta_config = None, ta_demo = True, ta_agents = None\<rparr>, cr_prompt = u ''hello'', cr_strategy = u ''auto'',
      cr_rounds = 1, cr_judge = None, cr_order = None, cr_workers = None, cr_timeout = Some 5, cr_window = Some 3,
      cr_max_chars = None, cr_cache = True, cr_json = False, cr_usage = True, cr_trace = True\<rparr>"

lemma demo_runs: "returns (cmd_run demo_site demo_run ())"
  by code_simp

theorem cli_prints_own_trace_witness:
  "\<exists>out w t. cmd_run demo_site demo_run () = Some (Inr out, w)
     \<and> last out = DumpTrace (trace_to_dict t) \<and> tr_prompt t = u ''hello''"
proof -
  obtain out w where e: "cmd_run demo_site demo_run () = Some (Inr out, w)" using returnsD [OF demo_runs] by blast
  have "cr_trace demo_run" "x_uuid (ho_x (si_host demo_site)) () \<noteq> []" by code_simp+
  from cli_prints_own_trace [OF e this] obtain out' t where
    "out = out' @ [Line (u ''== TRACE ==''), DumpTrace (trace_to_dict t)]" "tr_prompt t = take 200 (cr_prompt demo_run)"
    by (elim exE conjE) (rule that)
  moreover have "take 200 (cr_prompt demo_run) = u ''hello''" by code_simp
  ultimately have "last out = DumpTrace (trace_to_dict t)" "tr_prompt t = u ''hello''" by simp_all
  with e show ?thesis by (intro exI [of _ out] exI [of _ w] exI [of _ t]) simp
qed

end
