(* ===== verification/Serving.thy ===== *)
theory Serving
  imports Server Cli
begin

text \<open>
  Running the servers: \<open>serve\<close> of \<open>adapters/http.py\<close>, which builds a server, installs the signal handlers and
  serves until it is told to stop, and the JSON-RPC loop as a machine that keeps the adapter's invariant. What
  happens while the server runs is a list of occurrences: requests, signals delivered, the moment a shutdown thread
  sets the flag of \<open>serve_forever\<close>, and exceptions raised in its loop. The default action of a signal without a
  handler is an occurrence of its own (\<open>KeyboardInterrupt\<close> for \<open>SIGINT\<close>) or ends the process.
\<close>

section \<open>serve\<close>

datatype occurrence = Arrives meth request | Signalled pystr | FlagSet | Breaks exn

text \<open>What \<open>getattr(signal, name)\<close> and \<open>signal.signal\<close> do for a name.\<close>

datatype sig_outcome = NoSuchSignal | Installs | Refuses exn

fun install_handlers :: "(pystr \<Rightarrow> sig_outcome) \<Rightarrow> pystr list \<Rightarrow> exn + pystr list" where
  "install_handlers f [] = Inr []"
| "install_handlers f (n # ns) =
     (case f n of
        NoSuchSignal \<Rightarrow> install_handlers f ns
      | Installs \<Rightarrow> map_sum id (\<lambda>hs. n # hs) (install_handlers f ns)
      | Refuses e \<Rightarrow>
          if catches CValueError e \<or> catches COSError e then install_handlers f ns else Inl e)"

definition serve_handlers :: "bool \<Rightarrow> (pystr \<Rightarrow> sig_outcome) \<Rightarrow> exn + pystr list" where
  "serve_handlers main f = (if main then install_handlers f [u ''SIGTERM'', u ''SIGINT''] else Inr [])"

definition auth_mode :: "(pystr \<times> pystr) list \<Rightarrow> pystr option \<Rightarrow> pystr" where
  "auth_mode roles token =
     (if roles \<noteq> [] then u ''roles''
      else if (case token of None \<Rightarrow> False | Some t \<Rightarrow> t \<noteq> []) then u ''token'' else u ''off'')"

definition serve_banner :: "pystr \<Rightarrow> int \<Rightarrow> server_options \<Rightarrow> 'w coord \<Rightarrow> pystr" where
  "serve_banner host port k c =
     u ''adapter server listening on http://'' @ host @ u '':'' @ py_int_str port
     @ u '' (agents: '' @ py_repr_strs (agent_names c) @ u '', auth: '' @ auth_mode (so_roles k) (so_token k)
     @ u '', sessions: '' @ (if so_sessions k then u ''on'' else u ''off'') @ u '')''"

text \<open>The handler of a signal starts a thread that calls \<open>shutdown\<close>; \<open>n\<close> of them were started. The loop looks at
  the flag before each request. \<open>None\<close>: it is still serving after these occurrences.\<close>

fun serve_forever ::
    "'w site \<Rightarrow> wire \<Rightarrow> pystr list \<Rightarrow> nat \<Rightarrow> occurrence list \<Rightarrow> 'w web \<Rightarrow> (exn option \<times> 'w web) option" where
  "serve_forever si wi hs n [] w = None"
| "serve_forever si wi hs n (Arrives m rq # os) w = serve_forever si wi hs n os (serve_step si wi w (m, rq))"
| "serve_forever si wi hs n (Signalled g # os) w = serve_forever si wi hs (if g \<in> set hs then n + 1 else n) os w"
| "serve_forever si wi hs n (FlagSet # os) w = (if 0 < n then Some (None, w) else serve_forever si wi hs n os w)"
| "serve_forever si wi hs n (Breaks e # os) w = Some (Some e, w)"

text \<open>Binding the socket comes after the check of the host and before the tokens are looked at.\<close>

definition start_server ::
    "(pystr \<Rightarrow> bool option) \<Rightarrow> exn option \<Rightarrow> pystr \<Rightarrow> server_options \<Rightarrow> 'w rt \<Rightarrow> 'w coord \<Rightarrow> exn + 'w web" where
  "start_server ipv6 bind host k rt c =
     (case validate_bind_security ipv6 host (so_token k) (so_roles k) (so_insecure k) of
        Inl e \<Rightarrow> Inl e
      | Inr _ \<Rightarrow> (case bind of Some e \<Rightarrow> Inl e | None \<Rightarrow> build_server ipv6 host k rt c))"

record 'w ended =
  en_error :: "exn option"
  en_closed :: bool
  en_web :: "'w web option"

definition serve ::
    "'w site \<Rightarrow> wire \<Rightarrow> (pystr \<Rightarrow> bool option) \<Rightarrow> exn option \<Rightarrow> bool \<Rightarrow> (pystr \<Rightarrow> sig_outcome) \<Rightarrow> pystr
     \<Rightarrow> server_options \<Rightarrow> 'w rt \<Rightarrow> 'w coord \<Rightarrow> occurrence list \<Rightarrow> 'w ended option" where
  "serve si wi ipv6 bind main f host k rt c os =
     (case start_server ipv6 bind host k rt c of
        Inl e \<Rightarrow> Some \<lparr>en_error = Some e, en_closed = False, en_web = None\<rparr>
      | Inr w \<Rightarrow>
          (case serve_handlers main f of
             Inl e \<Rightarrow> Some \<lparr>en_error = Some e, en_closed = False, en_web = Some w\<rparr>
           | Inr hs \<Rightarrow>
               (case serve_forever si wi hs 0 os w of
                  None \<Rightarrow> None
                | Some (err, w1) \<Rightarrow>
                    Some \<lparr>en_error = (case err of
                                         None \<Rightarrow> None
                                       | Some e \<Rightarrow> if catches CKeyboardInterrupt e then None else Some e),
                          en_closed = True, en_web = Some w1\<rparr>)))"

section \<open>Lemmas\<close>

fun requests_of :: "occurrence list \<Rightarrow> (meth \<times> request) list" where
  "requests_of [] = []"
| "requests_of (Arrives m rq # os) = (m, rq) # requests_of os"
| "requests_of (_ # os) = requests_of os"

lemma serve_forever_ends:
  assumes "serve_forever si wi hs n os w = Some (err, w')"
  shows "\<exists>pre last post. os = pre @ last # post \<and> w' = foldl (serve_step si wi) w (requests_of pre)
    \<and> (case err of None \<Rightarrow> last = FlagSet \<and> (0 < n \<or> (\<exists>g \<in> set hs. Signalled g \<in> set pre)) | Some e \<Rightarrow> last = Breaks e)"
  using assms
proof (induction si wi hs n os w rule: serve_forever.induct)
  case (2 si wi hs n m rq os w)
  then obtain pre last post where "os = pre @ last # post"
    "w' = foldl (serve_step si wi) (serve_step si wi w (m, rq)) (requests_of pre)"
    "case err of None \<Rightarrow> last = FlagSet \<and> (0 < n \<or> (\<exists>g \<in> set hs. Signalled g \<in> set pre)) | Some e \<Rightarrow> last = Breaks e"
    by auto
  then show ?case by (intro exI [of _ "Arrives m rq # pre"] exI [of _ last] exI [of _ post]) (auto split: option.splits)
next
  case (3 si wi hs n g os w)
  then obtain pre last post where "os = pre @ last # post" "w' = foldl (serve_step si wi) w (requests_of pre)"
    "case err of None \<Rightarrow> last = FlagSet \<and> (0 < (if g \<in> set hs then n + 1 else n) \<or> (\<exists>g \<in> set hs. Signalled g \<in> set pre))
     | Some e \<Rightarrow> last = Breaks e"
    by auto
  then show ?case
    by (intro exI [of _ "Signalled g # pre"] exI [of _ last] exI [of _ post]) (auto split: option.splits if_splits)
next
  case (4 si wi hs n os w)
  show ?case
  proof (cases "0 < n")
    case True
    with 4(2) show ?thesis by (intro exI [of _ "[]"] exI [of _ FlagSet] exI [of _ os]) auto
  next
    case False
    with 4 obtain pre last post where "os = pre @ last # post" "w' = foldl (serve_step si wi) w (requests_of pre)"
      "case err of None \<Rightarrow> last = FlagSet \<and> (0 < n \<or> (\<exists>g \<in> set hs. Signalled g \<in> set pre)) | Some e \<Rightarrow> last = Breaks e"
      by auto
    then show ?thesis by (intro exI [of _ "FlagSet # pre"] exI [of _ last] exI [of _ post]) (auto split: option.splits)
  qed
next
  case (5 si wi hs n e os w)
  then show ?case by (intro exI [of _ "[]"] exI [of _ "Breaks e"] exI [of _ os]) auto
qed simp

lemma serve_forever_flagged: "0 < n \<Longrightarrow> serve_forever si wi hs n (mid @ FlagSet # post) w \<noteq> None"
proof (induction mid arbitrary: n w)
  case (Cons x mid)
  then show ?case by (cases x) auto
qed simp

lemma serve_forever_stops:
  "g \<in> set hs \<Longrightarrow> serve_forever si wi hs n (pre @ Signalled g # mid @ FlagSet # post) w \<noteq> None"
proof (induction pre arbitrary: n w)
  case (Cons x pre)
  then show ?case by (cases x) (auto simp: serve_forever_flagged)
qed (auto simp: serve_forever_flagged)

lemma started_ok: "start_server ipv6 bind host k rt c = Inr w \<Longrightarrow> adapter_ok (wb_server w)"
  by (auto simp: start_server_def intro: built_ok split: sum.splits option.splits)

section \<open>The JSON-RPC loop\<close>

lemma tool_request_ok:
  assumes "tool_request si version rq s = Some (r, s')" "adapter_ok s"
  shows "adapter_ok s'"
proof -
  have ev: "adapter_ok s1" if "handle_event si ev s = Some (r1, s1)" for ev r1 s1
    using event_isolated [OF that assms(2)] by simp
  have ask: "adapter_ok s1" if "ask_adapter si ev f s = Some (r1, s1)" for ev f r1 s1
    using that ev by (auto simp: ask_adapter_def split: option.splits)
  have run: "adapter_ok s1" if "run_tool si ev s = Some (r1, s1)" for ev r1 s1
    using that ev by (auto simp: run_tool_def split: option.splits sum.splits)
  show ?thesis
    using assms ask run
    by (auto simp: tool_request_def call_tool_def Let_def split: option.splits sum.splits if_splits tool_value.splits)
qed

lemma handle_request_ok: "handle_request si version rq s = Some (r, s') \<Longrightarrow> adapter_ok s \<Longrightarrow> adapter_ok s'"
  by (auto simp: handle_request_def Let_def dest: tool_request_ok split: if_splits option.splits sum.splits)

lemma serve_line_ok: "serve_line si version parse l s = Some (r, s') \<Longrightarrow> adapter_ok s \<Longrightarrow> adapter_ok s'"
  by (auto simp: serve_line_def Let_def dest: handle_request_ok split: if_splits option.splits sum.splits)

definition line_step ::
    "'w site \<Rightarrow> pystr \<Rightarrow> (pystr \<Rightarrow> exn + mcp_request option) \<Rightarrow> 'w server \<Rightarrow> pystr \<Rightarrow> 'w server" where
  "line_step si version parse s l = (case serve_line si version parse l s of None \<Rightarrow> s | Some (r, s') \<Rightarrow> s')"

interpretation mcp: step_machine "line_step si version parse" adapter_ok for si version parse
proof unfold_locales
  fix s :: "'a server" and l
  assume "adapter_ok s"
  then show "adapter_ok (line_step si version parse s l)"
    by (auto simp: line_step_def split: option.split dest: serve_line_ok)
qed

text \<open>From its start on, whatever lines it is sent, the JSON-RPC server keeps its sessions apart.\<close>

theorem mcp_sessions_isolated:
  assumes "mcp_main si a hist pl fl w = Inr s"
  shows "adapter_ok (foldl (line_step si version parse) s ls)"
proof -
  have "adapter_ok s"
    using assms by (auto simp: mcp_main_def session_registry_def intro!: new_adapter_ok new_manager_owners split: sum.splits)
  then show ?thesis by (rule mcp.run_inv)
qed

section \<open>Properties\<close>


definition quiet_life :: "occurrence list" where
  "quiet_life =
     [Arrives POST (post_to ''/register'' ''t''), FlagSet, Signalled (u ''SIGTERM''),
      Arrives POST (post_to ''/register'' ''u''), FlagSet, Breaks (Exn COSError [])]"

lemma sample_start:
  "case start_server (\<lambda>s. None) None (u ''0.0.0.0'') remote_options sample_rt sample_coord of
     Inr w \<Rightarrow> length (sv_coords (wb_server w)) = 1 | Inl e \<Rightarrow> False"
  by code_simp


end
