(* ===== verification/RunBudget.thy ===== *)
theory RunBudget
  imports Coordinator
begin

text \<open>
  The budget of a run, end to end: from the \<open>budget\<close> option of \<open>AgentCoordinator.run\<close> over the reservations of
  every call its strategy makes to the snapshot in the metadata of the result.
\<close>

definition within_limit :: "int option \<Rightarrow> int \<Rightarrow> bool" where
  "within_limit limit n \<longleftrightarrow> (case limit of None \<Rightarrow> True | Some m \<Rightarrow> n \<le> max 0 m)"

lemma within_limits:
  "budgets_ok None 0 s \<Longrightarrow> b \<in> set (rt_budgets s) \<Longrightarrow> within_limit (b_max_calls b) (b_calls b + b_reserved b)"
  by (auto simp: budgets_ok_def slots_ok_def within_limit_def in_set_conv_nth)

lemma snapshot_limits:
  "fst (bs_limits (budget_snapshot now b)) = b_max_calls b"
  "bs_calls (budget_snapshot now b) + bs_in_flight (budget_snapshot now b) = b_calls b + b_reserved b"
  by (simp_all add: budget_snapshot_def)

text \<open>A budget made from options starts with nothing spent.\<close>

lemma as_budget_limits:
  "as_budget now (Limits l) = Inr (Some b) \<Longrightarrow> slots_ok 0 b \<and> b_max_calls b = l_max_calls l"
  by (auto simp: as_budget_def slots_ok_def new_budget_def split: if_splits option.split)

lemma end_trace_budgets [simp]: "rt_budgets (end_trace h i e s) = rt_budgets s"
  by (simp add: end_trace_def on_coord_def on_trace_def Let_def split: option.split)

lemma on_trace_budgets [simp]: "rt_budgets (on_trace tr f s) = rt_budgets s"
  by (simp add: on_trace_def split: option.split)

lemma restore_run_budgets: "restore_run bt dt tt s = (e, s1) \<Longrightarrow> rt_budgets s1 = rt_budgets s"
  by (auto simp: restore_run_def split: sum.splits)

lemma close_run_budgets:
  assumes "(r, s') = close_run h i br bt dt tt out s"
  shows "rt_budgets s' = rt_budgets s
    \<and> (\<forall>res. r = Inr res \<longrightarrow>
         (\<exists>now. mt_budget (sr_meta res) = map_option (\<lambda>b. budget_snapshot now (rt_budgets s ! b)) br))"
proof -
  obtain e s1 where rs: "restore_run bt dt tt s = (e, s1)" by fastforce
  show ?thesis
    using assms rs restore_run_budgets [OF rs]
    by (auto simp: close_run_def with_meta_def Let_def split: option.splits sum.splits)
qed

lemma traced_run_budgets:
  assumes "traced_run h prompt st session br secs k s = Some (r, s')" "budgets_ok None 0 s"
  shows "(\<forall>b \<in> set (rt_budgets s'). within_limit (b_max_calls b) (b_calls b + b_reserved b))
    \<and> map b_max_calls (rt_budgets s') = map b_max_calls (rt_budgets s)
    \<and> (\<forall>res. r = Inr res \<longrightarrow>
         (\<exists>now. mt_budget (sr_meta res) = map_option (\<lambda>b. budget_snapshot now (rt_budgets s' ! b)) br))"
  using assms(1)
proof (cases rule: traced_run_cases)
  case (no_deadline e)
  then show ?thesis using within_limits [OF assms(2)] by simp
next
  case (ran t ttok tv dtok dv btok bv out s2)
  let ?s = "s\<lparr>rt_traces := rt_traces s @ [t], rt_trace_var := tv, rt_deadline_var := dv, rt_budget_var := bv\<rparr>"
  have "budgets_ok None 0 ?s" using assms(2) by (simp add: budgets_ok_def)
  from strategies_within_budget [OF ran(5) this]
  have "\<forall>b \<in> set (rt_budgets s2). within_limit (b_max_calls b) (b_calls b + b_reserved b)"
    "map b_max_calls (rt_budgets s2) = map b_max_calls (rt_budgets s)"
    by (simp_all add: within_limit_def)
  with close_run_budgets [OF ran(6)] show ?thesis by simp
qed

lemma chosen_budget_ok:
  assumes "chosen_budget h ra s br s1" "budgets_ok None 0 s"
    "\<forall>b. ra_budget ra = Option (Manager b) \<longrightarrow> slots_ok 0 b" "\<forall>i. ra_budget ra = Shared i \<longrightarrow> i < length (rt_budgets s)"
  shows "budgets_ok None 0 s1 \<and> (\<forall>i. br = Some i \<longrightarrow> i < length (rt_budgets s1))
    \<and> (\<forall>l. ra_budget ra = Option (Limits l) \<longrightarrow>
         (\<exists>i. br = Some i \<and> i < length (rt_budgets s1) \<and> b_max_calls (rt_budgets s1 ! i) = l_max_calls l))"
proof -
  have snoc: "budgets_ok None 0 s'" if "rt_budgets s' = rt_budgets s @ [b]" "slots_ok 0 b" for s' :: "'a rt" and b
    using assms(2) that by (auto simp: budgets_ok_def nth_append less_Suc_eq)
  have same: "budgets_ok None 0 s'" if "rt_budgets s' = rt_budgets s" for s' :: "'a rt"
    using assms(2) that by (simp add: budgets_ok_def)
  let ?now = "x_clock (ho_x h) (rt_world s)"
  obtain s0 where s0: "run_budget_of h ra s = Some (Inr br, s0)" "rt_budgets s1 = rt_budgets s0"
    using assms(1) by (auto simp: chosen_budget_def)
  consider (shared) i where "ra_budget ra = Shared i" "br = Some i" "rt_budgets s1 = rt_budgets s"
    | (none) "br = None" "rt_budgets s1 = rt_budgets s" "\<nexists>l. ra_budget ra = Option (Limits l)"
    | (new) arg b where "as_budget ?now arg = Inr (Some b)" "br = Some (length (rt_budgets s))"
        "rt_budgets s1 = rt_budgets s @ [b]" "arg = Manager b \<and> ra_budget ra = Option arg \<or> (\<exists>l. arg = Limits l)"
        "\<And>l. ra_budget ra = Option (Limits l) \<Longrightarrow> arg = Limits l"
  proof (cases "budget_option (rt_coord s) (ra_budget ra)")
    case (Shared i)
    then have "ra_budget ra = Shared i"
      by (auto simp: budget_option_def split: run_budget.splits budget_arg.splits option.splits)
    with Shared s0 show thesis by (intro shared [of i]) (simp_all add: run_budget_of_def)
  next
    case (Option arg)
    have lim: "ra_budget ra = Option (Limits l) \<Longrightarrow> arg = Limits l" for l using Option by (simp add: budget_option_def)
    show thesis
    proof (cases "as_budget ?now arg")
      case (Inl e)
      with Option s0 show thesis by (simp add: run_budget_of_def)
    next
      case (Inr ob)
      show thesis
      proof (cases ob)
        case None
        have "\<nexists>l. ra_budget ra = Option (Limits l)"
          using Inr None lim by (auto simp: as_budget_def split: if_splits)
        with Option Inr None s0 show thesis by (intro none) (simp_all add: run_budget_of_def)
      next
        case (Some b)
        have "arg = Manager b \<and> ra_budget ra = Option arg \<or> (\<exists>l. arg = Limits l)"
          using Option Inr Some
          by (cases arg; cases "ra_budget ra") (auto simp: as_budget_def budget_option_def split: budget_arg.splits option.splits)
        with Option Inr Some s0 lim show thesis by (intro new [of arg b]) (auto simp: run_budget_of_def)
      qed
    qed
  qed
  then show ?thesis
  proof cases
    case shared
    then show ?thesis using same assms(4) by simp
  next
    case none
    then show ?thesis using same by simp
  next
    case new
    have "slots_ok 0 b" using new(1,4) assms(3) as_budget_limits by blast
    moreover have "b_max_calls b = l_max_calls l" if "ra_budget ra = Option (Limits l)" for l
      using new(1) new(5) [OF that] as_budget_limits by blast
    ultimately show ?thesis using snoc [OF new(3)] new(2,3) by simp
  qed
qed

section \<open>Properties\<close>

text \<open>
  C7. No run overspends: whatever its strategy, its agents and the pool do, and whether it is refused, returns or
  raises, every budget has at most its \<open>max_calls\<close> calls made and in flight afterwards; a result reports a snapshot
  that shows it, and when the caller gave limits, the snapshot is of a budget with the limit given.
\<close>

theorem run_within_budget:
  assumes "coordinator_run h prompt strategy ra s = Some (r, s')" "budgets_ok None 0 s"
    "\<forall>b. ra_budget ra = Option (Manager b) \<longrightarrow> slots_ok 0 b" "\<forall>i. ra_budget ra = Shared i \<longrightarrow> i < length (rt_budgets s)"
  shows "(\<forall>b \<in> set (rt_budgets s'). within_limit (b_max_calls b) (b_calls b + b_reserved b))
    \<and> (\<forall>res d. r = Inr res \<longrightarrow> mt_budget (sr_meta res) = Some d \<longrightarrow>
         within_limit (fst (bs_limits d)) (bs_calls d + bs_in_flight d))
    \<and> (\<forall>res l. r = Inr res \<longrightarrow> ra_budget ra = Option (Limits l) \<longrightarrow>
         (\<exists>d. mt_budget (sr_meta res) = Some d \<and> fst (bs_limits d) = l_max_calls l))"
  using assms(1)
proof (cases rule: coordinator_run_cases)
  case (refused e)
  have "budgets_ok None 0 s'"
    using refused(3) chosen_budget_ok [OF _ assms(2-4)] budgets_ok_same assms(2) by blast
  with refused(1) within_limits show ?thesis by auto
next
  case (traced s1 st br secs k)
  note c = chosen_budget_ok [OF traced(5) assms(2-4)]
  note t = traced_run_budgets [OF traced(2) conjunct1 [OF c]]
  have len: "length (rt_budgets s') = length (rt_budgets s1)" using t by (metis length_map)
  have lim: "b_max_calls (rt_budgets s' ! i) = b_max_calls (rt_budgets s1 ! i)" if "i < length (rt_budgets s1)" for i
    using t that len by (metis nth_map)
  have "within_limit (fst (bs_limits d)) (bs_calls d + bs_in_flight d)"
    if r: "r = Inr res" and d: "mt_budget (sr_meta res) = Some d" for res d
  proof -
    obtain now where "mt_budget (sr_meta res) = map_option (\<lambda>b. budget_snapshot now (rt_budgets s' ! b)) br"
      using t [THEN conjunct2, THEN conjunct2, rule_format, OF r] by blast
    then obtain i where i: "br = Some i" "d = budget_snapshot now (rt_budgets s' ! i)" using d by (cases br) auto
    then have "rt_budgets s' ! i \<in> set (rt_budgets s')" using c len by simp
    with t show ?thesis by (simp add: snapshot_limits i(2))
  qed
  moreover have "\<exists>d. mt_budget (sr_meta res) = Some d \<and> fst (bs_limits d) = l_max_calls l"
    if r: "r = Inr res" and l: "ra_budget ra = Option (Limits l)" for res l
  proof -
    obtain i where "br = Some i" "i < length (rt_budgets s1)" "b_max_calls (rt_budgets s1 ! i) = l_max_calls l"
      using c l by blast
    moreover obtain now where "mt_budget (sr_meta res) = map_option (\<lambda>b. budget_snapshot now (rt_budgets s' ! b)) br"
      using t [THEN conjunct2, THEN conjunct2, rule_format, OF r] by blast
    ultimately show ?thesis by (simp add: snapshot_limits lim)
  qed
  ultimately show ?thesis using t by blast
qed

definition limited_args :: run_args where
  "limited_args =
     sample_args\<lparr>ra_budget := Option (Limits \<lparr>l_unknown = [], l_max_calls = Some 5, l_max_tokens = None,
        l_max_cost = None, l_max_seconds = None, l_pricer = None\<rparr>)\<rparr>"

lemma limited_run: "returns (coordinator_run sample_host (u ''q'') (u ''broadcast'') limited_args sample_rt)"
  by code_simp

theorem run_within_budget_witness:
  "\<exists>res s' d. coordinator_run sample_host (u ''q'') (u ''broadcast'') limited_args sample_rt = Some (Inr res, s')
     \<and> mt_budget (sr_meta res) = Some d \<and> fst (bs_limits d) = Some 5 \<and> bs_calls d + bs_in_flight d \<le> 5"
proof -
  obtain res s' where e: "coordinator_run sample_host (u ''q'') (u ''broadcast'') limited_args sample_rt = Some (Inr res, s')"
    using returnsD [OF limited_run] by blast
  have l: "ra_budget limited_args = Option (Limits \<lparr>l_unknown = [], l_max_calls = Some 5, l_max_tokens = None,
      l_max_cost = None, l_max_seconds = None, l_pricer = None\<rparr>)" by (simp add: limited_args_def)
  have "budgets_ok None 0 sample_rt" by (simp add: budgets_ok_def sample_rt_def)
  note w = run_within_budget [OF e this]
  obtain d where d: "mt_budget (sr_meta res) = Some d" "fst (bs_limits d) = Some 5" using w by (auto simp: l)
  moreover have "within_limit (fst (bs_limits d)) (bs_calls d + bs_in_flight d)" using w d(1) by (auto simp: l)
  ultimately show ?thesis using e by (auto simp: within_limit_def)
qed

end
