(* ===== verification/Spec2Isabelle.thy ===== *)
theory Spec2Isabelle
  imports Executor Legacy Serving RunBudget
begin

text \<open>
  The multi-agent orchestration plugin (the Python package \<open>deepseek_multi_agent_plugin\<close> under \<open>src/src/\<close>), as
  definitions translated from its source and the theorems that make it correct. All paths below are relative to
  that package.

  \<^bold>\<open>The program.\<close> An \<^emph>\<open>agent\<close> turns a message and a conversation into an answer: by a handler, by an OpenAI-compatible
  chat API, by a command, or by a chain of other agents. A \<^emph>\<open>coordinator\<close> holds agents, a shared memory and a
  registry of runs; its \<open>run\<close> picks one of six \<^emph>\<open>strategies\<close>, which call agents one by one or in parallel on a
  bounded pool. The supervisor strategy parses a plan of tasks out of an answer and hands it to the DAG
  \<^emph>\<open>scheduler\<close>. Context variables carry the trace, the deadline and the budget of the current run down to each
  call. The \<^emph>\<open>adapter\<close> turns events of a harness into operations on the coordinator of their session, and an HTTP
  server, a JSON-RPC (MCP) loop and a command line turn requests into events.

  \<^bold>\<open>The theories\<close>, from the leaves to the entry points, and what each group of lemmas shows.

  \<^item> \<open>Prelude\<close>: Python strings as lists of code points, values (\<open>pyval\<close>), insertion-ordered dictionaries as
    association lists, rounding and formatting, and the locales \<open>step_machine\<close> (operations keep an invariant)
    and \<open>bounded_machine\<close> (and a size), interpreted below for the cache, the pool, the budget, the sessions, the
    health counters, the HTTP server and the JSON-RPC loop.
  \<^item> \<open>Errors\<close> (\<open>exceptions.py\<close>): exceptions as values, the class hierarchy and what an \<open>except\<close> clause catches.
    A raise is \<open>Inl\<close> of a sum throughout.
  \<^item> \<open>Context\<close> (\<open>context.py\<close>): context policy, projection of the conversation on an agent, cancellation tokens.
    \<open>ConfigValues\<close>: how configuration values are read.
  \<^item> \<open>Dependency\<close> (\<open>runtime/dependency.py\<close>): Kahn's algorithm succeeds exactly on the acyclic graphs.
    \<open>TaskModel\<close> (\<open>runtime/task.py\<close>): tasks, results, and a plan is accepted exactly when it is valid.
  \<^item> \<open>Scheduler\<close> (\<open>runtime/scheduler.py\<close>): the state of \<open>execute\<close> and its loop; \<open>SchedulerInv\<close>, \<open>SchedulerProofs\<close>,
    \<open>SchedulerRuns\<close>, \<open>SchedulerOrder\<close> show that every pass is a sequence of moves of one transition relation, its
    invariant, and when the loop ends; \<open>SchedulerProps\<close> states completeness, order, abortion and termination.
  \<^item> \<open>Deadline\<close>, \<open>Budget\<close>, \<open>Executor\<close> (\<open>runtime/deadline.py\<close>, \<open>runtime/budget.py\<close>, \<open>runtime/executor.py\<close>): deadlines nest,
    no interleaving of reservations exceeds a call budget, and the slots of the pool are conserved. The locale
    \<open>scoped_variable\<close> is the contract of the context variables, which the run deadline, the budget and the trace
    provide and \<open>coordinator_run\<close> relies on.
  \<^item> \<open>Cache\<close>, \<open>Memory\<close>, \<open>History\<close>, \<open>Sessions\<close>, \<open>Security\<close>, \<open>Observability\<close> (\<open>cache.py\<close>, \<open>memory.py\<close>, \<open>history.py\<close>,
    \<open>sessions.py\<close>, \<open>security.py\<close>, \<open>observability.py\<close>): the stores and their bounds. The cache refines a list of
    entries, most recent first, and is an \<open>expiring_store\<close>, the contract the chat API memoises by; the block-wise
    tail scan of the history file equals reading all of it.
  \<^item> \<open>ChatApi\<close>, \<open>Agents\<close> (\<open>agents.py\<close>): one chat call with its retries, waits and cache; agents, chains and the
    factory.
  \<^item> \<open>Supervisor\<close> (\<open>supervisor.py\<close>): from an answer to a plan: parsing, validation, repair, fallback, routing.
  \<^item> \<open>Calls\<close>, \<open>Actions\<close>, \<open>Supervision\<close>, \<open>Strategies\<close> (\<open>strategies.py\<close>): a call contains the errors of its agent; a
    parallel call is complete under every interleaving; executing a plan with agents refines a scheduler run;
    the six strategies. \<open>run_contract\<close> and \<open>strategy_contract\<close> are the locales by which a relation that every
    call respects is carried to every strategy, interpreted for what a run keeps and for its budget.
  \<^item> \<open>Coordinator\<close>, \<open>RunBudget\<close>, \<open>Adapter\<close>, \<open>Legacy\<close> (\<open>coordinator.py\<close>, \<open>legacy.py\<close>): a run is recorded once, leaves
    the context as it was and keeps within its budget; events, sessions, slots, registration.
  \<^item> \<open>Config\<close>, \<open>HttpText\<close>, \<open>Http\<close>, \<open>Mcp\<close>, \<open>Cli\<close> (\<open>config.py\<close>, \<open>adapters/http.py\<close>, \<open>adapters/mcp.py\<close>,
    \<open>adapters/cli.py\<close>): what is accepted from the outside, who may do what, and what is answered.
  \<^item> \<open>Server\<close>, \<open>Serving\<close> (\<open>serve\<close> of \<open>adapters/http.py\<close>, the loop of \<open>adapters/mcp.py\<close>): the whole life of a server,
    from its start over any requests to the signal that ends it.

  \<^bold>\<open>State and effects.\<close> The state of a run is the record \<open>rt\<close>: the coordinator, the traces and budgets as lists of
  objects named by their position (the code shares and mutates them), the three context variables, and the state
  \<open>'w\<close> of the world outside. An action maps such a state to \<open>None\<close> (it never returns) or to an exception or value
  and the state left. Effects that the code gets from outside are functions of the world, gathered in records:
  \<open>ext\<close> (HTTP transport, subprocess, clock, random numbers, environment, digests, \<open>json.dumps\<close>, float parsing),
  \<open>pooling\<close> (does the shared pool take a call, is it done in time, in which order do parallel calls begin and
  end), \<open>host\<close> (\<open>json.loads\<close>, the iteration order of a set, what happens while a plan is executed), \<open>site\<close> (the
  reading of keyword arguments, the session factory, slots freed by other threads, the history codec) and \<open>wire\<close>
  (decoding a request body). Theorems hold for all of them. Operations the code runs under a lock are single
  steps; what threads interleave is a sequence of such steps, given as an argument.

  \<^bold>\<open>Bounds.\<close> No fuel is used. The scheduler's loop recurses over the turns its environment grants; \<open>run_terminates\<close>
  shows that a plan of n tasks ends within n turns once each wait sees a running task end, so running out of turns
  (\<open>None\<close>) is a wait that never ends. The retry loop, the rounds and the repair attempts recurse on their counts.
  Times and costs are real numbers: floating-point rounding is not modelled. Integers are unbounded as in Python.
  Where the code lowers text or reads digits, characters beyond Latin-1 are treated as the theory \<open>Prelude\<close> says.

  \<^bold>\<open>Not modelled.\<close> The re-exporting modules (the \<open>__init__.py\<close> files, \<open>adapter_server.py\<close>, \<open>cli.py\<close>, \<open>mcp_server.py\<close>);
  option parsing by \<open>argparse\<close> (the commands are modelled on their parsed options), log output and the text
  printed on a terminal (its content is a value), apart from the line \<open>serve\<close> starts with; the bytes on the wire;
  \<open>repr\<close> of cancellation tokens; YAML and JSON parsing and the OpenAI-compatible service, which are parameters; the separate TypeScript package
  under \<open>src/packages/\<close>, tests, examples and deployment files.
\<close>

end
